(* ===== verification/Yad_Prelude.thy ===== *)
theory Yad_Prelude
  imports Main "HOL-Library.Word"
begin

text \<open>
  The vocabulary every component shares. Machine integers are words at the width the code
  declares; a \<^verbatim>\<open>std::string\<close> is a \<^typ>\<open>string\<close> (HOL characters are bytes) and a
  \<^verbatim>\<open>std::span<const std::uint8_t>\<close> a list of 8-bit words. A C++ function that may throw
  returns a value of the sum type \<open>'e + 'a\<close>, \<open>Inl\<close> carrying the exception; \<open>bindE\<close>
  sequences such computations the way an uncaught exception unwinds. The searches of
  \<^verbatim>\<open>std::string_view\<close> return \<open>None\<close> for \<^verbatim>\<open>npos\<close>.
\<close>

type_synonym byte = "8 word"
type_synonym u16 = "16 word"
type_synonym u32 = "32 word"

text \<open>Unfolding rules for the operations on wire data, and for those on text.\<close>

named_theorems wire_simps
named_theorems text_simps

section \<open>Exceptions as values\<close>

definition bindE :: "'e + 'a \<Rightarrow> ('a \<Rightarrow> 'e + 'b) \<Rightarrow> 'e + 'b" where
  "bindE m f = (case m of Inl e \<Rightarrow> Inl e | Inr x \<Rightarrow> f x)"

text \<open>A loop that collects results and stops at the first exception.\<close>

fun mapE :: "('a \<Rightarrow> 'e + 'b) \<Rightarrow> 'a list \<Rightarrow> 'e + 'b list" where
  "mapE f [] = Inr []"
| "mapE f (x # xs) = bindE (f x) (\<lambda>y. bindE (mapE f xs) (\<lambda>ys. Inr (y # ys)))"

text \<open>A loop of checks.\<close>

fun forE :: "('a \<Rightarrow> 'e + unit) \<Rightarrow> 'a list \<Rightarrow> 'e + unit" where
  "forE f [] = Inr ()"
| "forE f (x # xs) = bindE (f x) (\<lambda>_. forE f xs)"

lemma mapE_cong [fundef_cong]: "xs = ys \<Longrightarrow> (\<And>x. x \<in> set ys \<Longrightarrow> f x = g x) \<Longrightarrow> mapE f xs = mapE g ys"
  by (induction ys arbitrary: xs) simp_all

lemma mapE_map: "mapE f (map g xs) = mapE (\<lambda>x. f (g x)) xs"
  by (induction xs) simp_all

lemma bindE_Inl [simp]: "bindE (Inl e) f = Inl e"
  by (simp add: bindE_def)

lemma bindE_Inr [simp]: "bindE (Inr x) f = f x"
  by (simp add: bindE_def)

lemma bindE_eq_Inr_iff [simp]: "bindE m f = Inr y \<longleftrightarrow> (\<exists>x. m = Inr x \<and> f x = Inr y)"
  by (cases m) auto

lemma bindE_eq_Inl_iff: "bindE m f = Inl e \<longleftrightarrow> m = Inl e \<or> (\<exists>x. m = Inr x \<and> f x = Inl e)"
  by (cases m) auto

lemma bindE_cong [fundef_cong]:
  "m = m' \<Longrightarrow> (\<And>x. m' = Inr x \<Longrightarrow> f x = g x) \<Longrightarrow> bindE m f = bindE m' g"
  by (cases m') auto

lemma bindE_assoc: "bindE (bindE m f) g = bindE m (\<lambda>x. bindE (f x) g)"
  by (cases m) auto

lemma map_sum_eq_Inr [simp]: "map_sum f g x = Inr z \<longleftrightarrow> (\<exists>y. x = Inr y \<and> z = g y)"
  by (cases x) auto

lemma map_sum_eq_Inl [simp]: "map_sum f g x = Inl z \<longleftrightarrow> (\<exists>y. x = Inl y \<and> z = f y)"
  by (cases x) auto

lemma forE_ok_iff: "forE f xs = Inr () \<longleftrightarrow> (\<forall>x\<in>set xs. f x = Inr ())"
  by (induction xs) auto

lemma forE_error: "forE f xs = Inl e \<Longrightarrow> \<exists>x\<in>set xs. f x = Inl e"
  by (induction xs) (auto simp: bindE_eq_Inl_iff)

lemma if_Inl_ok [simp]: "(if c then Inl e else r) = Inr x \<longleftrightarrow> \<not> c \<and> r = Inr x"
  by auto

section \<open>Characters and bytes\<close>

definition byte_of_char :: "char \<Rightarrow> byte" where
  "byte_of_char c = of_char c"

definition char_of_byte :: "byte \<Rightarrow> char" where
  "char_of_byte b = char_of (unat b)"

lemma of_char_less_256: "of_char c < (256 :: nat)"
  using of_char_mod_256 [where ?'a = nat, of c] mod_less_divisor [of 256 "of_char c"] by simp

lemma unat_byte_of_char: "unat (byte_of_char c) = of_char c"
proof -
  have "of_char c mod (256 :: nat) = of_char c" by (rule of_char_mod_256)
  then have "unat (of_nat (of_char c) :: byte) = of_char c"
    by (simp add: unat_of_nat)
  then show ?thesis by (simp only: byte_of_char_def of_nat_of_char)
qed

lemma char_of_byte_of_char [simp]: "char_of_byte (byte_of_char c) = c"
  by (simp add: char_of_byte_def unat_byte_of_char)

lemma byte_of_char_of_byte [simp]: "byte_of_char (char_of_byte b) = b"
proof -
  have "unat b < 256" using unsigned_less [of b] by simp
  then have "unat (byte_of_char (char_of_byte b)) = unat b"
    by (simp add: unat_byte_of_char char_of_byte_def)
  then show ?thesis by (simp add: word_unat_eq_iff)
qed

text \<open>A property of bytes that evaluates can be proved by running through all of them.\<close>

lemma byte_exhaust_check:
  assumes "list_all P (map of_nat [0..<256])" shows "P (b :: byte)"
proof -
  have "unat b < 256" using unsigned_less [of b] by simp
  then have "of_nat (unat b) \<in> set (map of_nat [0..<256] :: byte list)" by (auto simp del: of_nat_unat)
  with assms show ?thesis by (auto simp: list_all_iff)
qed

lemma map_char_of_byte_of_char [simp]: "map char_of_byte (map byte_of_char s) = s"
  by (simp add: comp_def)

lemma byte_of_char_inject [simp]: "byte_of_char c = byte_of_char d \<longleftrightarrow> c = d"
  by (metis char_of_byte_of_char)

section \<open>Decimal numbers\<close>

text \<open>What \<^verbatim>\<open>fmt::format("{}", n)\<close> and \<^verbatim>\<open>std::to_string\<close> print for an unsigned number.\<close>

definition dec_digit :: "nat \<Rightarrow> char" where
  "dec_digit n = char_of (48 + n)"

fun dec_string :: "nat \<Rightarrow> string" where
  "dec_string n = (if n < 10 then [dec_digit n] else dec_string (n div 10) @ [dec_digit (n mod 10)])"

declare dec_string.simps [simp del]

text \<open>\<^verbatim>\<open>std::from_chars\<close> on the longest prefix of digits: the value and the unread rest, or \<open>None\<close>
  where it reports \<^verbatim>\<open>invalid_argument\<close> (no digit) or \<^verbatim>\<open>result_out_of_range\<close> (not below the bound).
  The signed version reads an optional minus sign.\<close>

definition is_digit :: "char \<Rightarrow> bool" where
  "is_digit c = (let i = of_char c :: nat in 48 \<le> i \<and> i \<le> 57)"

definition digit_val :: "char \<Rightarrow> nat" where
  "digit_val c = of_char c - 48"

definition dec_value :: "string \<Rightarrow> nat" where
  "dec_value ds = foldl (\<lambda>n c. n * 10 + digit_val c) 0 ds"

definition from_chars_nat :: "nat \<Rightarrow> string \<Rightarrow> (nat \<times> string) option" where
  "from_chars_nat bound s =
     (let ds = takeWhile is_digit s in
      if ds = [] \<or> bound \<le> dec_value ds then None else Some (dec_value ds, dropWhile is_digit s))"

definition from_chars_int :: "string \<Rightarrow> (int \<times> string) option" where
  "from_chars_int s =
     (case s of
        [] \<Rightarrow> None
      | c # r \<Rightarrow>
          if c = CHR ''-'' then map_option (\<lambda>(v, rest). (- int v, rest)) (from_chars_nat (2 ^ 31 + 1) r)
          else map_option (\<lambda>(v, rest). (int v, rest)) (from_chars_nat (2 ^ 31) s))"

lemma dec_value_snoc: "dec_value (ds @ [c]) = dec_value ds * 10 + digit_val c"
  by (simp add: dec_value_def)

lemma dec_digit_facts: "n < 10 \<Longrightarrow> is_digit (dec_digit n) \<and> digit_val (dec_digit n) = n"
  by (simp add: is_digit_def digit_val_def dec_digit_def)

lemma dec_value_dec_string [simp]: "dec_value (dec_string n) = n"
proof (induction n rule: dec_string.induct)
  case (1 n)
  then show ?case
    by (subst dec_string.simps) (auto simp: dec_value_snoc dec_digit_facts, simp add: dec_value_def dec_digit_facts)
qed

lemma dec_string_digits: "c \<in> set (dec_string n) \<Longrightarrow> is_digit c"
proof (induction n rule: dec_string.induct)
  case (1 n)
  then show ?case
    by (subst (asm) (2) dec_string.simps) (auto simp: dec_digit_facts split: if_splits)
qed

lemma dec_string_not_Nil [simp]: "dec_string n \<noteq> []"
  by (subst dec_string.simps) simp

lemma from_chars_dec_string:
  assumes "n < bound" "r = [] \<or> \<not> is_digit (hd r)"
  shows "from_chars_nat bound (dec_string n @ r) = Some (n, r)"
proof -
  have "takeWhile is_digit (dec_string n @ r) = dec_string n" "dropWhile is_digit (dec_string n @ r) = r"
    using assms(2) dec_string_digits by (cases r; auto simp: takeWhile_append dropWhile_append)+
  then show ?thesis using assms(1) by (simp add: from_chars_nat_def)
qed

section \<open>Searching in sequences\<close>

text \<open>\<^verbatim>\<open>find(c)\<close>, \<^verbatim>\<open>find(c, pos)\<close>, \<^verbatim>\<open>rfind(c)\<close> and \<^verbatim>\<open>find(s)\<close>, \<^verbatim>\<open>find(s, pos)\<close>.\<close>

fun find_elem :: "'a \<Rightarrow> 'a list \<Rightarrow> nat option" where
  "find_elem c [] = None"
| "find_elem c (x # xs) = (if x = c then Some 0 else map_option Suc (find_elem c xs))"

definition find_elem_from :: "'a \<Rightarrow> 'a list \<Rightarrow> nat \<Rightarrow> nat option" where
  "find_elem_from c xs pos = map_option ((+) pos) (find_elem c (drop pos xs))"

fun rfind_elem :: "'a \<Rightarrow> 'a list \<Rightarrow> nat option" where
  "rfind_elem c [] = None"
| "rfind_elem c (x # xs) =
     (case rfind_elem c xs of Some i \<Rightarrow> Some (Suc i) | None \<Rightarrow> if x = c then Some 0 else None)"

fun starts_with :: "'a list \<Rightarrow> 'a list \<Rightarrow> bool" where
  "starts_with xs [] = True"
| "starts_with [] (y # ys) = False"
| "starts_with (x # xs) (y # ys) = (x = y \<and> starts_with xs ys)"

fun find_sub :: "'a list \<Rightarrow> 'a list \<Rightarrow> nat option" where
  "find_sub t [] = (if t = [] then Some 0 else None)"
| "find_sub t (x # xs) =
     (if starts_with (x # xs) t then Some 0 else map_option Suc (find_sub t xs))"

definition find_sub_from :: "'a list \<Rightarrow> 'a list \<Rightarrow> nat \<Rightarrow> nat option" where
  "find_sub_from t xs pos = map_option ((+) pos) (find_sub t (drop pos xs))"

definition substr :: "'a list \<Rightarrow> nat \<Rightarrow> nat \<Rightarrow> 'a list" where
  "substr xs pos len = take len (drop pos xs)"

lemma list_all_upt [simp]: "list_all P [0..<n] \<longleftrightarrow> (\<forall>i<n. P i)"
  by (auto simp: list_all_iff)

lemma list_ex_upt [simp]: "list_ex P [0..<n] \<longleftrightarrow> (\<exists>i<n. P i)"
  by (auto simp: list_ex_iff)

lemma find_elem_None_iff: "find_elem c xs = None \<longleftrightarrow> c \<notin> set xs"
  by (induction xs) auto

lemma find_elem_SomeD: "find_elem c xs = Some i \<Longrightarrow> i < length xs \<and> xs ! i = c \<and> c \<notin> set (take i xs)"
  by (induction xs arbitrary: i) (auto split: if_splits simp: less_Suc_eq_0_disj)

lemma find_elem_append:
  "find_elem c (xs @ ys) =
     (case find_elem c xs of Some i \<Rightarrow> Some i | None \<Rightarrow> map_option ((+) (length xs)) (find_elem c ys))"
proof (induction xs)
  case Nil
  then show ?case by (cases "find_elem c ys") auto
next
  case (Cons x xs)
  then show ?case
    by (cases "find_elem c ys") (auto split: option.splits simp: option.map_comp comp_def)
qed

lemma find_elem_append_notin [simp]:
  "c \<notin> set xs \<Longrightarrow> find_elem c (xs @ c # ys) = Some (length xs)"
  by (induction xs) auto

lemma starts_with_iff: "starts_with xs ys \<longleftrightarrow> take (length ys) xs = ys"
  by (induction xs ys rule: starts_with.induct) auto

lemma starts_with_append [simp]: "starts_with (ys @ zs) ys"
  by (simp add: starts_with_iff)

lemma find_sub_SomeD:
  "find_sub t xs = Some i \<Longrightarrow> i + length t \<le> length xs \<and> starts_with (drop i xs) t"
  by (induction t xs arbitrary: i rule: find_sub.induct)
     (auto split: if_splits simp: starts_with_iff dest: arg_cong [of _ _ length])

lemma rfind_elem_None_iff: "rfind_elem c xs = None \<longleftrightarrow> c \<notin> set xs"
  by (induction xs) (auto split: option.splits)

lemma rfind_elem_SomeD:
  "rfind_elem c xs = Some i \<Longrightarrow> i < length xs \<and> xs ! i = c \<and> c \<notin> set (drop (Suc i) xs)"
  by (induction xs arbitrary: i) (auto split: option.splits if_splits simp: rfind_elem_None_iff)

end
