(* ===== verification/Yad_Errors.thy ===== *)
theory Yad_Errors
  imports Yad_Prelude
begin

text \<open>
  The error codes of \<^verbatim>\<open>include/dns_error.h\<close> and the exception classes of
  \<^verbatim>\<open>include/exception\<close>. Exceptions keep their class and, for a DNS lookup, their code; the
  diagnostic text is dropped. \<open>OutOfBounds\<close> is not an exception of the program: it is the value
  the model gives to an access outside a buffer, which C++ leaves undefined, so that the absence
  of such accesses is a theorem and not a convention.
\<close>

datatype dns_error =
    NX_DOMAIN | RETRY | NODATA | PARSE | CONNECTION | CONFIG | CANCELLED | SERVER_REFUSED | UNKNOWN

fun error_to_str :: "dns_error \<Rightarrow> string" where
  "error_to_str NX_DOMAIN = ''no such domain (NXDOMAIN)''"
| "error_to_str RETRY = ''retry (TRY_AGAIN)''"
| "error_to_str NODATA = ''no data (NO_DATA)''"
| "error_to_str PARSE = ''DNS record parse error (PARSE)''"
| "error_to_str CONNECTION = ''connection error (CONNECTION)''"
| "error_to_str CONFIG = ''configuration error (CONFIG)''"
| "error_to_str CANCELLED = ''cancelled (CANCELLED)''"
| "error_to_str SERVER_REFUSED = ''server refused query (REFUSED)''"
| "error_to_str UNKNOWN = ''unknown DNS error''"

datatype exn =
    DnsLookupException dns_error
  | DnsPacketException
  | ConfigVerificationException
  | DriverException
  | ParamParseException
  | SocketException
  | TlsException
  | BadDriverException
  | DriverNotFoundException
  | RuntimeError
  | InvalidArgument
  | OutOfRange
  | OutOfBounds

type_synonym 'a result = "exn + 'a"

abbreviation parse_error :: "'a result" where
  "parse_error \<equiv> Inl (DnsLookupException PARSE)"

text \<open>The outcomes a parser of untrusted bytes may have: a value, or a PARSE exception.\<close>

definition ok_or_parse_error :: "'a result \<Rightarrow> bool" where
  "ok_or_parse_error r = (case r of Inl e \<Rightarrow> e = DnsLookupException PARSE | Inr _ \<Rightarrow> True)"

lemma ok_or_parse_error_simps [simp]:
  "ok_or_parse_error (Inr x)"
  "ok_or_parse_error (Inl e) \<longleftrightarrow> e = DnsLookupException PARSE"
  by (simp_all add: ok_or_parse_error_def)

lemma ok_or_parse_error_bindE [intro]:
  "ok_or_parse_error m \<Longrightarrow> (\<And>x. m = Inr x \<Longrightarrow> ok_or_parse_error (f x)) \<Longrightarrow> ok_or_parse_error (bindE m f)"
  by (cases m) auto

lemma ok_or_parse_errorD: "ok_or_parse_error r \<Longrightarrow> r \<noteq> Inl OutOfBounds"
  by auto

lemma error_to_str_inj: "error_to_str a = error_to_str b \<longleftrightarrow> a = b"
  by (cases a; cases b) simp_all

end
