(* ===== verification/Bytes.thy ===== *)
theory Bytes
  imports Yad_Errors
begin

text \<open>
  Big-endian access to byte buffers (\<^verbatim>\<open>src/util/bytes.hpp\<close>). The span overloads of the code take
  no length: reading where fewer bytes are left than the width is undefined there and
  \<open>OutOfBounds\<close> here. What a client may rely on is the interface \<open>be_codec\<close>, interpreted below
  for the 16-bit and the 32-bit fields.
\<close>

unbundle bit_operations_syntax

definition read_u16_be :: "byte list \<Rightarrow> nat \<Rightarrow> u16 result" where
  "read_u16_be buf offset =
     (if offset + 2 \<le> length buf
      then Inr (push_bit 8 (ucast (buf ! offset)) OR ucast (buf ! (offset + 1)))
      else Inl OutOfBounds)"

definition read_u32_be :: "byte list \<Rightarrow> nat \<Rightarrow> u32 result" where
  "read_u32_be buf offset =
     (if offset + 4 \<le> length buf
      then Inr (push_bit 24 (ucast (buf ! offset)) OR push_bit 16 (ucast (buf ! (offset + 1))) OR
                push_bit 8 (ucast (buf ! (offset + 2))) OR ucast (buf ! (offset + 3)))
      else Inl OutOfBounds)"

definition write_u16_be :: "byte list \<Rightarrow> nat \<Rightarrow> u16 \<Rightarrow> byte list result" where
  "write_u16_be buf offset value =
     (if offset + 2 \<le> length buf
      then Inr (buf[offset := ucast (drop_bit 8 value), offset + 1 := ucast value])
      else Inl OutOfBounds)"

text \<open>The bytes of a field, most significant first.\<close>

definition be16 :: "u16 \<Rightarrow> byte list" where
  "be16 v = [ucast (drop_bit 8 v), ucast v]"

definition be32 :: "u32 \<Rightarrow> byte list" where
  "be32 v = [ucast (drop_bit 24 v), ucast (drop_bit 16 v), ucast (drop_bit 8 v), ucast v]"

section \<open>The interface of a fixed-width field\<close>

locale be_codec =
  fixes enc :: "'w \<Rightarrow> byte list"
    and dec :: "byte list \<Rightarrow> nat \<Rightarrow> 'w result"
    and width :: nat
  assumes enc_length: "length (enc v) = width"
    and dec_enc: "dec (enc v) 0 = Inr v"
    and enc_dec: "length bs = width \<Longrightarrow> dec bs 0 = Inr v \<Longrightarrow> enc v = bs"
    and dec_local: "off + width \<le> length bs \<Longrightarrow> dec bs off = dec (take width (drop off bs)) 0"
    and dec_in_bounds: "off + width \<le> length bs \<Longrightarrow> \<exists>v. dec bs off = Inr v"
    and dec_out_of_bounds: "length bs < off + width \<Longrightarrow> dec bs off = Inl OutOfBounds"
begin

lemma dec_bounds_iff: "(\<exists>v. dec bs off = Inr v) \<longleftrightarrow> off + width \<le> length bs"
  using dec_in_bounds dec_out_of_bounds by (metis Inl_Inr_False not_le_imp_less)

lemma dec_okD: "dec bs off = Inr v \<Longrightarrow> off + width \<le> length bs"
  using dec_bounds_iff by blast

lemma dec_append:
  assumes "off = length pre" shows "dec (pre @ enc v @ post) off = Inr v"
  using assms dec_local [of off "pre @ enc v @ post"] by (simp add: enc_length dec_enc)

lemma dec_slice:
  assumes "dec bs off = Inr v" shows "take width (drop off bs) = enc v"
proof -
  have le: "off + width \<le> length bs" using assms by (rule dec_okD)
  have "dec (take width (drop off bs)) 0 = Inr v"
    using dec_local [OF le] assms by simp
  moreover have "length (take width (drop off bs)) = width" using le by simp
  ultimately show ?thesis by (rule enc_dec [symmetric, rotated])
qed

lemma enc_inj: "enc v = enc w \<Longrightarrow> v = w"
  by (metis dec_enc Inr_inject)

lemma dec_prefix:
  assumes "off + width \<le> length bs" shows "dec (bs @ cs) off = dec bs off"
  using assms by (subst (1 2) dec_local) auto

end

lemma be16_length [simp]: "length (be16 v) = 2"
  by (simp add: be16_def)

lemma be32_length [simp]: "length (be32 v) = 4"
  by (simp add: be32_def)

lemma u16_join: "push_bit 8 (ucast (ucast (drop_bit 8 v) :: byte)) OR ucast (ucast v :: byte) = (v :: u16)"
  by (rule bit_word_eqI) (auto simp: bit_simps)

lemma u16_hi: "ucast (drop_bit 8 (push_bit 8 (ucast a) OR ucast b :: u16)) = (a :: byte)" for b :: byte
  by (rule bit_word_eqI) (auto simp: bit_simps dest: bit_imp_le_length)

lemma u16_lo: "ucast (push_bit 8 (ucast a) OR ucast b :: u16) = (b :: byte)" for a :: byte
  by (rule bit_word_eqI) (auto simp: bit_simps)

lemma u32_join:
  "push_bit 24 (ucast (ucast (drop_bit 24 v) :: byte)) OR push_bit 16 (ucast (ucast (drop_bit 16 v) :: byte)) OR
   push_bit 8 (ucast (ucast (drop_bit 8 v) :: byte)) OR ucast (ucast v :: byte) = (v :: u32)"
proof (rule bit_word_eqI)
  fix n assume "n < LENGTH(32)"
  then have "24 \<le> n \<or> (16 \<le> n \<and> n < 24) \<or> (8 \<le> n \<and> n < 16) \<or> n < 8" by auto
  with \<open>n < LENGTH(32)\<close>
  show "bit (push_bit 24 (ucast (ucast (drop_bit 24 v) :: byte) :: u32) OR push_bit 16 (ucast (ucast (drop_bit 16 v) :: byte)) OR
     push_bit 8 (ucast (ucast (drop_bit 8 v) :: byte)) OR ucast (ucast v :: byte)) n = bit v n"
    by (elim disjE conjE) (auto simp: bit_simps)
qed

lemma u32_parts:
  fixes a b c d :: byte
  defines "w \<equiv> push_bit 24 (ucast a) OR push_bit 16 (ucast b) OR push_bit 8 (ucast c) OR ucast d :: u32"
  shows "ucast (drop_bit 24 w) = a" "ucast (drop_bit 16 w) = b" "ucast (drop_bit 8 w) = c" "ucast w = d"
  unfolding w_def by (rule bit_word_eqI; force simp: bit_simps dest: bit_imp_le_length)+

interpretation u16: be_codec be16 read_u16_be 2
proof unfold_locales
  fix bs :: "byte list" and v
  assume "length bs = 2" "read_u16_be bs 0 = Inr v"
  then obtain a b where "bs = [a, b]" "v = push_bit 8 (ucast a) OR ucast b"
    by (auto simp: length_Suc_conv numeral_2_eq_2 read_u16_be_def)
  then show "be16 v = bs"
    by (simp only: be16_def u16_hi u16_lo)
qed (auto simp: read_u16_be_def be16_def u16_join)

interpretation u32: be_codec be32 read_u32_be 4
proof unfold_locales
  fix bs :: "byte list" and v
  assume "length bs = 4" "read_u32_be bs 0 = Inr v"
  then obtain a b c d where "bs = [a, b, c, d]"
    "v = push_bit 24 (ucast a) OR push_bit 16 (ucast b) OR push_bit 8 (ucast c) OR ucast d"
    by (auto simp: length_Suc_conv eval_nat_numeral read_u32_be_def)
  then show "be32 v = bs"
    by (simp only: be32_def u32_parts)
next
  fix v show "read_u32_be (be32 v) 0 = Inr v"
    by (simp add: read_u32_be_def be32_def u32_join)
qed (auto simp: read_u32_be_def be32_def)

lemma write_then_read_u16:
  "write_u16_be buf off v = Inr buf' \<Longrightarrow> read_u16_be buf' off = Inr v"
  by (auto simp: write_u16_be_def read_u16_be_def u16_join split: if_splits)

lemma write_u16_keeps_length: "write_u16_be buf off v = Inr buf' \<Longrightarrow> length buf' = length buf"
  by (auto simp: write_u16_be_def split: if_splits)

end
