(* ===== verification/Dns_Types.thy ===== *)
theory Dns_Types
  imports Bytes
begin

text \<open>
  The data of the DNS layer (\<^verbatim>\<open>src/dns/types.h\<close>, \<^verbatim>\<open>include/record_kind.h\<close>,
  \<^verbatim>\<open>src/dns/util.hpp\<close>). A field the code reads off the wire is a word, also where the enum of
  the same name lists only some of its values; \<open>record_type_val\<close> is the cast of an enumerator to
  its underlying type.
\<close>

abbreviation (input) HEADER_SIZE :: nat where "HEADER_SIZE \<equiv> 12"

datatype record_type =
    Type_A | Type_NS | Type_CNAME | Type_SOA | Type_MX | Type_TXT | Type_AAAA | Type_OPT
  | Type_PTR | Type_SRV | Type_ANY

fun record_type_val :: "record_type \<Rightarrow> u16" where
  "record_type_val Type_A = 1"
| "record_type_val Type_NS = 2"
| "record_type_val Type_CNAME = 5"
| "record_type_val Type_SOA = 6"
| "record_type_val Type_MX = 15"
| "record_type_val Type_TXT = 16"
| "record_type_val Type_AAAA = 28"
| "record_type_val Type_OPT = 41"
| "record_type_val Type_PTR = 12"
| "record_type_val Type_SRV = 33"
| "record_type_val Type_ANY = 255"

datatype record_class = Class_IN | Class_ANY

fun record_class_val :: "record_class \<Rightarrow> u16" where
  "record_class_val Class_IN = 1"
| "record_class_val Class_ANY = 255"

datatype record_kind = Kind_A | Kind_AAAA | Kind_TXT

fun type_to_record_type :: "record_kind \<Rightarrow> record_type" where
  "type_to_record_type Kind_A = Type_A"
| "type_to_record_type Kind_AAAA = Type_AAAA"
| "type_to_record_type Kind_TXT = Type_TXT"

text \<open>\<^verbatim>\<open>Rcode\<close> is an enum over \<^verbatim>\<open>std::uint8_t\<close>; the parser casts arbitrary bytes to it.\<close>

type_synonym rcode = byte

abbreviation (input) NOERROR :: rcode where "NOERROR \<equiv> 0"
abbreviation (input) FORMERR :: rcode where "FORMERR \<equiv> 1"
abbreviation (input) SERVFAIL :: rcode where "SERVFAIL \<equiv> 2"
abbreviation (input) NXDOMAIN :: rcode where "NXDOMAIN \<equiv> 3"
abbreviation (input) NOTIMP :: rcode where "NOTIMP \<equiv> 4"
abbreviation (input) REFUSED :: rcode where "REFUSED \<equiv> 5"

record question =
  qname :: string
  qtype :: u16
  qclass :: u16

record resource_record =
  rr_name :: string
  rr_type :: u16
  rr_qclass :: u16
  rr_ttl :: u32
  rr_rdata :: "byte list"
  rr_rdata_offset :: nat

record edns_option =
  opt_code :: u16
  opt_data :: "byte list"

record edns_info =
  edns_udp_payload_size :: u16
  edns_extended_rcode :: byte
  edns_version :: byte
  edns_dnssec_ok :: bool
  edns_options :: "edns_option list"

record parsed_message =
  m_id :: u16
  m_qr :: bool
  m_opcode :: byte
  m_aa :: bool
  m_tc :: bool
  m_rd :: bool
  m_ra :: bool
  m_qdcount :: u16
  m_ancount :: u16
  m_nscount :: u16
  m_arcount :: u16
  m_questions :: "question list"
  m_answers :: "resource_record list"
  m_authorities :: "resource_record list"
  m_additionals :: "resource_record list"
  m_edns :: "edns_info option"
  m_rcode :: rcode

record parsed_response =
  resp_rcode :: rcode
  resp_answers :: "resource_record list"

record formatted_response =
  fmt_rcode :: rcode
  fmt_records :: "string list"

lemma record_type_val_inj: "record_type_val s = record_type_val t \<longleftrightarrow> s = t"
  by (cases s; cases t) simp_all

lemma type_to_record_type_inj: "type_to_record_type k = type_to_record_type l \<longleftrightarrow> k = l"
  by (cases k; cases l) simp_all

end
