(* ===== verification/Wire_Builder.thy ===== *)
theory Wire_Builder
  imports Dns_Types
begin

text \<open>
  The packet builder (\<^verbatim>\<open>src/dns/wire/builder.cpp\<close>, \<^verbatim>\<open>query_util.h\<close>). \<open>WireWriter\<close> is a buffer
  that is only appended to: each of its methods takes the buffer and returns it extended. The loop
  of \<open>encode_name\<close> walks the name by position; its model recurses on the text from that
  position on, which is all the loop reads. \<^verbatim>\<open>Utils::Random::engine()\<close> is an argument, the
  number the engine draws.
\<close>

section \<open>WireWriter\<close>

definition write_uint16 :: "byte list \<Rightarrow> u16 \<Rightarrow> byte list" where
  "write_uint16 buf v = buf @ [ucast (drop_bit 8 v), ucast (v AND 0xFF)]"

definition write_uint32 :: "byte list \<Rightarrow> u32 \<Rightarrow> byte list" where
  "write_uint32 buf v =
     buf @ [ucast (drop_bit 24 v), ucast (drop_bit 16 v), ucast (drop_bit 8 v), ucast (v AND 0xFF)]"

definition write_bytes :: "byte list \<Rightarrow> byte list \<Rightarrow> byte list" where
  "write_bytes buf bytes = buf @ bytes"

function encode_labels :: "byte list \<Rightarrow> string \<Rightarrow> byte list result" where
  "encode_labels buf rest =
     (if rest = [] then Inr (buf @ [0])
      else
        let dot = (case find_elem (CHR ''.'') rest of None \<Rightarrow> length rest | Some d \<Rightarrow> d);
            label_len = (of_nat dot :: byte)
        in if label_len > 63 then Inl DnsPacketException
           else encode_labels (buf @ [label_len] @ map byte_of_char (take (unat label_len) rest))
                              (drop (dot + 1) rest))"
  by pat_completeness auto
termination by (relation "measure (\<lambda>(buf, rest). length rest)") auto

declare encode_labels.simps [simp del]

definition encode_name :: "byte list \<Rightarrow> string \<Rightarrow> byte list result" where
  "encode_name buf name =
     (if name = [] \<or> name = ''.'' then Inr (buf @ [0])
      else
        let trailing_dot = (last name = CHR ''.'');
            encoded_size = length name + (if trailing_dot then 1 else 2)
        in if encoded_size > 255 then Inl DnsPacketException
           else encode_labels buf name)"

section \<open>Header flags\<close>

definition FLAG_QR :: u16 where "FLAG_QR = 0x8000"
definition FLAG_AA :: u16 where "FLAG_AA = 0x0400"
definition FLAG_TC :: u16 where "FLAG_TC = 0x0200"
definition FLAG_RD :: u16 where "FLAG_RD = 0x0100"
definition FLAG_RA :: u16 where "FLAG_RA = 0x0080"
definition OPT_RR_TYPE :: u16 where "OPT_RR_TYPE = 41"

lemmas flag_defs = FLAG_QR_def FLAG_AA_def FLAG_TC_def FLAG_RD_def FLAG_RA_def

definition build_flags :: "bool \<Rightarrow> byte \<Rightarrow> bool \<Rightarrow> bool \<Rightarrow> bool \<Rightarrow> bool \<Rightarrow> byte \<Rightarrow> u16" where
  "build_flags qr opcode aa tc rd ra rcode =
     (if qr then FLAG_QR else 0) OR push_bit 11 (ucast (opcode AND 0x0F)) OR
     (if aa then FLAG_AA else 0) OR (if tc then FLAG_TC else 0) OR (if rd then FLAG_RD else 0) OR
     (if ra then FLAG_RA else 0) OR ucast (rcode AND 0x0F)"

section \<open>QueryBuilder\<close>

record edns_config =
  ec_udp_payload_size :: u16
  ec_version :: byte
  ec_dnssec_ok :: bool
  ec_options :: "edns_option list"

record pending_question =
  pq_qname :: string
  pq_qtype :: record_type
  pq_qclass :: u16

record query_builder =
  qb_id :: u16
  qb_qr :: bool
  qb_opcode :: byte
  qb_aa :: bool
  qb_tc :: bool
  qb_rd :: bool
  qb_ra :: bool
  qb_rcode :: rcode
  qb_questions :: "pending_question list"
  qb_edns :: "edns_config option"

definition QueryBuilder :: "u32 \<Rightarrow> query_builder" where
  "QueryBuilder eng = \<lparr>qb_id = ucast (eng AND 0xFFFF), qb_qr = False, qb_opcode = 0, qb_aa = False, qb_tc = False,
     qb_rd = True, qb_ra = False, qb_rcode = NOERROR, qb_questions = [], qb_edns = None\<rparr>"

definition set_id :: "u16 \<Rightarrow> query_builder \<Rightarrow> query_builder" where
  "set_id v b = b\<lparr>qb_id := v\<rparr>"

definition set_qr :: "bool \<Rightarrow> query_builder \<Rightarrow> query_builder" where
  "set_qr v b = b\<lparr>qb_qr := v\<rparr>"

definition set_opcode :: "byte \<Rightarrow> query_builder \<Rightarrow> query_builder" where
  "set_opcode v b = b\<lparr>qb_opcode := v\<rparr>"

definition set_aa :: "bool \<Rightarrow> query_builder \<Rightarrow> query_builder" where
  "set_aa v b = b\<lparr>qb_aa := v\<rparr>"

definition set_tc :: "bool \<Rightarrow> query_builder \<Rightarrow> query_builder" where
  "set_tc v b = b\<lparr>qb_tc := v\<rparr>"

definition set_rd :: "bool \<Rightarrow> query_builder \<Rightarrow> query_builder" where
  "set_rd v b = b\<lparr>qb_rd := v\<rparr>"

definition set_ra :: "bool \<Rightarrow> query_builder \<Rightarrow> query_builder" where
  "set_ra v b = b\<lparr>qb_ra := v\<rparr>"

definition set_rcode :: "rcode \<Rightarrow> query_builder \<Rightarrow> query_builder" where
  "set_rcode v b = b\<lparr>qb_rcode := v\<rparr>"

definition add_question :: "string \<Rightarrow> record_type \<Rightarrow> record_class \<Rightarrow> query_builder \<Rightarrow> query_builder" where
  "add_question qn qt qc b =
     b\<lparr>qb_questions := qb_questions b @ [\<lparr>pq_qname = qn, pq_qtype = qt, pq_qclass = record_class_val qc\<rparr>]\<rparr>"

definition add_question_raw_qclass :: "string \<Rightarrow> record_type \<Rightarrow> u16 \<Rightarrow> query_builder \<Rightarrow> query_builder" where
  "add_question_raw_qclass qn qt raw_qclass b =
     b\<lparr>qb_questions := qb_questions b @ [\<lparr>pq_qname = qn, pq_qtype = qt, pq_qclass = raw_qclass\<rparr>]\<rparr>"

definition add_edns :: "u16 \<Rightarrow> byte \<Rightarrow> bool \<Rightarrow> edns_option list \<Rightarrow> query_builder \<Rightarrow> query_builder" where
  "add_edns udp_payload_size version dnssec_ok options b =
     b\<lparr>qb_edns := Some \<lparr>ec_udp_payload_size = udp_payload_size, ec_version = version,
                      ec_dnssec_ok = dnssec_ok, ec_options = options\<rparr>\<rparr>"

fun write_questions :: "byte list \<Rightarrow> pending_question list \<Rightarrow> byte list result" where
  "write_questions buf [] = Inr buf"
| "write_questions buf (q # qs) =
     bindE (encode_name buf (pq_qname q)) (\<lambda>buf.
       write_questions (write_uint16 (write_uint16 buf (record_type_val (pq_qtype q))) (pq_qclass q)) qs)"

fun options_rdlength :: "u16 \<Rightarrow> edns_option list \<Rightarrow> u16" where
  "options_rdlength rdlength [] = rdlength"
| "options_rdlength rdlength (opt # opts) =
     options_rdlength (rdlength + of_nat (4 + length (opt_data opt))) opts"

fun write_options :: "byte list \<Rightarrow> edns_option list \<Rightarrow> byte list" where
  "write_options buf [] = buf"
| "write_options buf (opt # opts) =
     write_options
       (write_bytes (write_uint16 (write_uint16 buf (opt_code opt)) (of_nat (length (opt_data opt))))
          (opt_data opt)) opts"

definition edns_ttl :: "edns_config \<Rightarrow> u32" where
  "edns_ttl e = push_bit 16 (ucast (ec_version e)) OR (if ec_dnssec_ok e then 0x8000 else 0)"

definition write_edns :: "byte list \<Rightarrow> edns_config \<Rightarrow> byte list result" where
  "write_edns buf e =
     (if ec_version e \<noteq> 0 then Inl DnsPacketException
      else if ec_udp_payload_size e < 512 then Inl DnsPacketException
      else bindE (encode_name buf '''') (\<lambda>buf.
        let buf = write_uint16 buf OPT_RR_TYPE;
            buf = write_uint16 buf (ec_udp_payload_size e);
            buf = write_uint32 buf (edns_ttl e);
            buf = write_uint16 buf (options_rdlength 0 (ec_options e))
        in Inr (write_options buf (ec_options e))))"

definition build :: "query_builder \<Rightarrow> byte list result" where
  "build b =
     (if qb_questions b = [] then Inl DnsPacketException
      else
        let qdcount = of_nat (length (qb_questions b)) :: u16;
            arcount = (case qb_edns b of Some _ \<Rightarrow> 1 | None \<Rightarrow> 0) :: u16;
            buf = write_uint16 [] (qb_id b);
            buf = write_uint16 buf (build_flags (qb_qr b) (qb_opcode b) (qb_aa b) (qb_tc b) (qb_rd b) (qb_ra b) (qb_rcode b));
            buf = write_uint16 buf qdcount;
            buf = write_uint16 buf 0;
            buf = write_uint16 buf 0;
            buf = write_uint16 buf arcount
        in bindE (write_questions buf (qb_questions b)) (\<lambda>buf.
             case qb_edns b of None \<Rightarrow> Inr buf | Some e \<Rightarrow> write_edns buf e))"

definition build_query :: "u32 \<Rightarrow> string \<Rightarrow> record_type \<Rightarrow> byte list result" where
  "build_query eng host type =
     build (add_edns 1232 0 False [] (add_question host type Class_IN (QueryBuilder eng)))"

section \<open>Names as label sequences\<close>

text \<open>
  The reference for \<open>encode_name\<close>: the labels of a name are its parts between dots, a final dot
  ending the last one, and each is written as a length byte and its characters.
\<close>

fun split_dots :: "string \<Rightarrow> string list" where
  "split_dots [] = [[]]"
| "split_dots (c # cs) =
     (if c = CHR ''.'' then [] # split_dots cs
      else (case split_dots cs of [] \<Rightarrow> [[c]] | l # ls \<Rightarrow> (c # l) # ls))"

fun dot_join :: "string list \<Rightarrow> string" where
  "dot_join [] = []"
| "dot_join [l] = l"
| "dot_join (l # m # ls) = l @ ''.'' @ dot_join (m # ls)"

definition labels_of :: "string \<Rightarrow> string list" where
  "labels_of s = (if s = [] then [] else split_dots (if last s = CHR ''.'' then butlast s else s))"

definition name_labels :: "string \<Rightarrow> string list" where
  "name_labels name = (if name = ''.'' then [] else labels_of name)"

definition wire_label :: "string \<Rightarrow> byte list" where
  "wire_label l = of_nat (length l) # map byte_of_char l"

definition wire_labels :: "string list \<Rightarrow> byte list" where
  "wire_labels ls = concat (map wire_label ls) @ [0]"

definition encoded_size :: "string \<Rightarrow> nat" where
  "encoded_size name = length name + (if name \<noteq> [] \<and> last name = CHR ''.'' then 1 else 2)"

definition encodable :: "string \<Rightarrow> bool" where
  "encodable name = (name = [] \<or> name = ''.'' \<or>
     encoded_size name \<le> 255 \<and> (\<forall>l\<in>set (name_labels name). length l \<le> 63))"

text \<open>The reference for the packet: header, questions and OPT record as concatenated fields.\<close>

definition wire_question :: "pending_question \<Rightarrow> byte list" where
  "wire_question q = wire_labels (name_labels (pq_qname q)) @ be16 (record_type_val (pq_qtype q)) @ be16 (pq_qclass q)"

definition wire_option :: "edns_option \<Rightarrow> byte list" where
  "wire_option opt = be16 (opt_code opt) @ be16 (of_nat (length (opt_data opt))) @ opt_data opt"

definition wire_options :: "edns_option list \<Rightarrow> byte list" where
  "wire_options opts = concat (map wire_option opts)"

definition wire_edns :: "edns_config \<Rightarrow> byte list" where
  "wire_edns e = [0] @ be16 OPT_RR_TYPE @ be16 (ec_udp_payload_size e) @ be32 (edns_ttl e) @
     be16 (of_nat (length (wire_options (ec_options e)))) @ wire_options (ec_options e)"

definition wire_header :: "query_builder \<Rightarrow> byte list" where
  "wire_header b = be16 (qb_id b) @
     be16 (build_flags (qb_qr b) (qb_opcode b) (qb_aa b) (qb_tc b) (qb_rd b) (qb_ra b) (qb_rcode b)) @
     be16 (of_nat (length (qb_questions b))) @ be16 0 @ be16 0 @
     be16 (case qb_edns b of Some _ \<Rightarrow> 1 | None \<Rightarrow> 0)"

definition edns_acceptable :: "edns_config \<Rightarrow> bool" where
  "edns_acceptable e = (ec_version e = 0 \<and> 512 \<le> ec_udp_payload_size e)"

definition buildable :: "query_builder \<Rightarrow> bool" where
  "buildable b = (qb_questions b \<noteq> [] \<and> (\<forall>q\<in>set (qb_questions b). encodable (pq_qname q)) \<and>
     (case qb_edns b of None \<Rightarrow> True | Some e \<Rightarrow> edns_acceptable e))"

definition wire_packet :: "query_builder \<Rightarrow> byte list" where
  "wire_packet b = wire_header b @ concat (map wire_question (qb_questions b)) @
     (case qb_edns b of None \<Rightarrow> [] | Some e \<Rightarrow> wire_edns e)"

lemma split_dots_not_Nil [simp]: "split_dots s \<noteq> []"
  by (cases s) (auto split: list.splits)

lemma split_dots_no_dot: "CHR ''.'' \<notin> set s \<Longrightarrow> split_dots s = [s]"
  by (induction s) auto

lemma split_dots_append: "CHR ''.'' \<notin> set p \<Longrightarrow> split_dots (p @ CHR ''.'' # r) = p # split_dots r"
  by (induction p) auto

lemma split_dots_labels: "l \<in> set (split_dots s) \<Longrightarrow> CHR ''.'' \<notin> set l"
  by (induction s arbitrary: l) (auto split: if_splits list.splits)

lemma dot_join_split [simp]: "dot_join (split_dots s) = s"
proof (induction s)
  case (Cons c cs)
  then show ?case
    by (cases "split_dots cs" rule: dot_join.cases) (auto split: list.splits)
qed simp

lemma split_dots_join: "ls \<noteq> [] \<Longrightarrow> \<forall>l\<in>set ls. CHR ''.'' \<notin> set l \<Longrightarrow> split_dots (dot_join ls) = ls"
  by (induction ls rule: dot_join.induct) (auto simp: split_dots_no_dot split_dots_append)

lemma labels_of_Nil [simp]: "labels_of [] = []"
  by (simp add: labels_of_def)

lemma labels_of_no_dot: "s \<noteq> [] \<Longrightarrow> CHR ''.'' \<notin> set s \<Longrightarrow> labels_of s = [s]"
  using last_in_set by (fastforce simp: labels_of_def split_dots_no_dot)

lemma labels_of_dot: "CHR ''.'' \<notin> set p \<Longrightarrow> labels_of (p @ CHR ''.'' # r) = p # labels_of r"
  by (auto simp: labels_of_def split_dots_no_dot split_dots_append butlast_append)

section \<open>The writer appends\<close>

lemma byte_mask_0xFF: "(0xFF :: u16) = mask 8" "(0xFF :: u32) = mask 8"
  by (simp_all add: mask_eq_exp_minus_1)

lemma mask_byte: "ucast (v AND 0xFF :: u16) = (ucast v :: byte)" "ucast (w AND 0xFF :: u32) = (ucast w :: byte)"
  unfolding byte_mask_0xFF by (rule bit_word_eqI; auto simp: bit_simps)+

lemma write_uint16_be16 [wire_simps]: "write_uint16 buf v = buf @ be16 v"
  by (simp add: write_uint16_def be16_def mask_byte)

lemma write_uint32_be32 [wire_simps]: "write_uint32 buf v = buf @ be32 v"
  by (simp add: write_uint32_def be32_def mask_byte)

lemma byte_of_nat_gt63: "n < 256 \<Longrightarrow> (63 < (of_nat n :: byte)) \<longleftrightarrow> 63 < n"
  by (simp add: word_less_nat_alt unat_of_nat)

lemma unat_byte_of_nat [simp]: "n < 256 \<Longrightarrow> unat (of_nat n :: byte) = n"
  by (simp add: unat_of_nat)

lemma wire_labels_Cons: "wire_labels (l # ls) = wire_label l @ wire_labels ls"
  by (simp add: wire_labels_def)

lemma encode_labels_spec:
  "length s < 256 \<Longrightarrow> encode_labels buf s =
     (if \<forall>l\<in>set (labels_of s). length l \<le> 63 then Inr (buf @ wire_labels (labels_of s))
      else Inl DnsPacketException)"
proof (induction buf s rule: encode_labels.induct)
  case (1 buf s)
  show ?case
  proof (cases "s = []")
    case True
    then show ?thesis by (simp add: encode_labels.simps wire_labels_def)
  next
    case False
    show ?thesis
    proof (cases "find_elem (CHR ''.'') s")
      case None
      then have nd: "CHR ''.'' \<notin> set s" by (simp add: find_elem_None_iff)
      with False 1 None show ?thesis
        by (subst encode_labels.simps)
           (auto simp: labels_of_no_dot byte_of_nat_gt63 encode_labels.simps [of _ "[]"] wire_labels_def wire_label_def)
    next
      case (Some d)
      obtain p r where s: "s = p @ CHR ''.'' # r" "d = length p" "CHR ''.'' \<notin> set p"
        using find_elem_SomeD [OF Some] id_take_nth_drop [of d s] by (metis length_take min.absorb4)
      have "\<not> 63 < length p \<Longrightarrow> encode_labels (buf @ of_nat (length p) # map byte_of_char p) r =
          (if \<forall>l\<in>set (labels_of r). length l \<le> 63
           then Inr ((buf @ of_nat (length p) # map byte_of_char p) @ wire_labels (labels_of r))
           else Inl DnsPacketException)"
        using 1(1) [OF False refl refl] 1(2) s Some by (simp add: byte_of_nat_gt63)
      with s 1(2) show ?thesis
        by (subst encode_labels.simps)
           (simp add: labels_of_dot byte_of_nat_gt63 wire_labels_Cons wire_label_def Let_def)
    qed
  qed
qed

text \<open>The whole of \<open>encode_name\<close>, every branch.\<close>

lemma encode_name_spec:
  "encode_name buf name =
     (if encodable name then Inr (buf @ wire_labels (name_labels name)) else Inl DnsPacketException)"
  by (auto simp: encode_name_def encoded_size_def encodable_def name_labels_def encode_labels_spec wire_labels_def)

lemma name_labels_root [simp]: "name_labels [] = []" "name_labels ''.'' = []"
  by (simp_all add: name_labels_def)

lemma encodable_root [simp]: "encodable []" "encodable ''.''"
  by (simp_all add: encodable_def)

lemma wire_labels_Nil [simp]: "wire_labels [] = [0]"
  by (simp add: wire_labels_def)

lemma write_questions_spec:
  "write_questions buf qs =
     (if \<forall>q\<in>set qs. encodable (pq_qname q) then Inr (buf @ concat (map wire_question qs))
      else Inl DnsPacketException)"
  by (induction qs arbitrary: buf) (auto simp: encode_name_spec wire_question_def wire_simps)

lemma wire_option_length [simp]: "length (wire_option opt) = 4 + length (opt_data opt)"
  by (simp add: wire_option_def)

lemma write_options_spec: "write_options buf opts = buf @ wire_options opts"
  by (induction opts arbitrary: buf)
     (auto simp: wire_options_def wire_option_def wire_simps write_bytes_def)

lemma options_rdlength_spec: "options_rdlength r opts = r + of_nat (length (wire_options opts))"
  by (induction opts arbitrary: r) (auto simp: wire_options_def algebra_simps)

lemma write_edns_spec:
  "write_edns buf e = (if edns_acceptable e then Inr (buf @ wire_edns e) else Inl DnsPacketException)"
  by (auto simp: write_edns_def edns_acceptable_def encode_name_spec wire_edns_def wire_simps
      write_options_spec options_rdlength_spec Let_def)

lemma build_spec: "build b = (if buildable b then Inr (wire_packet b) else Inl DnsPacketException)"
  by (auto simp: build_def buildable_def wire_packet_def wire_header_def Let_def wire_simps
      write_questions_spec write_edns_spec split: option.splits)

lemma build_length: "build b = Inr p \<Longrightarrow> 12 \<le> length p"
  by (auto simp: build_spec wire_packet_def wire_header_def split: if_splits)

lemma wire_labels_split_dots: "length (wire_labels (split_dots s)) = length s + 2"
  by (induction s) (auto simp: wire_labels_def wire_label_def split: list.splits)

lemma wire_name_length: "encodable name \<Longrightarrow> length (wire_labels (name_labels name)) \<le> 255"
  by (auto simp: encodable_def encoded_size_def name_labels_def labels_of_def wire_labels_split_dots split: if_splits)

end
