(* ===== verification/Inet_Address.thy ===== *)
theory Inet_Address
  imports Bytes
begin

text \<open>
  IP addresses (\<^verbatim>\<open>src/network/inet_address.{h,cpp}\<close>, \<^verbatim>\<open>include/address_family.h\<close>). The functions
  \<^verbatim>\<open>inet_pton\<close> and \<^verbatim>\<open>inet_ntop\<close> of the C library are the fields of an \<open>inet_lib\<close> argument:
  \<open>None\<close> is a result other than 1, respectively a null pointer. They see a C string, so the text
  up to the first NUL.
\<close>

datatype address_family = UNSPECIFIED | IPV4 | IPV6

record inet_lib =
  inet_pton4 :: "string \<Rightarrow> byte list option"
  inet_pton6 :: "string \<Rightarrow> byte list option"
  inet_ntop4 :: "byte list \<Rightarrow> string option"
  inet_ntop6 :: "byte list \<Rightarrow> string option"

definition c_str :: "string \<Rightarrow> string" where
  "c_str s = takeWhile (\<lambda>c. c \<noteq> CHR 0x00) s"

record inet4_address =
  v4_addr :: "byte list"

record inet6_address =
  v6_addr :: "byte list"
  v6_scope_id :: u32

datatype inet_address = V4 inet4_address | V6 inet6_address

section \<open>Inet4Address\<close>

definition inet4_parse :: "inet_lib \<Rightarrow> string \<Rightarrow> inet4_address option" where
  "inet4_parse lib addr =
     (if addr = [] then None
      else map_option (\<lambda>bs. \<lparr>v4_addr = bs\<rparr>) (inet_pton4 lib (c_str addr)))"

definition inet4_from_bytes :: "byte list \<Rightarrow> inet4_address" where
  "inet4_from_bytes bytes = \<lparr>v4_addr = bytes\<rparr>"

definition inet4_to_string :: "inet_lib \<Rightarrow> inet4_address \<Rightarrow> string" where
  "inet4_to_string lib a = (case inet_ntop4 lib (v4_addr a) of None \<Rightarrow> ''<invalid>'' | Some s \<Rightarrow> s)"

definition v4_is_loopback :: "inet4_address \<Rightarrow> bool" where
  "v4_is_loopback a = (v4_addr a ! 0 = 127)"

definition v4_is_multicast :: "inet4_address \<Rightarrow> bool" where
  "v4_is_multicast a = (v4_addr a ! 0 AND 0xf0 = 0xe0)"

definition v4_is_unspecified :: "inet4_address \<Rightarrow> bool" where
  "v4_is_unspecified a = (v4_addr a = replicate 4 0)"

section \<open>Inet6Address\<close>

definition parse_scope :: "string \<Rightarrow> u32" where
  "parse_scope scope_str =
     (if scope_str = [] then 0
      else case from_chars_nat (2 ^ 64) scope_str of
        Some (val, []) \<Rightarrow> of_nat val
      | _ \<Rightarrow> 0)"

definition inet6_parse :: "inet_lib \<Rightarrow> string \<Rightarrow> inet6_address option" where
  "inet6_parse lib addr =
     (if addr = [] then None
      else
        let (s, scope_id) =
              (case find_elem (CHR ''%'') addr of
                 None \<Rightarrow> (addr, 0)
               | Some pct \<Rightarrow> (take pct addr, parse_scope (drop (pct + 1) addr)))
        in map_option (\<lambda>bs. \<lparr>v6_addr = bs, v6_scope_id = scope_id\<rparr>) (inet_pton6 lib (c_str s)))"

definition inet6_from_bytes :: "byte list \<Rightarrow> inet6_address" where
  "inet6_from_bytes bytes = \<lparr>v6_addr = bytes, v6_scope_id = 0\<rparr>"

definition inet6_to_string :: "inet_lib \<Rightarrow> inet6_address \<Rightarrow> string" where
  "inet6_to_string lib a =
     (case inet_ntop6 lib (v6_addr a) of
        None \<Rightarrow> ''<invalid>''
      | Some s \<Rightarrow> if v6_scope_id a > 0 then s @ ''%'' @ dec_string (unat (v6_scope_id a)) else s)"

definition v6_is_loopback :: "inet6_address \<Rightarrow> bool" where
  "v6_is_loopback a = (v6_addr a = replicate 15 0 @ [1])"

definition v6_is_multicast :: "inet6_address \<Rightarrow> bool" where
  "v6_is_multicast a = (v6_addr a ! 0 = 0xff)"

definition v6_is_unspecified :: "inet6_address \<Rightarrow> bool" where
  "v6_is_unspecified a = (v6_addr a = replicate 16 0)"

definition v6_is_link_local :: "inet6_address \<Rightarrow> bool" where
  "v6_is_link_local a = (v6_addr a ! 0 = 0xfe \<and> v6_addr a ! 1 AND 0xc0 = 0x80)"

definition v6_is_site_local :: "inet6_address \<Rightarrow> bool" where
  "v6_is_site_local a = (v6_addr a ! 0 = 0xfe \<and> v6_addr a ! 1 AND 0xc0 = 0xc0)"

definition v6_is_ula :: "inet6_address \<Rightarrow> bool" where
  "v6_is_ula a = (v6_addr a ! 0 AND 0xfe = 0xfc)"

definition set_scope_id :: "u32 \<Rightarrow> inet6_address \<Rightarrow> inet6_address" where
  "set_scope_id scope a = a\<lparr>v6_scope_id := scope\<rparr>"

section \<open>InetAddress\<close>

definition inet_parse :: "inet_lib \<Rightarrow> string \<Rightarrow> inet_address option" where
  "inet_parse lib addr =
     (if addr = [] then None
      else case inet4_parse lib addr of
        Some v4 \<Rightarrow> Some (V4 v4)
      | None \<Rightarrow> map_option V6 (inet6_parse lib addr))"

definition inet_from_bytes :: "byte list \<Rightarrow> inet_address option" where
  "inet_from_bytes bytes =
     (if length bytes = 4 then Some (V4 (inet4_from_bytes bytes))
      else if length bytes = 16 then Some (V6 (inet6_from_bytes bytes))
      else None)"

fun get_family :: "inet_address \<Rightarrow> address_family" where
  "get_family (V4 a) = IPV4"
| "get_family (V6 a) = IPV6"

fun inet_to_string :: "inet_lib \<Rightarrow> inet_address \<Rightarrow> string" where
  "inet_to_string lib (V4 a) = inet4_to_string lib a"
| "inet_to_string lib (V6 a) = inet6_to_string lib a"

fun get_address :: "inet_address \<Rightarrow> byte list" where
  "get_address (V4 a) = v4_addr a @ replicate 12 0"
| "get_address (V6 a) = v6_addr a"

fun is_loopback :: "inet_address \<Rightarrow> bool" where
  "is_loopback (V4 a) = v4_is_loopback a"
| "is_loopback (V6 a) = v6_is_loopback a"

fun is_multicast :: "inet_address \<Rightarrow> bool" where
  "is_multicast (V4 a) = v4_is_multicast a"
| "is_multicast (V6 a) = v6_is_multicast a"

fun is_unspecified :: "inet_address \<Rightarrow> bool" where
  "is_unspecified (V4 a) = v4_is_unspecified a"
| "is_unspecified (V6 a) = v6_is_unspecified a"

fun is_link_local :: "inet_address \<Rightarrow> bool" where
  "is_link_local (V4 a) = False"
| "is_link_local (V6 a) = v6_is_link_local a"

fun is_site_local :: "inet_address \<Rightarrow> bool" where
  "is_site_local (V4 a) = False"
| "is_site_local (V6 a) = v6_is_site_local a"

fun is_ula :: "inet_address \<Rightarrow> bool" where
  "is_ula (V4 a) = False"
| "is_ula (V6 a) = v6_is_ula a"

fun get_scope_id :: "inet_address \<Rightarrow> u32" where
  "get_scope_id (V4 a) = 0"
| "get_scope_id (V6 a) = v6_scope_id a"

section \<open>Printing and parsing\<close>

fun inet_wf :: "inet_address \<Rightarrow> bool" where
  "inet_wf (V4 a) \<longleftrightarrow> length (v4_addr a) = 4"
| "inet_wf (V6 a) \<longleftrightarrow> length (v6_addr a) = 16"

text \<open>What POSIX documents of the two functions: printing an address of the right length succeeds,
  prints no NUL and no percent sign, is not empty, and is what parsing reads back; the forms of the
  two families are disjoint, and a percent sign is never part of an IPv4 address.\<close>

definition inet_lib_laws :: "inet_lib \<Rightarrow> bool" where
  "inet_lib_laws lib \<longleftrightarrow>
     (\<forall>b. length b = 4 \<longrightarrow> (\<exists>s. inet_ntop4 lib b = Some s \<and> s \<noteq> [] \<and> CHR 0x00 \<notin> set s \<and> inet_pton4 lib s = Some b)) \<and>
     (\<forall>b. length b = 16 \<longrightarrow> (\<exists>s. inet_ntop6 lib b = Some s \<and> s \<noteq> [] \<and> CHR 0x00 \<notin> set s \<and> CHR ''%'' \<notin> set s \<and>
        inet_pton6 lib s = Some b \<and> inet_pton4 lib s = None)) \<and>
     (\<forall>s. CHR ''%'' \<in> set s \<longrightarrow> inet_pton4 lib s = None)"

lemma c_str_id: "CHR 0x00 \<notin> set s \<Longrightarrow> c_str s = s"
  by (simp add: c_str_def takeWhile_eq_all_conv) metis

lemma dec_string_plain: "CHR 0x00 \<notin> set (dec_string n)" "CHR ''%'' \<notin> set (dec_string n)"
  by (auto dest!: dec_string_digits simp: is_digit_def)

lemma parse_scope_dec: "parse_scope (dec_string (unat (v :: u32))) = v"
proof -
  have "unat v < 2 ^ 32" using unsigned_less [of v] by simp
  then have "unat v < 2 ^ 64" by simp
  then show ?thesis
    using from_chars_dec_string [of "unat v" "2 ^ 64" "[]"] by (simp add: parse_scope_def)
qed

lemma inet_parse_to_string:
  assumes "inet_lib_laws lib" "inet_wf a"
  shows "inet_parse lib (inet_to_string lib a) = Some a"
proof (cases a)
  case (V4 v)
  then obtain s where "inet_ntop4 lib (v4_addr v) = Some s" "s \<noteq> []" "CHR 0x00 \<notin> set s" "inet_pton4 lib s = Some (v4_addr v)"
    using assms by (auto simp: inet_lib_laws_def)
  then show ?thesis using V4 by (simp add: inet_parse_def inet4_parse_def inet4_to_string_def c_str_id)
next
  case (V6 v)
  then obtain s where s: "inet_ntop6 lib (v6_addr v) = Some s" "s \<noteq> []" "CHR 0x00 \<notin> set s" "CHR ''%'' \<notin> set s"
    "inet_pton6 lib s = Some (v6_addr v)" "inet_pton4 lib s = None"
    using assms by (auto simp: inet_lib_laws_def)
  have pct: "inet_pton4 lib (s @ ''%'' @ r) = None" for r
    using assms(1) by (simp add: inet_lib_laws_def)
  show ?thesis
  proof (cases "v6_scope_id v = 0")
    case True
    moreover have "find_elem (CHR ''%'') s = None" using s by (simp add: find_elem_None_iff)
    ultimately show ?thesis using V6 s
      by (simp add: inet_parse_def inet4_parse_def inet6_parse_def inet6_to_string_def c_str_id)
  next
    case False
    with V6 s pct show ?thesis
      by (simp add: inet_parse_def inet4_parse_def inet6_parse_def inet6_to_string_def c_str_id word_gt_0
          dec_string_plain parse_scope_dec)
  qed
qed

section \<open>Properties\<close>

text \<open>Printing an address, IPv4 or IPv6 with or without a scope id, and parsing the text gives
  the address back.\<close>

theorem inet_address_round_trip:
  assumes "inet_lib_laws lib" "inet_wf a"
  shows "inet_parse lib (inet_to_string lib a) = Some a"
  using assms by (rule inet_parse_to_string)

text \<open>A C library with those laws: one letter for the family, two for each byte.\<close>

definition letters_of_byte :: "byte \<Rightarrow> string" where
  "letters_of_byte b = [char_of (65 + unat b div 16), char_of (65 + unat b mod 16)]"

fun bytes_of_letters :: "string \<Rightarrow> byte list" where
  "bytes_of_letters (a # b # r) = of_nat ((of_char a - 65) * 16 + (of_char b - 65)) # bytes_of_letters r"
| "bytes_of_letters _ = []"

definition letters_pton :: "char \<Rightarrow> nat \<Rightarrow> string \<Rightarrow> byte list option" where
  "letters_pton tag n s =
     (if s \<noteq> [] \<and> hd s = tag \<and> length (tl s) = 2 * n \<and> CHR ''%'' \<notin> set s then Some (bytes_of_letters (tl s)) else None)"

definition letters_lib :: inet_lib where
  "letters_lib = \<lparr>inet_pton4 = letters_pton (CHR ''f'') 4, inet_pton6 = letters_pton (CHR ''s'') 16,
     inet_ntop4 = \<lambda>b. Some (CHR ''f'' # concat (map letters_of_byte b)),
     inet_ntop6 = \<lambda>b. Some (CHR ''s'' # concat (map letters_of_byte b))\<rparr>"

lemma letter_plain: "x < (16 :: nat) \<Longrightarrow> char_of (65 + x) \<noteq> CHR 0x00 \<and> char_of (65 + x) \<noteq> CHR ''%''"
  by (auto dest!: arg_cong [where f = "of_char :: char \<Rightarrow> nat"])

lemma letters_byte_check:
  "set (letters_of_byte b) \<inter> {CHR 0x00, CHR ''%''} = {} \<and> bytes_of_letters (letters_of_byte b) = [b]"
proof -
  have "unat b < 256" using unsigned_less [of b] by simp
  then have "unat b div 16 < 16" "unat b mod 16 < 16" by auto
  with letter_plain [of "unat b div 16"] letter_plain [of "unat b mod 16"] show ?thesis
    by (simp add: letters_of_byte_def)
qed

lemma letters_bytes:
  "CHR 0x00 \<notin> set (concat (map letters_of_byte bs)) \<and> CHR ''%'' \<notin> set (concat (map letters_of_byte bs)) \<and>
   length (concat (map letters_of_byte bs)) = 2 * length bs \<and> bytes_of_letters (concat (map letters_of_byte bs)) = bs"
proof (induction bs)
  case (Cons b bs)
  with letters_byte_check [of b] show ?case by (simp add: letters_of_byte_def)
qed simp

lemma letters_lib_laws: "inet_lib_laws letters_lib"
  using letters_bytes by (auto simp: inet_lib_laws_def letters_lib_def letters_pton_def)

theorem inet_address_round_trip_witness:
  "inet_parse letters_lib (inet_to_string letters_lib (V6 \<lparr>v6_addr = 0xfe # 0x80 # replicate 14 1, v6_scope_id = 3\<rparr>)) =
   Some (V6 \<lparr>v6_addr = 0xfe # 0x80 # replicate 14 1, v6_scope_id = 3\<rparr>)"
  by (intro inet_address_round_trip letters_lib_laws) simp

end
