(* ===== verification/Parser_Native.thy ===== *)
theory Parser_Native
  imports Wire_Builder Inet_Address
begin

text \<open>
  The wire-format parser (\<^verbatim>\<open>src/dns/parser/parser_native.cpp\<close>). A packet is a list of bytes and a
  position a natural number; every indexed read is written as a read with its bound, giving
  \<open>OutOfBounds\<close> outside the packet. \<open>decompress_name\<close> returns the name with the advanced
  \<^verbatim>\<open>offset\<close>. \<^verbatim>\<open>inet_ntop\<close> is an argument, a function on the four or sixteen address bytes.
\<close>

abbreviation (input) MAX_LABEL_LENGTH :: byte where "MAX_LABEL_LENGTH \<equiv> 63"
abbreviation (input) MAX_POINTER_DEPTH :: nat where "MAX_POINTER_DEPTH \<equiv> 7"
abbreviation (input) QUESTION_FIXED_SIZE :: nat where "QUESTION_FIXED_SIZE \<equiv> 4"
abbreviation (input) RR_FIXED_SIZE :: nat where "RR_FIXED_SIZE \<equiv> 10"
abbreviation (input) OPT_NAME_SIZE :: nat where "OPT_NAME_SIZE \<equiv> 1"

section \<open>Name decompression\<close>

definition is_pointer :: "byte \<Rightarrow> bool" where
  "is_pointer label_len = (label_len AND 0xC0 = 0xC0)"

definition pointer_target :: "byte \<Rightarrow> byte \<Rightarrow> nat" where
  "pointer_target hi lo = push_bit 8 (unat hi AND 0x3F) OR unat lo"

definition bytes_to_string :: "byte list \<Rightarrow> string" where
  "bytes_to_string bs = map char_of_byte bs"

function decompress_loop ::
  "byte list \<Rightarrow> nat \<Rightarrow> nat \<Rightarrow> nat list \<Rightarrow> bool \<Rightarrow> nat \<Rightarrow> string \<Rightarrow> (string \<times> nat) result" where
  "decompress_loop wire current indirections visited jumped offset res =
     (if length wire \<le> current then parse_error
      else
        let label_len = wire ! current in
        if is_pointer label_len then
          if length wire < current + 2 then parse_error
          else
            let ptr_offset = pointer_target label_len (wire ! (current + 1)) in
            if MAX_POINTER_DEPTH \<le> indirections then parse_error
            else if ptr_offset \<in> set visited then parse_error
            else if MAX_POINTER_DEPTH \<le> length visited then Inl OutOfBounds
            else decompress_loop wire ptr_offset (indirections + 1) (visited @ [ptr_offset]) True
                   (if jumped then offset else current + 2) res
        else if label_len = 0 then Inr (res, if jumped then offset else current + 1)
        else if MAX_LABEL_LENGTH < label_len then parse_error
        else
          let res = (if res = [] then res else res @ ''.'');
              start = current + 1
          in if length wire < start + unat label_len then parse_error
             else decompress_loop wire (start + unat label_len) indirections visited jumped offset
                    (res @ bytes_to_string (substr wire start (unat label_len))))"
  by pat_completeness auto
termination
  by (relation "measures [\<lambda>(w, c, i, v, j, off, r). MAX_POINTER_DEPTH - i, \<lambda>(w, c, i, v, j, off, r). length w - c]")
     auto

declare decompress_loop.simps [simp del]

definition decompress_name :: "byte list \<Rightarrow> nat \<Rightarrow> (string \<times> nat) result" where
  "decompress_name wire offset = decompress_loop wire offset 0 [] False offset []"

section \<open>RDATA formatting\<close>

text \<open>The result of \<^verbatim>\<open>inet_ntop\<close> is not checked here: a failure leaves the zeroed buffer, the empty text.\<close>

definition ntop_text :: "string option \<Rightarrow> string" where
  "ntop_text r = (case r of None \<Rightarrow> [] | Some s \<Rightarrow> s)"

definition format_a :: "inet_lib \<Rightarrow> byte list \<Rightarrow> string" where
  "format_a lib rdata = ntop_text (inet_ntop4 lib rdata)"

definition format_aaaa :: "inet_lib \<Rightarrow> byte list \<Rightarrow> string" where
  "format_aaaa lib rdata = ntop_text (inet_ntop6 lib rdata)"

function format_txt_loop :: "byte list \<Rightarrow> nat \<Rightarrow> string \<Rightarrow> string result" where
  "format_txt_loop rdata pos res =
     (if length rdata \<le> pos then Inr res
      else
        let seg_len = unat (rdata ! pos) in
        if length rdata < pos + 1 + seg_len then parse_error
        else
          let res = (if res = [] then res else res @ '' '')
          in format_txt_loop rdata (pos + 1 + seg_len)
               (res @ bytes_to_string (substr rdata (pos + 1) seg_len)))"
  by pat_completeness auto
termination by (relation "measure (\<lambda>(rdata, pos, res). length rdata - pos)") auto

declare format_txt_loop.simps [simp del]

definition format_txt :: "byte list \<Rightarrow> string result" where
  "format_txt rdata = format_txt_loop rdata 0 []"

definition format_domain_name :: "byte list \<Rightarrow> nat \<Rightarrow> string result" where
  "format_domain_name wire rdata_offset = map_sum id fst (decompress_name wire rdata_offset)"

definition format_mx :: "byte list \<Rightarrow> nat \<Rightarrow> string result" where
  "format_mx wire rdata_offset =
     bindE (read_u16_be wire rdata_offset) (\<lambda>pref.
     bindE (decompress_name wire (rdata_offset + 2)) (\<lambda>(name, _).
     Inr (dec_string (unat pref) @ '' '' @ name)))"

definition format_soa :: "byte list \<Rightarrow> nat \<Rightarrow> string result" where
  "format_soa wire rdata_offset =
     bindE (decompress_name wire rdata_offset) (\<lambda>(mname, offset).
     bindE (decompress_name wire offset) (\<lambda>(rname, offset).
     bindE (read_u32_be wire offset) (\<lambda>serial.
     bindE (read_u32_be wire (offset + 4)) (\<lambda>refresh.
     bindE (read_u32_be wire (offset + 8)) (\<lambda>retry.
     bindE (read_u32_be wire (offset + 12)) (\<lambda>expire.
     bindE (read_u32_be wire (offset + 16)) (\<lambda>minimum.
     Inr (mname @ '' '' @ rname @ '' '' @ dec_string (unat serial) @ '' '' @ dec_string (unat refresh) @
          '' '' @ dec_string (unat retry) @ '' '' @ dec_string (unat expire) @ '' '' @
          dec_string (unat minimum)))))))))"

definition format_srv :: "byte list \<Rightarrow> nat \<Rightarrow> string result" where
  "format_srv wire rdata_offset =
     bindE (read_u16_be wire rdata_offset) (\<lambda>priority.
     bindE (read_u16_be wire (rdata_offset + 2)) (\<lambda>weight.
     bindE (read_u16_be wire (rdata_offset + 4)) (\<lambda>port.
     bindE (decompress_name wire (rdata_offset + 6)) (\<lambda>(target, _).
     Inr (dec_string (unat priority) @ '' '' @ dec_string (unat weight) @ '' '' @ dec_string (unat port) @
          '' '' @ target)))))"

definition hex_digit :: "nat \<Rightarrow> char" where
  "hex_digit n = ''0123456789abcdef'' ! n"

fun hex_bytes :: "byte list \<Rightarrow> string" where
  "hex_bytes [] = []"
| "hex_bytes (b # bs) = hex_digit (unat (drop_bit 4 b AND 0x0F)) # hex_digit (unat (b AND 0x0F)) # hex_bytes bs"

definition format_generic :: "byte list \<Rightarrow> string" where
  "format_generic rdata = ''0x'' @ hex_bytes rdata"

section \<open>EDNS0\<close>

function parse_edns_options :: "byte list \<Rightarrow> nat \<Rightarrow> edns_option list \<Rightarrow> edns_option list result" where
  "parse_edns_options rdata offset opts =
     (if length rdata < offset + 4 then Inr opts
      else
        bindE (read_u16_be rdata offset) (\<lambda>code.
        bindE (read_u16_be rdata (offset + 2)) (\<lambda>len.
        let opt_len = unat len in
        if length rdata < offset + 4 + opt_len then parse_error
        else parse_edns_options rdata (offset + 4 + opt_len)
               (opts @ [\<lparr>opt_code = code, opt_data = substr rdata (offset + 4) opt_len\<rparr>]))))"
  by pat_completeness auto
termination by (relation "measure (\<lambda>(rdata, offset, opts). length rdata - offset)") auto

declare parse_edns_options.simps [simp del]

definition parse_edns :: "resource_record \<Rightarrow> edns_info option result" where
  "parse_edns rr =
     (if rr_type rr \<noteq> record_type_val Type_OPT then Inr None
      else
        bindE (parse_edns_options (rr_rdata rr) 0 []) (\<lambda>opts.
        Inr (Some \<lparr>edns_udp_payload_size = rr_qclass rr,
                   edns_extended_rcode = ucast (drop_bit 24 (rr_ttl rr AND 0xFF000000)),
                   edns_version = ucast (drop_bit 16 (rr_ttl rr AND 0x00FF0000)),
                   edns_dnssec_ok = (rr_ttl rr AND 0x00008000 \<noteq> 0),
                   edns_options = opts\<rparr>)))"

section \<open>RDATA dispatch\<close>

definition read_byte :: "byte list \<Rightarrow> nat \<Rightarrow> byte result" where
  "read_byte wire i = (if i < length wire then Inr (wire ! i) else Inl OutOfBounds)"

definition subspan :: "byte list \<Rightarrow> nat \<Rightarrow> nat \<Rightarrow> byte list result" where
  "subspan wire off len = (if off + len \<le> length wire then Inr (substr wire off len) else Inl OutOfBounds)"

definition rdata_to_string :: "inet_lib \<Rightarrow> resource_record \<Rightarrow> byte list \<Rightarrow> string result" where
  "rdata_to_string lib rr wire =
     (if rr_rdata_offset rr < 2 then Inl OutOfBounds
      else
        bindE (read_byte wire (rr_rdata_offset rr - 2)) (\<lambda>hi.
        bindE (read_byte wire (rr_rdata_offset rr - 1)) (\<lambda>lo.
        let rdlen = push_bit 8 (unat hi) OR unat lo in
        bindE (subspan wire (rr_rdata_offset rr) rdlen) (\<lambda>rdata.
        let type = rr_type rr in
        if type = record_type_val Type_A then
          (if rdlen \<noteq> 4 then parse_error else Inr (format_a lib rdata))
        else if type = record_type_val Type_AAAA then
          (if rdlen \<noteq> 16 then parse_error else Inr (format_aaaa lib rdata))
        else if type = record_type_val Type_TXT then format_txt rdata
        else if type = record_type_val Type_CNAME \<or> type = record_type_val Type_NS \<or>
                type = record_type_val Type_PTR then format_domain_name wire (rr_rdata_offset rr)
        else if type = record_type_val Type_MX then format_mx wire (rr_rdata_offset rr)
        else if type = record_type_val Type_SOA then format_soa wire (rr_rdata_offset rr)
        else if type = record_type_val Type_SRV then format_srv wire (rr_rdata_offset rr)
        else parse_error))))"

section \<open>Messages\<close>

fun parse_questions :: "byte list \<Rightarrow> nat \<Rightarrow> nat \<Rightarrow> (question list \<times> nat) result" where
  "parse_questions data 0 offset = Inr ([], offset)"
| "parse_questions data (Suc n) offset =
     bindE (decompress_name data offset) (\<lambda>(name, offset).
     if length data < offset + QUESTION_FIXED_SIZE then parse_error
     else
       bindE (read_u16_be data offset) (\<lambda>qt.
       bindE (read_u16_be data (offset + 2)) (\<lambda>qc.
       bindE (parse_questions data n (offset + QUESTION_FIXED_SIZE)) (\<lambda>(qs, offset).
       Inr (\<lparr>qname = name, qtype = qt, qclass = qc\<rparr> # qs, offset)))))"

definition parse_rr :: "byte list \<Rightarrow> bool \<Rightarrow> nat \<Rightarrow> (resource_record \<times> nat) result" where
  "parse_rr data copy_rdata offset =
     bindE (decompress_name data offset) (\<lambda>(name, offset).
     if length data < offset + RR_FIXED_SIZE then parse_error
     else
       bindE (read_u16_be data offset) (\<lambda>type.
       bindE (read_u16_be data (offset + 2)) (\<lambda>cls.
       bindE (read_u32_be data (offset + 4)) (\<lambda>ttl.
       bindE (read_u16_be data (offset + 8)) (\<lambda>len.
       let rd_length = unat len; offset = offset + RR_FIXED_SIZE in
       if length data < offset + rd_length then parse_error
       else Inr (\<lparr>rr_name = name, rr_type = type, rr_qclass = cls, rr_ttl = ttl,
                  rr_rdata = (if copy_rdata then substr data offset rd_length else []),
                  rr_rdata_offset = offset\<rparr>, offset + rd_length))))))"

fun parse_rrs :: "byte list \<Rightarrow> bool \<Rightarrow> nat \<Rightarrow> nat \<Rightarrow> (resource_record list \<times> nat) result" where
  "parse_rrs data copy_rdata 0 offset = Inr ([], offset)"
| "parse_rrs data copy_rdata (Suc n) offset =
     bindE (parse_rr data copy_rdata offset) (\<lambda>(rr, offset).
     bindE (parse_rrs data copy_rdata n offset) (\<lambda>(rrs, offset). Inr (rr # rrs, offset)))"

fun parse_additionals ::
  "byte list \<Rightarrow> bool \<Rightarrow> nat \<Rightarrow> nat \<Rightarrow> edns_info option \<Rightarrow> (resource_record list \<times> edns_info option) result" where
  "parse_additionals data copy_rdata 0 offset edns = Inr ([], edns)"
| "parse_additionals data copy_rdata (Suc n) offset edns =
     bindE (parse_rr data copy_rdata offset) (\<lambda>(rr, offset).
     bindE (if rr_type rr = record_type_val Type_OPT \<and> length (rr_name rr) = OPT_NAME_SIZE \<and> rr_qclass rr > 0
            then parse_edns rr else Inr edns) (\<lambda>edns.
     bindE (parse_additionals data copy_rdata n offset edns) (\<lambda>(rrs, edns). Inr (rr # rrs, edns))))"

definition combine_rcode :: "rcode \<Rightarrow> edns_info option \<Rightarrow> rcode" where
  "combine_rcode rc edns =
     (case edns of None \<Rightarrow> rc | Some e \<Rightarrow> ucast (ucast rc OR push_bit 4 (ucast (edns_extended_rcode e) :: u32)))"

definition parse_message :: "byte list \<Rightarrow> bool \<Rightarrow> parsed_message result" where
  "parse_message data copy_rdata =
     (if length data < HEADER_SIZE then parse_error
      else
        bindE (read_u16_be data 0) (\<lambda>id.
        let flags2 = data ! 2; flags3 = data ! 3 in
        bindE (read_u16_be data 4) (\<lambda>qdcount.
        bindE (read_u16_be data 6) (\<lambda>ancount.
        bindE (read_u16_be data 8) (\<lambda>nscount.
        bindE (read_u16_be data 10) (\<lambda>arcount.
        bindE (parse_questions data (unat qdcount) HEADER_SIZE) (\<lambda>(questions, offset).
        bindE (parse_rrs data copy_rdata (unat ancount) offset) (\<lambda>(answers, offset).
        bindE (parse_rrs data copy_rdata (unat nscount) offset) (\<lambda>(authorities, offset).
        bindE (parse_additionals data copy_rdata (unat arcount) offset None) (\<lambda>(additionals, edns).
        Inr \<lparr>m_id = id,
             m_qr = (flags2 AND 0x80 \<noteq> 0), m_opcode = (drop_bit 3 flags2 AND 0x0F),
             m_aa = (flags2 AND 0x04 \<noteq> 0), m_tc = (flags2 AND 0x02 \<noteq> 0),
             m_rd = (flags2 AND 0x01 \<noteq> 0), m_ra = (flags3 AND 0x80 \<noteq> 0),
             m_qdcount = qdcount, m_ancount = ancount, m_nscount = nscount, m_arcount = arcount,
             m_questions = questions, m_answers = answers, m_authorities = authorities,
             m_additionals = additionals, m_edns = edns,
             m_rcode = combine_rcode (flags3 AND 0x0F) edns\<rparr>))))))))))"

section \<open>RecordParser\<close>

record record_parser =
  rp_wire :: "byte list"
  rp_message :: parsed_message

definition RecordParser :: "byte list \<Rightarrow> record_parser result" where
  "RecordParser data = map_sum id (\<lambda>m. \<lparr>rp_wire = data, rp_message = m\<rparr>) (parse_message data True)"

definition record_count :: "record_parser \<Rightarrow> nat" where
  "record_count p = unat (m_ancount (rp_message p))"

definition parse_record :: "inet_lib \<Rightarrow> record_parser \<Rightarrow> nat \<Rightarrow> string result" where
  "parse_record lib p index =
     (if unat (m_ancount (rp_message p)) \<le> index then parse_error
      else if length (m_answers (rp_message p)) \<le> index then Inl OutOfBounds
      else rdata_to_string lib (m_answers (rp_message p) ! index) (rp_wire p))"

definition parse_response :: "byte list \<Rightarrow> parsed_response result" where
  "parse_response data =
     bindE (RecordParser data) (\<lambda>parser.
     let rc = m_rcode (rp_message parser) in
     Inr \<lparr>resp_rcode = rc, resp_answers = (if rc = NOERROR then m_answers (rp_message parser) else [])\<rparr>)"

fun format_answers :: "inet_lib \<Rightarrow> byte list \<Rightarrow> resource_record list \<Rightarrow> string list result" where
  "format_answers lib data [] = Inr []"
| "format_answers lib data (rr # rrs) =
     bindE (rdata_to_string lib rr data) (\<lambda>r.
     bindE (format_answers lib data rrs) (\<lambda>rs. Inr (r # rs)))"

definition parse_strings :: "inet_lib \<Rightarrow> byte list \<Rightarrow> formatted_response result" where
  "parse_strings lib data =
     bindE (parse_message data False) (\<lambda>msg.
     bindE (if m_rcode msg = NOERROR then format_answers lib data (m_answers msg) else Inr []) (\<lambda>rs.
     Inr \<lparr>fmt_rcode = m_rcode msg, fmt_records = rs\<rparr>))"

end
