(* ===== verification/Parser_Lemmas.thy ===== *)
theory Parser_Lemmas
  imports Parser_Native
begin

text \<open>
  What the parser guarantees. A compressed name is specified by the inductive relation
  \<open>name_at\<close> (RFC 1035, section 4.1.4); \<open>decompress_name\<close> decides it, with the code's limit of
  seven distinct pointers. Everything that reads a message moves its position forward and stays in
  the packet, so the only failure of \<open>parse_message\<close> is the PARSE exception, and what the
  builder writes is read back.
\<close>

section \<open>Compressed names\<close>

inductive name_at :: "byte list \<Rightarrow> nat \<Rightarrow> string list \<Rightarrow> nat list \<Rightarrow> nat \<Rightarrow> bool" for wire where
  root: "pos < length wire \<Longrightarrow> wire ! pos = 0 \<Longrightarrow> name_at wire pos [] [] (pos + 1)"
| label: "pos < length wire \<Longrightarrow> 0 < wire ! pos \<Longrightarrow> wire ! pos \<le> MAX_LABEL_LENGTH \<Longrightarrow>
    n = unat (wire ! pos) \<Longrightarrow> pos + 1 + n \<le> length wire \<Longrightarrow>
    name_at wire (pos + 1 + n) ls ptrs e \<Longrightarrow>
    name_at wire pos (bytes_to_string (substr wire (pos + 1) n) # ls) ptrs e"
| pointer: "pos + 2 \<le> length wire \<Longrightarrow> is_pointer (wire ! pos) \<Longrightarrow>
    t = pointer_target (wire ! pos) (wire ! (pos + 1)) \<Longrightarrow>
    name_at wire t ls ptrs e \<Longrightarrow> name_at wire pos ls (t # ptrs) (pos + 2)"

inductive_cases name_at_NilE: "name_at wire pos [] [] e"

lemma not_pointer_le63: "b \<le> 63 \<Longrightarrow> \<not> is_pointer b"
  by (rule byte_exhaust_check [where P = "\<lambda>b. b \<le> 63 \<longrightarrow> \<not> is_pointer b" and b = b, THEN mp]) code_simp

lemma name_at_unfold_label:
  assumes "name_at wire pos ls ptrs e"
  shows "pos < length wire"
  using assms by cases auto

definition join_onto :: "string \<Rightarrow> string list \<Rightarrow> string" where
  "join_onto res ls = (if ls = [] then res else if res = [] then dot_join ls else res @ ''.'' @ dot_join ls)"

lemma join_onto_Nil [simp]: "join_onto res [] = res"
  by (simp add: join_onto_def)

lemma join_onto_empty [simp]: "join_onto [] ls = dot_join ls"
  by (simp add: join_onto_def)

lemma join_onto_Cons:
  "l \<noteq> [] \<Longrightarrow> join_onto ((if res = [] then res else res @ ''.'') @ l) ls = join_onto res (l # ls)"
  by (cases ls) (auto simp: join_onto_def)

lemma label_not_Nil: "pos + 1 + n \<le> length wire \<Longrightarrow> 0 < n \<Longrightarrow> bytes_to_string (substr wire (pos + 1) n) \<noteq> []"
  by (simp add: bytes_to_string_def substr_def)

lemma decompress_sound:
  "decompress_loop wire current i visited jumped off res = Inr (s, e) \<Longrightarrow>
   distinct visited \<Longrightarrow> length visited = i \<Longrightarrow> i \<le> MAX_POINTER_DEPTH \<Longrightarrow>
   \<exists>ls ptrs e'. name_at wire current ls ptrs e' \<and> s = join_onto res ls \<and>
     distinct (visited @ ptrs) \<and> i + length ptrs \<le> MAX_POINTER_DEPTH \<and> e = (if jumped then off else e')"
proof (induction wire current i visited jumped off res rule: decompress_loop.induct)
  case (1 wire current i visited jumped off res)
  note run = 1(3)
  have len: "current < length wire" using run by (subst (asm) decompress_loop.simps) (auto split: if_splits)
  show ?case
  proof (cases "is_pointer (wire ! current)")
    case True
    let ?t = "pointer_target (wire ! current) (wire ! (current + 1))"
    have c: "current + 2 \<le> length wire" "i < MAX_POINTER_DEPTH" "?t \<notin> set visited"
      "decompress_loop wire ?t (i + 1) (visited @ [?t]) True (if jumped then off else current + 2) res = Inr (s, e)"
      using run len True 1(5)
      by (subst (asm) decompress_loop.simps; simp add: Let_def not_le not_less split: if_splits)+
    obtain ls ptrs e' where "name_at wire ?t ls ptrs e'" "s = join_onto res ls"
      "distinct ((visited @ [?t]) @ ptrs)" "i + 1 + length ptrs \<le> MAX_POINTER_DEPTH"
      "e = (if jumped then off else current + 2)"
      using 1(1) [OF _ refl True _ refl _ _ _ c(4)] c len 1(4-6) by (auto simp: not_le not_less)
    moreover from this c True have "name_at wire current ls (?t # ptrs) (current + 2)"
      by (intro name_at.pointer) auto
    ultimately show ?thesis by (intro exI [of _ ls] exI [of _ "?t # ptrs"] exI [of _ "current + 2"]) auto
  next
    case False
    show ?thesis
    proof (cases "wire ! current = 0")
      case True
      with run len False have "s = res \<and> e = (if jumped then off else current + 1)"
        by (subst (asm) decompress_loop.simps) (simp add: Let_def split: if_splits)
      moreover have "name_at wire current [] [] (current + 1)" using True len by (intro name_at.root)
      ultimately show ?thesis using 1(4-6) by (intro exI [of _ "[]"] exI [of _ "current + 1"]) auto
    next
      case nz: False
      let ?n = "unat (wire ! current)"
      let ?l = "bytes_to_string (substr wire (current + 1) ?n)"
      let ?r = "(if res = [] then res else res @ ''.'') @ ?l"
      have c: "wire ! current \<le> MAX_LABEL_LENGTH" "current + 1 + ?n \<le> length wire"
        "decompress_loop wire (current + 1 + ?n) i visited jumped off ?r = Inr (s, e)"
        using run len False nz
        by (subst (asm) decompress_loop.simps; simp add: Let_def not_le not_less split: if_splits)+
      have l: "?l \<noteq> []" using c(2) nz by (intro label_not_Nil) (auto simp: unat_gt_0)
      obtain ls ptrs e' where "name_at wire (current + 1 + ?n) ls ptrs e'" "s = join_onto ?r ls"
        "distinct (visited @ ptrs)" "i + length ptrs \<le> MAX_POINTER_DEPTH" "e = (if jumped then off else e')"
        using 1(2) [OF _ refl False nz _ refl refl _ c(3)] c len 1(4-6) by (auto simp: not_le not_less)
      moreover from this c nz len have "name_at wire current (?l # ls) ptrs e'"
        by (intro name_at.label) (auto simp: word_gt_0)
      ultimately show ?thesis using l
        by (intro exI [of _ "?l # ls"] exI [of _ ptrs] exI [of _ e']) (auto simp: join_onto_Cons)
    qed
  qed
qed

lemma decompress_complete:
  "name_at wire current ls ptrs e' \<Longrightarrow>
   distinct (visited @ ptrs) \<Longrightarrow> length visited = i \<Longrightarrow> i + length ptrs \<le> MAX_POINTER_DEPTH \<Longrightarrow>
   decompress_loop wire current i visited jumped off res = Inr (join_onto res ls, if jumped then off else e')"
proof (induction arbitrary: i visited jumped off res rule: name_at.induct)
  case (root pos)
  then show ?case by (subst decompress_loop.simps) (simp add: Let_def not_pointer_le63)
next
  case (label pos n ls ptrs e)
  let ?l = "bytes_to_string (substr wire (pos + 1) n)"
  have "?l \<noteq> []" using label by (intro label_not_Nil) (auto simp: unat_gt_0)
  with label show ?case
    by (subst decompress_loop.simps) (auto simp: Let_def not_pointer_le63 not_less join_onto_Cons)
next
  case (pointer pos t ls ptrs e)
  from pointer.prems pointer.hyps pointer.IH [of "visited @ [t]" "i + 1"] show ?case
    by (subst decompress_loop.simps) (simp add: Let_def not_less)
qed

lemma decompress_name_iff:
  "decompress_name wire off = Inr (s, e) \<longleftrightarrow>
   (\<exists>ls ptrs. name_at wire off ls ptrs e \<and> distinct ptrs \<and> length ptrs \<le> MAX_POINTER_DEPTH \<and> s = dot_join ls)"
proof
  assume "decompress_name wire off = Inr (s, e)"
  from decompress_sound [OF this [unfolded decompress_name_def]]
  show "\<exists>ls ptrs. name_at wire off ls ptrs e \<and> distinct ptrs \<and> length ptrs \<le> MAX_POINTER_DEPTH \<and> s = dot_join ls"
    by simp blast
next
  assume "\<exists>ls ptrs. name_at wire off ls ptrs e \<and> distinct ptrs \<and> length ptrs \<le> MAX_POINTER_DEPTH \<and> s = dot_join ls"
  then show "decompress_name wire off = Inr (s, e)"
    using decompress_complete [where visited = "[]" and i = 0 and jumped = False and res = "[]"]
    by (fastforce simp: decompress_name_def)
qed

lemma decompress_loop_ok:
  "length visited = i \<Longrightarrow> ok_or_parse_error (decompress_loop wire current i visited jumped off res)"
  by (induction wire current i visited jumped off res rule: decompress_loop.induct)
     (subst decompress_loop.simps, auto simp: Let_def)

lemma decompress_name_ok: "ok_or_parse_error (decompress_name wire off)"
  by (simp add: decompress_name_def decompress_loop_ok)

lemma name_at_bounds: "name_at wire pos ls ptrs e \<Longrightarrow> pos < e \<and> e \<le> length wire"
  by (induction rule: name_at.induct) auto

lemma decompress_name_bounds: "decompress_name wire off = Inr (s, e) \<Longrightarrow> off < e \<and> e \<le> length wire"
  by (auto simp: decompress_name_iff dest: name_at_bounds)

section \<open>Positions stay in the packet\<close>

lemma parse_questions_bounds:
  "parse_questions data n off = Inr (qs, e) \<Longrightarrow> off \<le> length data \<Longrightarrow>
   off \<le> e \<and> e \<le> length data \<and> length qs = n"
  by (induction n arbitrary: off qs) (fastforce split: if_splits dest: decompress_name_bounds)+

lemma read_u16_ok: "off + 2 \<le> length bs \<Longrightarrow> ok_or_parse_error (read_u16_be bs off)"
  using u16.dec_in_bounds [of off bs] by auto

lemma read_u32_ok: "off + 4 \<le> length bs \<Longrightarrow> ok_or_parse_error (read_u32_be bs off)"
  using u32.dec_in_bounds [of off bs] by auto

lemmas read_ok = read_u16_ok read_u32_ok decompress_name_ok

lemma parse_questions_ok: "ok_or_parse_error (parse_questions data n off)"
  by (induction n arbitrary: off) (auto intro!: ok_or_parse_error_bindE read_ok)

text \<open>Where a parsed record lies in the packet.\<close>

definition rr_in_packet :: "byte list \<Rightarrow> bool \<Rightarrow> resource_record \<Rightarrow> bool" where
  "rr_in_packet data copy_rdata rr \<longleftrightarrow> 2 \<le> rr_rdata_offset rr \<and>
     (\<exists>len. read_u16_be data (rr_rdata_offset rr - 2) = Inr len \<and>
       rr_rdata_offset rr + unat len \<le> length data \<and>
       rr_rdata rr = (if copy_rdata then substr data (rr_rdata_offset rr) (unat len) else []))"

lemma parse_rr_bounds:
  assumes "parse_rr data copy off = Inr (rr, e)"
  shows "off < e \<and> e \<le> length data \<and> rr_in_packet data copy rr"
proof -
  obtain name p len where *: "decompress_name data off = Inr (name, p)" "read_u16_be data (p + 8) = Inr len"
    "p + 10 + unat len \<le> length data" "e = p + 10 + unat len" "rr_rdata_offset rr = p + 10"
    "rr_rdata rr = (if copy then substr data (p + 10) (unat len) else [])"
    using assms by (auto simp: parse_rr_def Let_def not_less split: if_splits)
  with decompress_name_bounds [OF *(1)] show ?thesis
    unfolding rr_in_packet_def by (intro conjI exI [of _ len]) (auto simp: add.commute [of 8 p])
qed

lemma parse_rr_ok: "ok_or_parse_error (parse_rr data copy off)"
  by (auto simp: parse_rr_def Let_def intro!: ok_or_parse_error_bindE read_ok)

lemma parse_rrs_bounds:
  "parse_rrs data copy n off = Inr (rrs, e) \<Longrightarrow> off \<le> length data \<Longrightarrow>
   off \<le> e \<and> e \<le> length data \<and> length rrs = n \<and> list_all (rr_in_packet data copy) rrs"
  by (induction n arbitrary: off rrs) (fastforce dest: parse_rr_bounds)+

lemma parse_rrs_ok: "ok_or_parse_error (parse_rrs data copy n off)"
  by (induction n arbitrary: off) (auto intro!: ok_or_parse_error_bindE parse_rr_ok)

lemma parse_edns_options_ok: "ok_or_parse_error (parse_edns_options rdata off opts)"
  by (induction rdata off opts rule: parse_edns_options.induct)
     (subst parse_edns_options.simps, auto simp: Let_def intro!: ok_or_parse_error_bindE read_ok)

lemma parse_edns_ok: "ok_or_parse_error (parse_edns rr)"
  by (auto simp: parse_edns_def intro!: ok_or_parse_error_bindE parse_edns_options_ok)

lemma parse_additionals_ok: "ok_or_parse_error (parse_additionals data copy n off edns)"
  by (induction n arbitrary: off edns) (auto intro!: ok_or_parse_error_bindE parse_rr_ok parse_edns_ok)

lemma parse_additionals_bounds:
  "parse_additionals data copy n off edns = Inr (rrs, edns') \<Longrightarrow> off \<le> length data \<Longrightarrow>
   length rrs = n \<and> list_all (rr_in_packet data copy) rrs"
  by (induction n arbitrary: off rrs edns) (fastforce dest: parse_rr_bounds)+

lemma parse_message_ok: "ok_or_parse_error (parse_message data copy)"
  by (auto simp: parse_message_def Let_def
      intro!: ok_or_parse_error_bindE read_ok parse_questions_ok parse_rrs_ok parse_additionals_ok)

section \<open>Header flags\<close>

lemma flag_exp: "FLAG_QR = 2 ^ 15" "FLAG_AA = 2 ^ 10" "FLAG_TC = 2 ^ 9" "FLAG_RD = 2 ^ 8" "FLAG_RA = 2 ^ 7"
  by (simp_all add: flag_defs)

lemma nibble_mask: "(0x0F :: byte) = mask 4"
  by (simp add: mask_eq_exp_minus_1)

lemma bit_if_exp: "k < 16 \<Longrightarrow> bit (if q then 2 ^ k else 0 :: u16) n \<longleftrightarrow> q \<and> n = k"
  by (auto simp: bit_simps)

lemma bit_opcode_field: "bit (push_bit 11 (ucast (op AND mask 4)) :: u16) n \<longleftrightarrow> 11 \<le> n \<and> n < 15 \<and> bit op (n - 11)"
  for op :: byte
  by (auto simp: bit_simps)

lemma bit_rcode_field: "bit (ucast (rc AND mask 4) :: u16) n \<longleftrightarrow> n < 4 \<and> bit rc n" for rc :: byte
  by (auto simp: bit_simps)

lemma bit_build_flags:
  "bit (build_flags qr op aa tc rd ra rc) n \<longleftrightarrow>
     qr \<and> n = 15 \<or> 11 \<le> n \<and> n < 15 \<and> bit op (n - 11) \<or> aa \<and> n = 10 \<or> tc \<and> n = 9 \<or> rd \<and> n = 8 \<or>
     ra \<and> n = 7 \<or> n < 4 \<and> bit rc n"
  unfolding build_flags_def flag_exp nibble_mask bit_or_iff bit_opcode_field bit_rcode_field
  by (simp add: bit_if_exp disj_assoc)

lemma test_flag: "(b AND 0x80 \<noteq> 0) = bit b 7" "(b AND 0x04 \<noteq> 0) = bit b 2" "(b AND 0x02 \<noteq> 0) = bit b 1"
  "(b AND 0x01 \<noteq> 0) = bit b 0" for b :: byte
  using and_exp_eq_0_iff_not_bit [of b 7] and_exp_eq_0_iff_not_bit [of b 2] and_exp_eq_0_iff_not_bit [of b 1]
    and_exp_eq_0_iff_not_bit [of b 0] by simp_all

lemma flags_read_back:
  fixes qr op aa tc rd ra rc
  defines "hi \<equiv> ucast (drop_bit 8 (build_flags qr op aa tc rd ra rc)) :: byte"
    and "lo \<equiv> ucast (build_flags qr op aa tc rd ra rc) :: byte"
  shows "(hi AND 0x80 \<noteq> 0) = qr" "(hi AND 0x04 \<noteq> 0) = aa" "(hi AND 0x02 \<noteq> 0) = tc" "(hi AND 0x01 \<noteq> 0) = rd"
    "(lo AND 0x80 \<noteq> 0) = ra" "drop_bit 3 hi AND 0x0F = op AND 0x0F" "lo AND 0x0F = rc AND 0x0F"
  unfolding hi_def lo_def test_flag nibble_mask
       apply (simp_all add: bit_simps bit_build_flags)
  by (rule bit_word_eqI; auto simp: bit_simps bit_build_flags)+

section \<open>Reading back what the builder wrote\<close>

definition decodable :: "string \<Rightarrow> bool" where
  "decodable name = (encodable name \<and> (\<forall>l\<in>set (name_labels name). l \<noteq> []))"

definition canonical_name :: "string \<Rightarrow> string" where
  "canonical_name name = (if name \<noteq> [] \<and> last name = CHR ''.'' then butlast name else name)"

lemma bytes_to_string_map [simp]: "bytes_to_string (map byte_of_char s) = s"
  by (simp add: bytes_to_string_def comp_def)

lemma dot_join_name_labels: "dot_join (name_labels name) = canonical_name name"
  by (simp add: name_labels_def labels_of_def canonical_name_def)

lemma name_at_wire_labels:
  "\<forall>l\<in>set ls. l \<noteq> [] \<and> length l \<le> 63 \<Longrightarrow>
   name_at (pre @ wire_labels ls @ post) (length pre) ls [] (length pre + length (wire_labels ls))"
proof (induction ls arbitrary: pre)
  case Nil
  show ?case using name_at.root [of "length pre" "pre @ [0] @ post"] by simp
next
  case (Cons l ls)
  let ?w = "pre @ wire_labels (l # ls) @ post"
  have b: "?w ! length pre = of_nat (length l)" "0 < length l" "length l \<le> 63"
    using Cons.prems by (auto simp: wire_labels_Cons wire_label_def)
  have "name_at ?w (length pre + 1 + length l) ls [] (length pre + length (wire_labels (l # ls)))"
    using Cons.IH [of "pre @ wire_label l"] Cons.prems
    by (simp add: wire_labels_Cons wire_label_def add.assoc)
  then have "name_at ?w (length pre) (bytes_to_string (substr ?w (length pre + 1) (length l)) # ls) []
      (length pre + length (wire_labels (l # ls)))"
    using b by (intro name_at.label)
      (auto simp: word_less_nat_alt word_le_nat_alt wire_labels_Cons wire_label_def)
  moreover have "bytes_to_string (substr ?w (length pre + 1) (length l)) = l"
    by (simp add: substr_def wire_labels_Cons wire_label_def)
  ultimately show ?case by simp
qed

lemma decodable_labels: "decodable name \<Longrightarrow> l \<in> set (name_labels name) \<Longrightarrow> l \<noteq> [] \<and> length l \<le> 63"
  by (auto simp: decodable_def encodable_def)

lemma decompress_wire_name:
  assumes "decodable name" "off = length pre"
  shows "decompress_name (pre @ wire_labels (name_labels name) @ post) off =
    Inr (canonical_name name, off + length (wire_labels (name_labels name)))"
  using name_at_wire_labels [of "name_labels name" pre post] decodable_labels [OF assms(1)] assms(2)
  by (auto simp: decompress_name_iff dot_join_name_labels intro!: exI [of _ "name_labels name"])


definition sent_question :: "pending_question \<Rightarrow> question" where
  "sent_question q = \<lparr>qname = canonical_name (pq_qname q), qtype = record_type_val (pq_qtype q), qclass = pq_qclass q\<rparr>"

definition sent_opt :: "nat \<Rightarrow> edns_config \<Rightarrow> resource_record" where
  "sent_opt off e = \<lparr>rr_name = [], rr_type = OPT_RR_TYPE, rr_qclass = ec_udp_payload_size e, rr_ttl = edns_ttl e,
     rr_rdata = wire_options (ec_options e), rr_rdata_offset = off + 11\<rparr>"

definition sent_message :: "query_builder \<Rightarrow> parsed_message" where
  "sent_message b = \<lparr>m_id = qb_id b, m_qr = qb_qr b, m_opcode = qb_opcode b AND 0x0F, m_aa = qb_aa b,
     m_tc = qb_tc b, m_rd = qb_rd b, m_ra = qb_ra b,
     m_qdcount = of_nat (length (qb_questions b)), m_ancount = 0, m_nscount = 0,
     m_arcount = (case qb_edns b of Some _ \<Rightarrow> 1 | None \<Rightarrow> 0),
     m_questions = map sent_question (qb_questions b), m_answers = [], m_authorities = [],
     m_additionals = (case qb_edns b of None \<Rightarrow> []
       | Some e \<Rightarrow> [sent_opt (HEADER_SIZE + length (concat (map wire_question (qb_questions b)))) e]),
     m_edns = None, m_rcode = qb_rcode b AND 0x0F\<rparr>"

lemma parse_wire_questions:
  "\<forall>q\<in>set qs. decodable (pq_qname q) \<Longrightarrow>
   parse_questions (pre @ concat (map wire_question qs) @ post) (length qs) (length pre) =
     Inr (map sent_question qs, length pre + length (concat (map wire_question qs)))"
proof (induction qs arbitrary: pre)
  case (Cons q qs)
  let ?n = "wire_labels (name_labels (pq_qname q))"
  let ?t = "be16 (record_type_val (pq_qtype q))" let ?c = "be16 (pq_qclass q)"
  let ?rest = "concat (map wire_question qs) @ post"
  have "decompress_name (pre @ ?n @ (?t @ ?c @ ?rest)) (length pre) =
      Inr (canonical_name (pq_qname q), length pre + length ?n)"
    using Cons.prems by (intro decompress_wire_name) auto
  moreover have "read_u16_be ((pre @ ?n) @ ?t @ (?c @ ?rest)) (length pre + length ?n) = Inr (record_type_val (pq_qtype q))"
    by (intro u16.dec_append) simp
  moreover have "read_u16_be ((pre @ ?n @ ?t) @ ?c @ ?rest) (length pre + length ?n + 2) = Inr (pq_qclass q)"
    by (intro u16.dec_append) simp
  moreover have "parse_questions ((pre @ ?n @ ?t @ ?c) @ ?rest) (length qs) (length pre + length ?n + 4) =
     Inr (map sent_question qs, length pre + length ?n + 4 + length (concat (map wire_question qs)))"
    using Cons.IH [of "pre @ ?n @ ?t @ ?c"] Cons.prems by (simp add: add.assoc)
  ultimately show ?case
    by (simp add: wire_question_def [of q] sent_question_def [of q] add.assoc del: bindE_eq_Inr_iff)
qed simp

lemma parse_wire_opt:
  assumes "length (wire_options (ec_options e)) < 65536"
  shows "parse_rr (pre @ wire_edns e) True (length pre) =
    Inr (sent_opt (length pre) e, length pre + length (wire_edns e))"
proof -
  let ?o = "wire_options (ec_options e)"
  let ?l = "be16 (of_nat (length ?o))" and ?t = "be16 OPT_RR_TYPE" and ?c = "be16 (ec_udp_payload_size e)"
    and ?d = "be32 (edns_ttl e)"
  have "decompress_name (pre @ [0] @ (?t @ ?c @ ?d @ ?l @ ?o)) (length pre) = Inr ([], length pre + 1)"
    using decompress_wire_name [of "[]" "length pre" pre "?t @ ?c @ ?d @ ?l @ ?o"]
    by (simp add: decodable_def canonical_name_def)
  moreover have "read_u16_be ((pre @ [0]) @ ?t @ (?c @ ?d @ ?l @ ?o)) (length pre + 1) = Inr OPT_RR_TYPE"
    by (intro u16.dec_append) simp
  moreover have "read_u16_be ((pre @ [0] @ ?t) @ ?c @ (?d @ ?l @ ?o)) (length pre + 1 + 2) = Inr (ec_udp_payload_size e)"
    by (intro u16.dec_append) simp
  moreover have "read_u32_be ((pre @ [0] @ ?t @ ?c) @ ?d @ (?l @ ?o)) (length pre + 1 + 4) = Inr (edns_ttl e)"
    by (intro u32.dec_append) simp
  moreover have "read_u16_be ((pre @ [0] @ ?t @ ?c @ ?d) @ ?l @ ?o) (length pre + 1 + 8) = Inr (of_nat (length ?o))"
    by (intro u16.dec_append) simp
  moreover have "unat (of_nat (length ?o) :: u16) = length ?o"
    using assms by (simp add: unat_of_nat)
  ultimately show ?thesis
    by (simp add: parse_rr_def wire_edns_def sent_opt_def Let_def substr_def ac_simps del: bindE_eq_Inr_iff)
qed

lemma wire_header_length [simp]: "length (wire_header b) = 12"
  by (simp add: wire_header_def)

lemma parse_wire_header:
  fixes b rest defines "data \<equiv> wire_header b @ rest"
  shows "read_u16_be data 0 = Inr (qb_id b)" "read_u16_be data 4 = Inr (of_nat (length (qb_questions b)))"
    "read_u16_be data 6 = Inr 0" "read_u16_be data 8 = Inr 0"
    "read_u16_be data 10 = Inr (case qb_edns b of Some _ \<Rightarrow> 1 | None \<Rightarrow> 0)"
    "data ! 2 = ucast (drop_bit 8 (build_flags (qb_qr b) (qb_opcode b) (qb_aa b) (qb_tc b) (qb_rd b) (qb_ra b) (qb_rcode b)))"
    "data ! 3 = ucast (build_flags (qb_qr b) (qb_opcode b) (qb_aa b) (qb_tc b) (qb_rd b) (qb_ra b) (qb_rcode b))"
  by (simp_all add: data_def wire_header_def be16_def read_u16_be_def u16_join)

lemma parse_wire_additionals:
  assumes "case ed of None \<Rightarrow> True | Some e \<Rightarrow> length (wire_options (ec_options e)) < 65536"
  shows "parse_additionals (pre @ (case ed of None \<Rightarrow> [] | Some e \<Rightarrow> wire_edns e)) True
      (unat (case ed of None \<Rightarrow> (0 :: u16) | Some _ \<Rightarrow> 1)) (length pre) None =
    Inr ((case ed of None \<Rightarrow> [] | Some e \<Rightarrow> [sent_opt (length pre) e]), None)"
  using assms by (cases ed) (simp_all add: parse_wire_opt sent_opt_def del: bindE_eq_Inr_iff)

definition recoverable :: "query_builder \<Rightarrow> bool" where
  "recoverable b = (buildable b \<and> length (qb_questions b) < 65536 \<and>
     (\<forall>q\<in>set (qb_questions b). decodable (pq_qname q)) \<and>
     (case qb_edns b of None \<Rightarrow> True | Some e \<Rightarrow> length (wire_options (ec_options e)) < 65536))"

lemma parse_wire_packet:
  assumes "recoverable b" shows "parse_message (wire_packet b) True = Inr (sent_message b)"
proof -
  let ?qs = "concat (map wire_question (qb_questions b))"
  let ?ed = "case qb_edns b of None \<Rightarrow> [] | Some e \<Rightarrow> wire_edns e"
  let ?data = "wire_header b @ ?qs @ ?ed"
  have "unat (of_nat (length (qb_questions b)) :: u16) = length (qb_questions b)"
    using assms by (simp add: recoverable_def unat_of_nat)
  moreover have "parse_questions ?data (length (qb_questions b)) 12 =
      Inr (map sent_question (qb_questions b), 12 + length ?qs)"
    using parse_wire_questions [of "qb_questions b" "wire_header b" ?ed] assms by (simp add: recoverable_def)
  moreover have "parse_additionals ?data True (unat (case qb_edns b of None \<Rightarrow> (0 :: u16) | Some _ \<Rightarrow> 1)) (12 + length ?qs) None =
      Inr ((case qb_edns b of None \<Rightarrow> [] | Some e \<Rightarrow> [sent_opt (12 + length ?qs) e]), None)"
    using parse_wire_additionals [of "qb_edns b" "wire_header b @ ?qs"] assms
    by (cases "qb_edns b") (simp_all add: recoverable_def)
  ultimately show ?thesis
    unfolding wire_packet_def parse_message_def Let_def parse_wire_header flags_read_back
    by (simp add: sent_message_def combine_rcode_def del: bindE_eq_Inr_iff)
qed

lemma edns_option_collapse [simp]: "\<lparr>opt_code = opt_code opt, opt_data = opt_data opt\<rparr> = opt"
  by simp

lemma parse_options_wire:
  "\<forall>opt\<in>set opts. length (opt_data opt) < 65536 \<Longrightarrow>
   parse_edns_options (pre @ wire_options opts) (length pre) acc = Inr (acc @ opts)"
proof (induction opts arbitrary: pre acc)
  case Nil
  then show ?case by (subst parse_edns_options.simps) (simp add: wire_options_def)
next
  case (Cons opt opts)
  let ?c = "be16 (opt_code opt)" let ?n = "be16 (of_nat (length (opt_data opt)))"
  let ?rest = "opt_data opt @ wire_options opts"
  have w: "wire_options (opt # opts) = ?c @ ?n @ ?rest"
    by (simp add: wire_options_def wire_option_def)
  have "read_u16_be (pre @ ?c @ (?n @ ?rest)) (length pre) = Inr (opt_code opt)"
    by (intro u16.dec_append) simp
  moreover have "read_u16_be ((pre @ ?c) @ ?n @ ?rest) (length pre + 2) = Inr (of_nat (length (opt_data opt)))"
    by (intro u16.dec_append) simp
  moreover have "unat (of_nat (length (opt_data opt)) :: u16) = length (opt_data opt)"
    using Cons.prems by (simp add: unat_of_nat)
  moreover have len: "length (pre @ ?c @ ?n @ opt_data opt) = length pre + 4 + length (opt_data opt)"
    by simp
  moreover have "parse_edns_options ((pre @ ?c @ ?n @ opt_data opt) @ wire_options opts)
      (length pre + 4 + length (opt_data opt)) (acc @ [opt]) = Inr (acc @ opt # opts)"
    using Cons.IH [of "pre @ ?c @ ?n @ opt_data opt" "acc @ [opt]"] Cons.prems unfolding len by simp
  ultimately show ?case unfolding w
    by (subst parse_edns_options.simps) (simp add: Let_def substr_def del: bindE_eq_Inr_iff)
qed

lemma rdlen_of_u16: "push_bit 8 (unat hi) OR unat lo = unat (push_bit 8 (ucast hi) OR ucast lo :: u16)"
  for hi lo :: byte
proof (rule bit_eqI)
  fix n show "bit (push_bit 8 (unat hi) OR unat lo) n = bit (unat (push_bit 8 (ucast hi) OR ucast lo :: u16)) n"
    by (auto simp: bit_simps dest: bit_imp_le_length)
qed

lemma parse_message_slices:
  assumes "parse_message data copy = Inr m"
  shows "list_all (rr_in_packet data copy) (m_answers m @ m_authorities m @ m_additionals m) \<and>
    length (m_questions m) = unat (m_qdcount m) \<and> length (m_answers m) = unat (m_ancount m) \<and>
    length (m_authorities m) = unat (m_nscount m) \<and> length (m_additionals m) = unat (m_arcount m)"
proof -
  obtain n qs o1 an o2 ns o3 ar ed where *: "12 \<le> length data"
    "parse_questions data (unat (m_qdcount m)) 12 = Inr (qs, o1)"
    "parse_rrs data copy (unat (m_ancount m)) o1 = Inr (an, o2)"
    "parse_rrs data copy (unat (m_nscount m)) o2 = Inr (ns, o3)"
    "parse_additionals data copy (unat (m_arcount m)) o3 None = Inr (ar, ed)"
    "m_questions m = qs" "m_answers m = an" "m_authorities m = ns" "m_additionals m = ar"
    using assms by (auto simp: parse_message_def Let_def not_less split: if_splits)
  from *(1) parse_questions_bounds [OF *(2)] parse_rrs_bounds [OF *(3)] parse_rrs_bounds [OF *(4)]
    parse_additionals_bounds [OF *(5)]
  show ?thesis by (simp add: *)
qed

definition reads_past_rdata :: "u16 \<Rightarrow> bool" where
  "reads_past_rdata type = (type \<in> record_type_val ` {Type_MX, Type_SOA, Type_SRV})"

lemma format_txt_loop_ok: "ok_or_parse_error (format_txt_loop rdata pos res)"
  by (induction rdata pos res rule: format_txt_loop.induct) (subst format_txt_loop.simps, auto simp: Let_def)

lemma format_domain_name_ok: "ok_or_parse_error (format_domain_name wire off)"
  using decompress_name_ok [of wire off]
  by (auto simp: format_domain_name_def ok_or_parse_error_def split: sum.splits)

lemma rdata_to_string_ok:
  assumes "rr_in_packet data copy rr" "\<not> reads_past_rdata (rr_type rr)"
  shows "ok_or_parse_error (rdata_to_string lib rr data)"
proof -
  obtain len where len: "2 \<le> rr_rdata_offset rr" "read_u16_be data (rr_rdata_offset rr - 2) = Inr len"
    "rr_rdata_offset rr + unat len \<le> length data" using assms(1) by (auto simp: rr_in_packet_def)
  let ?p = "rr_rdata_offset rr - 2"
  have "rr_rdata_offset rr - 1 = ?p + 1" using len by simp
  moreover from this len have "push_bit 8 (unat (data ! ?p)) OR unat (data ! (?p + 1)) = unat len"
    by (auto simp: read_u16_be_def rdlen_of_u16 split: if_splits)
  moreover have "?p + 2 \<le> length data" using u16.dec_okD [OF len(2)] .
  ultimately show ?thesis
    using assms(2) len(1,3)
    by (simp add: rdata_to_string_def read_byte_def subspan_def Let_def reads_past_rdata_def format_txt_def
        format_txt_loop_ok format_domain_name_ok)
qed

section \<open>The parse without RDATA copies\<close>

definition strip_rr :: "resource_record \<Rightarrow> resource_record" where
  "strip_rr rr = rr\<lparr>rr_rdata := []\<rparr>"

definition strip_edns :: "edns_info \<Rightarrow> edns_info" where
  "strip_edns e = e\<lparr>edns_options := []\<rparr>"

definition strip_message :: "parsed_message \<Rightarrow> parsed_message" where
  "strip_message m = m\<lparr>m_answers := map strip_rr (m_answers m), m_authorities := map strip_rr (m_authorities m),
     m_additionals := map strip_rr (m_additionals m), m_edns := map_option strip_edns (m_edns m)\<rparr>"

lemma parse_rr_no_copy: "parse_rr data False off = map_sum id (map_prod strip_rr id) (parse_rr data True off)"
  by (auto simp: parse_rr_def strip_rr_def Let_def bindE_def split: sum.splits prod.splits if_splits)

lemma parse_rr_strip: "parse_rr data True off = Inr (rr, e) \<Longrightarrow> parse_rr data False off = Inr (strip_rr rr, e)"
  by (simp add: parse_rr_no_copy)

lemma parse_rrs_strip:
  "parse_rrs data True n off = Inr (rrs, e) \<Longrightarrow> parse_rrs data False n off = Inr (map strip_rr rrs, e)"
  by (induction n arbitrary: off rrs) (fastforce dest: parse_rr_strip)+

lemma parse_edns_strip: "parse_edns rr = Inr ed \<Longrightarrow> parse_edns (strip_rr rr) = Inr (map_option strip_edns ed)"
  by (auto simp: parse_edns_def strip_rr_def strip_edns_def parse_edns_options.simps [of "[]"])

lemma parse_additionals_strip:
  "parse_additionals data True n off ed = Inr (rrs, ed') \<Longrightarrow>
   parse_additionals data False n off (map_option strip_edns ed) = Inr (map strip_rr rrs, map_option strip_edns ed')"
proof (induction n arbitrary: off ed rrs)
  case (Suc n)
  then obtain rr off1 ed1 rrs1 where *: "parse_rr data True off = Inr (rr, off1)"
    "(if rr_type rr = record_type_val Type_OPT \<and> length (rr_name rr) = 1 \<and> 0 < rr_qclass rr
      then parse_edns rr else Inr ed) = Inr ed1"
    "parse_additionals data True n off1 ed1 = Inr (rrs1, ed')" "rrs = rr # rrs1"
    by auto
  have "rr_type (strip_rr rr) = rr_type rr" "rr_name (strip_rr rr) = rr_name rr" "rr_qclass (strip_rr rr) = rr_qclass rr"
    by (simp_all add: strip_rr_def)
  with Suc.IH [OF *(3)] parse_rr_strip [OF *(1)] *(2,4) parse_edns_strip [of rr ed1] show ?case
    by (auto split: if_splits)
qed auto

lemma combine_rcode_strip: "combine_rcode rc (map_option strip_edns ed) = combine_rcode rc ed"
  by (cases ed) (simp_all add: combine_rcode_def strip_edns_def)

lemma parse_message_strip:
  "parse_message data True = Inr m \<Longrightarrow> parse_message data False = Inr (strip_message m)"
  by (fastforce simp: parse_message_def Let_def strip_message_def combine_rcode_strip
      dest!: parse_rrs_strip parse_additionals_strip split: if_splits)

lemma rdata_to_string_strip: "rdata_to_string lib (strip_rr rr) data = rdata_to_string lib rr data"
proof -
  have "rr_type (strip_rr rr) = rr_type rr" "rr_rdata_offset (strip_rr rr) = rr_rdata_offset rr"
    by (simp_all add: strip_rr_def)
  then show ?thesis by (simp only: rdata_to_string_def)
qed

lemma format_answers_mapE: "format_answers lib data rrs = mapE (\<lambda>rr. rdata_to_string lib rr data) rrs"
  by (induction rrs) simp_all

lemma parse_strings_via_parser:
  assumes "RecordParser data = Inr p"
  shows "parse_strings lib data =
    bindE (if m_rcode (rp_message p) = NOERROR then mapE (parse_record lib p) [0..<record_count p] else Inr [])
      (\<lambda>rs. Inr \<lparr>fmt_rcode = m_rcode (rp_message p), fmt_records = rs\<rparr>)"
proof -
  obtain m where m: "parse_message data True = Inr m" "p = \<lparr>rp_wire = data, rp_message = m\<rparr>"
    using assms by (auto simp: RecordParser_def)
  have len: "length (m_answers m) = unat (m_ancount m)" using parse_message_slices [OF m(1)] by simp
  have "mapE (parse_record lib p) [0..<record_count p] =
      mapE (\<lambda>i. rdata_to_string lib (m_answers m ! i) data) [0..<length (m_answers m)]"
    using len by (intro mapE_cong) (auto simp: m(2) parse_record_def record_count_def)
  also have "\<dots> = mapE (\<lambda>rr. rdata_to_string lib rr data) (m_answers m)"
    by (subst (3) map_nth [symmetric]) (simp only: mapE_map)
  finally show ?thesis
    by (simp add: parse_strings_def parse_message_strip [OF m(1)] m(2) strip_message_def format_answers_mapE
        mapE_map rdata_to_string_strip)
qed

lemma mapE_ok: "(\<And>x. x \<in> set xs \<Longrightarrow> ok_or_parse_error (f x)) \<Longrightarrow> ok_or_parse_error (mapE f xs)"
  by (induction xs) (auto intro!: ok_or_parse_error_bindE)

lemma parse_strings_ok:
  assumes "\<And>m. parse_message data False = Inr m \<Longrightarrow> \<forall>rr\<in>set (m_answers m). \<not> reads_past_rdata (rr_type rr)"
  shows "ok_or_parse_error (parse_strings lib data)"
  unfolding parse_strings_def format_answers_mapE
  using assms parse_message_slices [of data False]
  by (intro ok_or_parse_error_bindE parse_message_ok)
     (auto intro!: mapE_ok rdata_to_string_ok simp: list_all_iff)

section \<open>Properties\<close>


definition sample_builder :: query_builder where
  "sample_builder = add_edns 1232 0 True [\<lparr>opt_code = 12, opt_data = [0, 0]\<rparr>]
     (add_question ''example.com'' Type_AAAA Class_IN (QueryBuilder 0x12345678))"

lemma sample_builder_recoverable: "recoverable sample_builder"
  by (simp add: sample_builder_def recoverable_def buildable_def add_edns_def add_question_def QueryBuilder_def
      decodable_def encodable_def encoded_size_def name_labels_def labels_of_def edns_acceptable_def
      wire_options_def)


text \<open>C7. Parsing untrusted bytes is safe: for every input \<open>parse_message\<close> returns a message whose
  records all lie in the packet and whose sections have the counts of the header, or throws the
  PARSE exception. It never reads outside the packet.\<close>

theorem parse_message_total_and_in_bounds:
  "case parse_message data copy_rdata of
     Inl e \<Rightarrow> e = DnsLookupException PARSE
   | Inr m \<Rightarrow> list_all (rr_in_packet data copy_rdata) (m_answers m @ m_authorities m @ m_additionals m) \<and>
       length (m_questions m) = unat (m_qdcount m) \<and> length (m_answers m) = unat (m_ancount m) \<and>
       length (m_authorities m) = unat (m_nscount m) \<and> length (m_additionals m) = unat (m_arcount m)"
proof (cases "parse_message data copy_rdata")
  case (Inl e)
  with parse_message_ok [of data copy_rdata] show ?thesis by simp
next
  case (Inr m)
  with parse_message_slices [OF Inr] show ?thesis by simp
qed

text \<open>C12. \<open>decompress_name\<close> decides the name format of RFC 1035: it returns a name and the position
  after it exactly when the bytes at the offset spell those labels through at most seven pointers,
  all to different positions. Pointer cycles are therefore rejected.\<close>

theorem decompress_name_decides_name_at:
  "decompress_name wire off = Inr (s, e) \<longleftrightarrow>
   (\<exists>ls ptrs. name_at wire off ls ptrs e \<and> distinct ptrs \<and> length ptrs \<le> MAX_POINTER_DEPTH \<and> s = dot_join ls)"
  by (rule decompress_name_iff)

text \<open>C33. The path without RDATA copies gives what the copying parser gives: whenever the
  \<open>RecordParser\<close> accepts a packet, \<open>parse_strings\<close> returns its RCODE and the records
  \<open>parse_record\<close> returns index by index, and fails where the first of them fails.\<close>

theorem parse_strings_equals_record_parser:
  assumes "RecordParser data = Inr p"
  shows "parse_strings lib data =
    bindE (if m_rcode (rp_message p) = NOERROR then mapE (parse_record lib p) [0..<record_count p] else Inr [])
      (\<lambda>rs. Inr \<lparr>fmt_rcode = m_rcode (rp_message p), fmt_records = rs\<rparr>)"
  using assms by (rule parse_strings_via_parser)

text \<open>A response to sample_builder's question with one A record, through a compressed owner name.\<close>

definition sample_response :: "byte list" where
  "sample_response = [0x56, 0x78, 0x81, 0x80, 0, 1, 0, 1, 0, 0, 0, 0, 1, 97, 2, 105, 111, 0, 0, 1, 0, 1,
     0xC0, 12, 0, 1, 0, 1, 0, 0, 0, 60, 0, 4, 192, 0, 2, 1]"

definition dotted_quad :: "byte list \<Rightarrow> string" where
  "dotted_quad bs = dot_join (map (\<lambda>b. dec_string (unat b)) bs)"

definition sample_lib :: inet_lib where
  "sample_lib = \<lparr>inet_pton4 = \<lambda>_. None, inet_pton6 = \<lambda>_. None,
     inet_ntop4 = \<lambda>b. Some (dotted_quad b), inet_ntop6 = \<lambda>b. Some (hex_bytes b)\<rparr>"

theorem parse_strings_equals_record_parser_witness:
  "\<exists>p. RecordParser sample_response = Inr p \<and> record_count p = 1 \<and>
     parse_record sample_lib p 0 = Inr ''192.0.2.1'' \<and>
     parse_strings sample_lib sample_response = Inr \<lparr>fmt_rcode = NOERROR, fmt_records = [''192.0.2.1'']\<rparr>"
proof -
  have "(case RecordParser sample_response of Inl _ \<Rightarrow> False | Inr p \<Rightarrow>
      m_rcode (rp_message p) = NOERROR \<and> record_count p = 1 \<and> parse_record sample_lib p 0 = Inr ''192.0.2.1'')"
    by code_simp
  then obtain p where p: "RecordParser sample_response = Inr p" "m_rcode (rp_message p) = NOERROR"
    "record_count p = 1" "parse_record sample_lib p 0 = Inr ''192.0.2.1''"
    by (auto split: sum.splits)
  with parse_strings_equals_record_parser [OF p(1), of sample_lib] show ?thesis by simp
qed

end
