(* ===== verification/Dns_Validator.thy ===== *)
theory Dns_Validator
  imports Parser_Lemmas
begin

text \<open>
  The check of a response against its request (\<^verbatim>\<open>src/dns/validator.cpp\<close>). A
  \<^verbatim>\<open>std::expected<void, DnsErrorInfo>\<close> is \<open>dns_error + unit\<close> (the message text is dropped), inside a
  result whose left side records a read outside one of the two buffers. The code tests the length
  of the response and not that of the request.
\<close>

type_synonym expected = "dns_error + unit"

function skip_name :: "byte list \<Rightarrow> nat \<Rightarrow> nat" where
  "skip_name msg offset =
     (if offset < length msg then
        let label_len = msg ! offset in
        if label_len = 0 then offset + 1
        else if is_pointer label_len then offset + 2
        else skip_name msg (offset + 1 + unat label_len)
      else 0)"
  by pat_completeness auto
termination by (relation "measure (\<lambda>(msg, offset). length msg - offset)") auto

declare skip_name.simps [simp del]

definition question_section_end :: "byte list \<Rightarrow> nat" where
  "question_section_end msg =
     (if length msg < 12 then 0
      else case read_u16_be msg 4 of
        Inl _ \<Rightarrow> 0
      | Inr qdcount \<Rightarrow>
          if qdcount = 0 then 0
          else let off = skip_name msg 12 in
               if off = 0 \<or> length msg < off + 4 then 0 else off + 4)"

definition check_min_header_size :: "byte list \<Rightarrow> expected" where
  "check_min_header_size response = (if 12 \<le> length response then Inr () else Inl PARSE)"

definition check_qr_bit :: "byte list \<Rightarrow> expected result" where
  "check_qr_bit response =
     bindE (read_byte response 2) (\<lambda>flags. Inr (if flags AND 0x80 \<noteq> 0 then Inr () else Inl PARSE))"

definition check_txid :: "byte list \<Rightarrow> byte list \<Rightarrow> expected result" where
  "check_txid request response =
     bindE (read_byte response 0) (\<lambda>a. bindE (read_byte request 0) (\<lambda>b.
     if a \<noteq> b then Inr (Inl PARSE)
     else bindE (read_byte response 1) (\<lambda>a. bindE (read_byte request 1) (\<lambda>b.
       Inr (if a = b then Inr () else Inl PARSE)))))"

definition check_qdcount :: "byte list \<Rightarrow> expected result" where
  "check_qdcount response =
     bindE (read_u16_be response 4) (\<lambda>qdcount. Inr (if qdcount = 1 then Inr () else Inl PARSE))"

definition check_question_echo :: "byte list \<Rightarrow> byte list \<Rightarrow> expected" where
  "check_question_echo request response =
     (let req_qs_end = question_section_end request;
          rsp_qs_end = question_section_end response
      in if req_qs_end = 0 \<or> rsp_qs_end = 0 then Inl PARSE
         else
           let req_qs_len = req_qs_end - HEADER_SIZE;
               rsp_qs_len = rsp_qs_end - HEADER_SIZE
           in if req_qs_len = rsp_qs_len \<and>
                 substr request HEADER_SIZE req_qs_len = substr response HEADER_SIZE rsp_qs_len
              then Inr () else Inl PARSE)"

text \<open>\<^verbatim>\<open>if (!result) return result;\<close> between two checks.\<close>

definition and_then :: "expected result \<Rightarrow> expected result \<Rightarrow> expected result" where
  "and_then r s = bindE r (\<lambda>x. case x of Inl e \<Rightarrow> Inr (Inl e) | Inr _ \<Rightarrow> s)"

definition validate_response :: "byte list \<Rightarrow> byte list \<Rightarrow> expected result" where
  "validate_response request response =
     and_then (Inr (check_min_header_size response))
       (and_then (check_qr_bit response)
         (and_then (check_txid request response)
           (and_then (check_qdcount response)
             (Inr (check_question_echo request response)))))"

section \<open>What acceptance means\<close>

lemma and_then_ok [simp]: "and_then r s = Inr (Inr ()) \<longleftrightarrow> r = Inr (Inr ()) \<and> s = Inr (Inr ())"
  by (auto simp: and_then_def split: sum.splits) (metis obj_sumE old.unit.exhaust)+

lemma skip_name_bounds: "skip_name msg off \<noteq> 0 \<Longrightarrow> off < skip_name msg off"
proof (induction msg off rule: skip_name.induct)
  case (1 msg offset)
  then show ?case
    by (subst skip_name.simps, subst (asm) (3) skip_name.simps) (force simp: Let_def split: if_splits)
qed

lemma question_section_end_bounds:
  "question_section_end msg \<noteq> 0 \<Longrightarrow> 17 \<le> question_section_end msg \<and> question_section_end msg \<le> length msg"
  using skip_name_bounds [of msg 12]
  by (auto simp: question_section_end_def Let_def split: sum.splits if_splits)

text \<open>The request and the response open with the same header identity and the same question bytes.\<close>

definition echoes :: "byte list \<Rightarrow> byte list \<Rightarrow> bool" where
  "echoes request response \<longleftrightarrow>
     question_section_end request \<noteq> 0 \<and> question_section_end response = question_section_end request \<and>
     substr response HEADER_SIZE (question_section_end request - HEADER_SIZE) =
     substr request HEADER_SIZE (question_section_end request - HEADER_SIZE)"

lemma check_question_echo_iff: "check_question_echo request response = Inr () \<longleftrightarrow> echoes request response"
  using question_section_end_bounds [of request] question_section_end_bounds [of response]
  by (auto simp: check_question_echo_def echoes_def Let_def)

lemma validate_response_iff:
  "validate_response request response = Inr (Inr ()) \<longleftrightarrow>
     12 \<le> length response \<and> response ! 2 AND 0x80 \<noteq> 0 \<and>
     read_u16_be response 0 = read_u16_be request 0 \<and> read_u16_be response 4 = Inr 1 \<and>
     echoes request response"
proof -
  have req: "echoes request response \<Longrightarrow> 12 \<le> length request"
    using question_section_end_bounds [of request] by (auto simp: echoes_def)
  have id: "read_u16_be response 0 = read_u16_be request 0 \<longleftrightarrow>
      response ! 0 = request ! 0 \<and> response ! 1 = request ! 1"
    if "12 \<le> length response" "12 \<le> length request"
    using that by (auto simp: read_u16_be_def) (metis u16_hi u16_lo)+
  have qd: "read_u16_be response 4 = Inr 1 \<longleftrightarrow> check_qdcount response = Inr (Inr ())"
    by (auto simp: check_qdcount_def)
  show ?thesis
  proof (cases "echoes request response \<and> 12 \<le> length response")
    case True
    with req id show ?thesis
      by (auto simp: validate_response_def check_min_header_size_def check_qr_bit_def check_txid_def
          check_question_echo_iff read_byte_def qd split: if_splits)
  next
    case False
    then show ?thesis
      by (auto simp: validate_response_def check_min_header_size_def check_question_echo_iff split: if_splits)
  qed
qed

lemma skip_wire_labels:
  assumes "\<forall>l\<in>set ls. l \<noteq> [] \<and> length l \<le> 63" "off = length pre"
  shows "skip_name (pre @ wire_labels ls @ post) off = off + length (wire_labels ls)"
  using assms
proof (induction ls arbitrary: pre off)
  case Nil
  then show ?case by (subst skip_name.simps) simp
next
  case (Cons l ls)
  let ?w = "pre @ wire_labels (l # ls) @ post"
  have b: "?w ! off = of_nat (length l)" "0 < length l" "length l \<le> 63"
    using Cons.prems by (auto simp: wire_labels_Cons wire_label_def)
  then have "?w ! off \<noteq> 0" "\<not> is_pointer (?w ! off)" "unat (?w ! off) = length l"
    by (auto simp: word_le_nat_alt unat_eq_zero [symmetric] intro!: not_pointer_le63)
  moreover have "skip_name ((pre @ wire_label l) @ wire_labels ls @ post) (off + 1 + length l) =
      off + 1 + length l + length (wire_labels ls)"
    using Cons.prems by (intro Cons.IH) (auto simp: wire_label_def)
  ultimately show ?case using Cons.prems(2)
    by (subst skip_name.simps, simp add: wire_labels_Cons Let_def) (simp add: wire_label_def)
qed

lemma question_end_wire:
  assumes "decodable (pq_qname q)" "length hdr = 12" "read_u16_be (hdr @ wire_question q @ rest) 4 = Inr n" "n \<noteq> 0"
  shows "question_section_end (hdr @ wire_question q @ rest) = 12 + length (wire_question q)"
proof -
  have "skip_name (hdr @ wire_labels (name_labels (pq_qname q)) @
      (be16 (record_type_val (pq_qtype q)) @ be16 (pq_qclass q) @ rest)) 12 =
      12 + length (wire_labels (name_labels (pq_qname q)))"
    using assms decodable_labels by (intro skip_wire_labels) auto
  with assms show ?thesis
    by (simp add: question_section_end_def wire_question_def Let_def)
qed

lemma wire_packet_one:
  assumes "qb_questions b = [q]"
  shows "wire_packet b = wire_header b @ wire_question q @ (case qb_edns b of None \<Rightarrow> [] | Some e \<Rightarrow> wire_edns e)"
  using assms by (simp add: wire_packet_def)

lemma question_end_packet:
  assumes "qb_questions b = [q]" "decodable (pq_qname q)"
  shows "question_section_end (wire_packet b @ rest) = 12 + length (wire_question q)"
  unfolding wire_packet_one [OF assms(1)] append_assoc
  by (rule question_end_wire [OF assms(2) _ parse_wire_header(2)]) (simp_all add: assms(1))

lemma recoverable_one: "recoverable b \<Longrightarrow> qb_questions b = [q] \<Longrightarrow> decodable (pq_qname q) \<and> buildable b"
  by (simp add: recoverable_def)

lemma echoed_question:
  assumes "recoverable b" "qb_questions b = [q]" "echoes (wire_packet b) response" "12 \<le> length response"
  shows "\<exists>rest. response = take 12 response @ wire_question q @ rest"
proof -
  have "question_section_end (wire_packet b) = 12 + length (wire_question q)"
    using question_end_packet [OF assms(2), of "[]"] recoverable_one [OF assms(1,2)] by simp
  then have "take (length (wire_question q)) (drop 12 response) = wire_question q"
    using assms(3) by (simp add: echoes_def substr_def wire_packet_one [OF assms(2)])
  then show ?thesis by (metis append_take_drop_id)
qed

lemma parse_message_identity:
  assumes "parse_message data copy = Inr m"
  shows "read_u16_be data 0 = Inr (m_id m) \<and> m_qr m = (data ! 2 AND 0x80 \<noteq> 0) \<and>
    (\<exists>n e. read_u16_be data 4 = Inr n \<and> parse_questions data (unat n) 12 = Inr (m_questions m, e))"
  using assms by (auto simp: parse_message_def Let_def split: if_splits)

lemma validated_answers:
  assumes "recoverable b" "qb_questions b = [q]" "build b = Inr request"
    and "validate_response request response = Inr (Inr ())" "parse_message response copy_rdata = Inr m"
  shows "m_id m = qb_id b \<and> m_qr m \<and> m_questions m = [sent_question q]"
proof -
  have req: "request = wire_packet b" using assms(1,3) by (simp add: build_spec recoverable_def)
  have v: "12 \<le> length response" "response ! 2 AND 0x80 \<noteq> 0" "read_u16_be response 0 = Inr (qb_id b)"
    "read_u16_be response 4 = Inr 1" "echoes (wire_packet b) response"
    using assms(4) unfolding validate_response_iff req by (simp_all add: wire_packet_def parse_wire_header)
  obtain rest where r: "response = take 12 response @ wire_question q @ rest"
    using echoed_question [OF assms(1,2) v(5,1)] by blast
  have "parse_questions (take 12 response @ concat (map wire_question [q]) @ rest) (length [q]) (length (take 12 response)) =
      Inr (map sent_question [q], length (take 12 response) + length (concat (map wire_question [q])))"
    using recoverable_one [OF assms(1,2)] by (intro parse_wire_questions) simp
  then have "\<exists>e. parse_questions response 1 12 = Inr ([sent_question q], e)"
    using v(1) r by (simp add: min_absorb2 del: bindE_eq_Inr_iff parse_questions.simps)
  with parse_message_identity [OF assms(5)] v show ?thesis by auto
qed

lemma validate_response_total:
  assumes "12 \<le> length request" shows "\<exists>v. validate_response request response = Inr v"
proof (cases "12 \<le> length response")
  case True
  have "read_byte bs i = Inr (bs ! i)" if "12 \<le> length bs" "i < 12" for bs i
    using that by (simp add: read_byte_def)
  moreover obtain n where "read_u16_be response 4 = Inr n" using u16.dec_in_bounds [of 4 response] True by auto
  ultimately show ?thesis using assms True
    by (simp add: validate_response_def and_then_def check_qr_bit_def check_txid_def check_qdcount_def
        check_min_header_size_def bindE_def del: bindE_eq_Inr_iff split: sum.splits)
next
  case False
  then show ?thesis by (auto simp: validate_response_def and_then_def check_min_header_size_def)
qed

lemma honest_validates:
  assumes "recoverable b" "qb_questions b = [q]" "build b = Inr request"
    and "build answer = Inr response" "qb_id answer = qb_id b" "qb_qr answer" "qb_questions answer = [q]"
  shows "validate_response request (response @ records) = Inr (Inr ())"
proof -
  have w: "request = wire_packet b" "response = wire_packet answer"
    using assms(3,4) by (auto simp: build_spec split: if_splits)
  have d: "decodable (pq_qname q)" using recoverable_one [OF assms(1,2)] by simp
  have "echoes request (response @ records)"
    using question_end_packet [OF assms(2) d, of "[]"] question_end_packet [OF assms(7) d]
    by (simp add: echoes_def w substr_def wire_packet_one [OF assms(2)] wire_packet_one [OF assms(7)])
  moreover have "response ! 2 AND 0x80 \<noteq> 0"
    using flags_read_back(1) assms(6) unfolding w wire_packet_def parse_wire_header by simp
  ultimately show ?thesis
    using assms unfolding validate_response_iff w
    by (simp add: wire_packet_def parse_wire_header nth_append)
qed

lemma other_id_rejected:
  assumes "12 \<le> length request" "12 \<le> length response" "read_u16_be response 0 \<noteq> read_u16_be request 0"
  shows "validate_response request response = Inr (Inl PARSE)"
proof -
  have r: "read_byte bs i = Inr (bs ! i)" if "12 \<le> length bs" "i < 12" for bs i
    using that by (simp add: read_byte_def)
  have "response ! 0 \<noteq> request ! 0 \<or> response ! 1 \<noteq> request ! 1"
    using assms by (auto simp: read_u16_be_def)
  with assms(1,2) r show ?thesis
    by (auto simp: validate_response_def and_then_def check_qr_bit_def check_txid_def check_min_header_size_def
        bindE_def simp del: bindE_eq_Inr_iff)
qed

section \<open>Properties\<close>

text \<open>C8. A response that passes \<open>validate_response\<close> answers the query that was sent: if the parser
  reads a message from it, that message is a response, carries the query's transaction id and has
  the query's question as its only question.\<close>

theorem validated_response_answers_query:
  assumes "recoverable b" "qb_questions b = [q]" "build b = Inr request"
    and "validate_response request response = Inr (Inr ())" "parse_message response copy_rdata = Inr m"
  shows "m_id m = qb_id b \<and> m_qr m \<and> m_questions m = [sent_question q]"
  using assms by (rule validated_answers)

theorem validated_response_answers_query_witness:
  "\<exists>request response m. build sample_builder = Inr request \<and>
     validate_response request response = Inr (Inr ()) \<and> parse_message response True = Inr m \<and>
     m_id m = 0x5678 \<and> m_qr m \<and> length (m_questions m) = 1"
proof -
  obtain q where q: "qb_questions sample_builder = [q]"
    by (simp add: sample_builder_def add_edns_def add_question_def QueryBuilder_def)
  have "(case build sample_builder of Inl _ \<Rightarrow> False | Inr request \<Rightarrow>
      case build (set_qr True sample_builder) of Inl _ \<Rightarrow> False | Inr response \<Rightarrow>
      case parse_message response True of Inl _ \<Rightarrow> False | Inr m \<Rightarrow>
        validate_response request response = Inr (Inr ()))"
    by code_simp
  then obtain request response m where r: "build sample_builder = Inr request"
    "validate_response request response = Inr (Inr ())" "parse_message response True = Inr m"
    by (auto split: sum.splits)
  moreover have "qb_id sample_builder = 0x5678"
    by (simp add: sample_builder_def add_edns_def add_question_def QueryBuilder_def)
  ultimately show ?thesis
    using validated_response_answers_query [OF sample_builder_recoverable q r] by auto
qed

text \<open>The honest answer passes: a packet with the query's id, the QR bit and the same question,
  whatever its other flags and EDNS settings and whatever follows it, is accepted.\<close>

theorem honest_response_validates:
  assumes "recoverable b" "qb_questions b = [q]" "build b = Inr request"
    and "build answer = Inr response" "qb_id answer = qb_id b" "qb_qr answer" "qb_questions answer = [q]"
  shows "validate_response request (response @ records) = Inr (Inr ())"
  using assms by (rule honest_validates)

theorem honest_response_validates_witness:
  "\<exists>request response. build sample_builder = Inr request \<and> build (set_qr True sample_builder) = Inr response \<and>
     validate_response request (response @ [0, 0, 1]) = Inr (Inr ())"
proof -
  obtain q where q: "qb_questions sample_builder = [q]"
    by (simp add: sample_builder_def add_edns_def add_question_def QueryBuilder_def)
  have b: "buildable sample_builder" "buildable (set_qr True sample_builder)"
    using sample_builder_recoverable by (simp_all add: recoverable_def buildable_def set_qr_def)
  then have "validate_response (wire_packet sample_builder) (wire_packet (set_qr True sample_builder) @ [0, 0, 1]) = Inr (Inr ())"
    by (intro honest_response_validates [where answer = "set_qr True sample_builder", OF sample_builder_recoverable q])
       (simp_all add: build_spec set_qr_def q)
  with b show ?thesis by (simp add: build_spec)
qed

end
