(* ===== verification/String_Util.thy ===== *)
theory String_Util
  imports Yad_Errors
begin

text \<open>
  The string helpers of \<^verbatim>\<open>include/string_util.hpp\<close>. The in-place operations return the new buffer.
  \<^verbatim>\<open>std::isspace\<close> and the case tables are those of the C locale. The two branches of
  \<^verbatim>\<open>replace_all\<close> that differ only in first copying an aliased replacement are one branch here,
  where values have no addresses. \<open>subst_all\<close> is the reference both replacement loops are
  proved equal to.
\<close>

section \<open>Case tables and comparison\<close>

definition lower_table :: "char \<Rightarrow> char" where
  "lower_table c = (let i = of_char c :: nat in if 65 \<le> i \<and> i \<le> 90 then char_of (i + 32) else c)"

definition upper_table :: "char \<Rightarrow> char" where
  "upper_table c = (let i = of_char c :: nat in if 97 \<le> i \<and> i \<le> 122 then char_of (i - 32) else c)"

definition to_lower :: "string \<Rightarrow> string" where
  "to_lower buf = map lower_table buf"

definition to_upper :: "string \<Rightarrow> string" where
  "to_upper buf = map upper_table buf"

definition iequals :: "string \<Rightarrow> string \<Rightarrow> bool" where
  "iequals a b =
     (if length a \<noteq> length b then False
      else list_all (\<lambda>i. lower_table (a ! i) = lower_table (b ! i)) [0..<length a])"

definition icontains :: "string \<Rightarrow> string \<Rightarrow> bool" where
  "icontains haystack needle =
     (if length haystack < length needle then False
      else list_ex (\<lambda>start. list_all (\<lambda>i. lower_table (haystack ! (start + i)) = lower_table (needle ! i))
             [0..<length needle]) [0..<length haystack - length needle + 1])"

section \<open>Trimming\<close>

definition isspace :: "char \<Rightarrow> bool" where
  "isspace ch = (let i = of_char ch :: nat in i = 32 \<or> 9 \<le> i \<and> i \<le> 13)"

definition reverse_copy :: "string \<Rightarrow> string" where
  "reverse_copy str = rev str"

definition ltrim :: "string \<Rightarrow> string" where
  "ltrim sv = dropWhile isspace sv"

definition rtrim :: "string \<Rightarrow> string" where
  "rtrim sv = rev (dropWhile isspace (rev sv))"

definition trim :: "string \<Rightarrow> string" where
  "trim sv = ltrim (rtrim sv)"

section \<open>Replacement\<close>

function replace_loop :: "string \<Rightarrow> string \<Rightarrow> string \<Rightarrow> nat \<Rightarrow> string" where
  "replace_loop ts rs str from =
     (if ts = [] then str
      else case find_sub_from ts str from of
        None \<Rightarrow> str
      | Some p \<Rightarrow> replace_loop ts rs (take p str @ rs @ drop (p + length ts) str) (p + length rs))"
  by pat_completeness auto
termination
  by (relation "measure (\<lambda>(ts, rs, str, from). length str - from)")
     (auto simp: find_sub_from_def simp flip: length_greater_0_conv dest!: find_sub_SomeD)

declare replace_loop.simps [simp del]

fun replace :: "string \<Rightarrow> (string \<times> string) list \<Rightarrow> string" where
  "replace str [] = str"
| "replace str ((ts, rs) # rest) =
     replace (if ts = [] \<or> find_sub ts str = None then str else replace_loop ts rs str 0) rest"

function build_replaced :: "string \<Rightarrow> string \<Rightarrow> string \<Rightarrow> nat \<Rightarrow> string \<Rightarrow> string" where
  "build_replaced ts rs str lst res =
     (if ts = [] then res
      else case find_sub_from ts str lst of
        None \<Rightarrow> res @ drop lst str
      | Some p \<Rightarrow> build_replaced ts rs str (p + length ts) (res @ substr str lst (p - lst) @ rs))"
  by pat_completeness auto
termination
  by (relation "measure (\<lambda>(ts, rs, str, lst, res). length str - lst)")
     (auto simp: find_sub_from_def simp flip: length_greater_0_conv dest!: find_sub_SomeD)

declare build_replaced.simps [simp del]

definition replace_all :: "string \<Rightarrow> string \<Rightarrow> string \<Rightarrow> string" where
  "replace_all str ts rs =
     (if ts = [] then str
      else if length ts = length rs then replace_loop ts rs str 0
      else build_replaced ts rs str 0 [])"

definition replace_first :: "string \<Rightarrow> string \<Rightarrow> string \<Rightarrow> bool \<times> string" where
  "replace_first str ts rs =
     (if ts = [] then (False, str)
      else case find_sub ts str of
        None \<Rightarrow> (False, str)
      | Some pos \<Rightarrow> (True, take pos str @ rs @ drop (pos + length ts) str))"

section \<open>Split, join and queries\<close>

function split_parts :: "string \<Rightarrow> string \<Rightarrow> string list" where
  "split_parts sv delim =
     (if delim = [] then [sv]
      else case find_sub delim sv of
        None \<Rightarrow> [sv]
      | Some p \<Rightarrow> take p sv # split_parts (drop (p + length delim) sv) delim)"
  by pat_completeness auto
termination by (relation "measure (\<lambda>(sv, delim). length sv)") (auto simp flip: length_greater_0_conv dest!: find_sub_SomeD)

declare split_parts.simps [simp del]

definition split :: "string \<Rightarrow> string \<Rightarrow> string list result" where
  "split str delim =
     (if delim = [] then Inl InvalidArgument
      else Inr (filter (\<lambda>part. part \<noteq> []) (split_parts str delim)))"

fun join_loop :: "string list \<Rightarrow> string \<Rightarrow> bool \<Rightarrow> string \<Rightarrow> string" where
  "join_loop [] delim first res = res"
| "join_loop (part # parts) delim first res =
     join_loop parts delim False ((if first then res else res @ delim) @ part)"

definition join :: "string list \<Rightarrow> string \<Rightarrow> string" where
  "join parts delim = join_loop parts delim True []"

definition contains :: "string \<Rightarrow> string \<Rightarrow> bool" where
  "contains str sub = (find_sub sub str \<noteq> None)"

function count_from :: "string \<Rightarrow> string \<Rightarrow> nat \<Rightarrow> nat" where
  "count_from sv sub from =
     (if sub = [] then 0
      else case find_sub_from sub sv from of
        None \<Rightarrow> 0
      | Some pos \<Rightarrow> Suc (count_from sv sub (pos + length sub)))"
  by pat_completeness auto
termination
  by (relation "measure (\<lambda>(sv, sub, from). length sv - from)")
     (auto simp: find_sub_from_def simp flip: length_greater_0_conv dest!: find_sub_SomeD)

declare count_from.simps [simp del]

definition count_sub :: "string \<Rightarrow> string \<Rightarrow> nat" where
  "count_sub str sub = (if sub = [] then 0 else count_from str sub 0)"

definition str_to_bool :: "string \<Rightarrow> bool" where
  "str_to_bool s = (s = ''1'' \<or> s = ''on'' \<or> s = ''ON'' \<or> s = ''yes'' \<or> s = ''YES'' \<or> s = ''true'' \<or> s = ''TRUE'')"

section \<open>Facts the clients use\<close>

lemma of_char_lower: "of_char (lower_table c) = (let i = of_char c :: nat in if 65 \<le> i \<and> i \<le> 90 then i + 32 else i)"
  by (simp add: lower_table_def Let_def)

lemma lower_table_idem [simp]: "lower_table (lower_table c) = lower_table c"
proof (cases "65 \<le> (of_char c :: nat) \<and> of_char c \<le> (90 :: nat)")
  case True
  then have "of_char (lower_table c) = (of_char c + 32 :: nat)" by (simp add: of_char_lower)
  then show ?thesis using True by (simp add: lower_table_def [of "lower_table c"])
next
  case False
  then have "lower_table c = c" by (auto simp: lower_table_def Let_def)
  then show ?thesis by simp
qed

lemma to_lower_length [simp]: "length (to_lower s) = length s"
  by (simp add: to_lower_def)

lemma to_lower_append [simp]: "to_lower (s @ t) = to_lower s @ to_lower t"
  by (simp add: to_lower_def)

lemma to_lower_idem [simp]: "to_lower (to_lower s) = to_lower s"
  by (simp add: to_lower_def comp_def)

lemma iequals_iff: "iequals a b \<longleftrightarrow> to_lower a = to_lower b"
  unfolding iequals_def to_lower_def map_equality_iff list_all_upt by auto

lemma icontains_iff: "icontains h n \<longleftrightarrow> (\<exists>p s. to_lower h = p @ to_lower n @ s)"
proof
  assume "icontains h n"
  then obtain st where st: "st < length h - length n + 1" "length n \<le> length h"
    "\<forall>i<length n. lower_table (h ! (st + i)) = lower_table (n ! i)"
    unfolding icontains_def list_ex_upt list_all_upt by (auto simp: not_less split: if_splits)
  have "take (length n) (drop st (to_lower h)) = to_lower n"
    by (rule nth_equalityI) (use st in \<open>auto simp: to_lower_def\<close>)
  then show "\<exists>p s. to_lower h = p @ to_lower n @ s"
    by (metis append_take_drop_id)
next
  assume "\<exists>p s. to_lower h = p @ to_lower n @ s"
  then obtain p s where ps: "to_lower h = p @ to_lower n @ s" by blast
  then have len: "length h = length p + length n + length s"
    by (metis add.assoc length_append to_lower_length)
  have "lower_table (h ! (length p + i)) = lower_table (n ! i)" if "i < length n" for i
  proof -
    have "lower_table (h ! (length p + i)) = to_lower h ! (length p + i)"
      using that len by (simp add: to_lower_def)
    also have "\<dots> = lower_table (n ! i)"
      using that by (simp add: ps nth_append) (simp add: to_lower_def)
    finally show ?thesis .
  qed
  with len show "icontains h n"
    unfolding icontains_def list_ex_upt list_all_upt by (auto intro!: exI [of _ "length p"])
qed

text \<open>The reference for replacing every occurrence, from the left and without overlap.\<close>

function subst_all :: "string \<Rightarrow> string \<Rightarrow> string \<Rightarrow> string" where
  "subst_all ts rs str =
     (if ts = [] then str
      else case find_sub ts str of
        None \<Rightarrow> str
      | Some p \<Rightarrow> take p str @ rs @ subst_all ts rs (drop (p + length ts) str))"
  by pat_completeness auto
termination by (relation "measure (\<lambda>(ts, rs, str). length str)") (auto simp flip: length_greater_0_conv dest!: find_sub_SomeD)

declare subst_all.simps [simp del]

lemma replace_loop_subst:
  "from \<le> length str \<Longrightarrow> replace_loop ts rs str from = take from str @ subst_all ts rs (drop from str)"
proof (induction ts rs str "from" rule: replace_loop.induct)
  case (1 ts rs str "from")
  show ?case
  proof (cases "ts = [] \<or> find_sub ts (drop from str) = None")
    case True
    then show ?thesis
      by (subst replace_loop.simps, subst subst_all.simps) (auto simp: find_sub_from_def)
  next
    case False
    then obtain q where q: "find_sub ts (drop from str) = Some q" and ts: "ts \<noteq> []" by auto
    let ?str = "take (from + q) str @ rs @ drop (from + q + length ts) str"
    have b: "from + q + length ts \<le> length str" using find_sub_SomeD [OF q] 1(2) ts by (cases ts) auto
    have "replace_loop ts rs str from = replace_loop ts rs ?str (from + q + length rs)"
      using q ts by (subst replace_loop.simps) (simp add: find_sub_from_def)
    also have "\<dots> = take (from + q) str @ rs @ subst_all ts rs (drop (from + q + length ts) str)"
      using 1(1) [OF ts, of "from + q"] q b by (simp add: find_sub_from_def)
    also have "\<dots> = take from str @ take q (drop from str) @ rs @ subst_all ts rs (drop (q + length ts) (drop from str))"
      by (simp add: take_add add.commute add.left_commute)
    also have "\<dots> = take from str @ subst_all ts rs (drop from str)"
      using q ts by (subst (2) subst_all.simps) simp
    finally show ?thesis .
  qed
qed

lemma build_replaced_subst:
  "lst \<le> length str \<Longrightarrow> ts \<noteq> [] \<Longrightarrow> build_replaced ts rs str lst res = res @ subst_all ts rs (drop lst str)"
proof (induction ts rs str lst res rule: build_replaced.induct)
  case (1 ts rs str lst res)
  show ?case
  proof (cases "find_sub ts (drop lst str)")
    case None
    with 1 show ?thesis
      by (subst build_replaced.simps, subst subst_all.simps) (auto simp: find_sub_from_def)
  next
    case (Some q)
    have b: "lst + q + length ts \<le> length str" using find_sub_SomeD [OF Some] 1(2,3) by (cases ts) auto
    have "build_replaced ts rs str lst res =
        build_replaced ts rs str (lst + q + length ts) (res @ substr str lst q @ rs)"
      using Some 1(3) by (subst build_replaced.simps) (simp add: find_sub_from_def)
    also have "\<dots> = res @ substr str lst q @ rs @ subst_all ts rs (drop (lst + q + length ts) str)"
      using 1(1) [OF 1(3), of "lst + q"] Some b 1(3) by (simp add: find_sub_from_def)
    also have "\<dots> = res @ subst_all ts rs (drop lst str)"
      using Some 1(3) by (subst (2) subst_all.simps) (simp add: substr_def ac_simps)
    finally show ?thesis .
  qed
qed

lemma replace_all_subst: "replace_all str ts rs = subst_all ts rs str"
  by (simp add: replace_all_def replace_loop_subst build_replaced_subst)
     (simp add: subst_all.simps)

lemma replace_fold: "replace str ps = foldl (\<lambda>s (ts, rs). subst_all ts rs s) str ps"
proof (induction ps arbitrary: str)
  case (Cons p ps)
  obtain ts rs where "p = (ts, rs)" by force
  moreover have "(if ts = [] \<or> find_sub ts str = None then str else replace_loop ts rs str 0) = subst_all ts rs str"
    by (auto simp: replace_loop_subst subst_all.simps [of ts rs str])
  ultimately show ?case using Cons.IH by simp
qed simp

lemma subst_all_id: "find_sub ts str = None \<Longrightarrow> subst_all ts rs str = str"
  by (subst subst_all.simps) simp

section \<open>Splitting undoes joining\<close>

lemma join_loop_spec: "join_loop parts delim False res = res @ concat (map (\<lambda>p. delim @ p) parts)"
  by (induction parts arbitrary: res) simp_all

lemma join_Cons: "join (p # ps) delim = p @ concat (map (\<lambda>p. delim @ p) ps)"
  by (simp add: join_def join_loop_spec)

lemma find_sub_single: "find_sub [c] s = find_elem c s"
  by (induction s) auto

lemma append_single: "(@) [c] = (#) c"
  by auto

lemma split_parts_single:
  "\<forall>p\<in>set (p # ps). c \<notin> set p \<Longrightarrow> split_parts (p @ concat (map ((#) c) ps)) [c] = p # ps"
proof (induction ps arbitrary: p)
  case Nil
  then have "find_elem c p = None" by (simp add: find_elem_None_iff)
  then show ?case by (subst split_parts.simps) (simp add: find_sub_single)
next
  case (Cons q ps)
  then show ?case by (subst split_parts.simps) (simp add: find_sub_single)
qed

lemma split_join:
  assumes "\<forall>p\<in>set parts. p \<noteq> [] \<and> c \<notin> set p"
  shows "split (join parts [c]) [c] = Inr parts"
proof (cases parts)
  case Nil
  then show ?thesis by (simp add: split_def join_def split_parts.simps)
next
  case (Cons p ps)
  then have "split_parts (join parts [c]) [c] = p # ps"
    using assms split_parts_single [of p ps c] by (simp add: join_Cons append_single)
  with assms Cons show ?thesis by (simp add: split_def)
qed


section \<open>Properties\<close>

text \<open>\<open>replace_all\<close> replaces every occurrence, scanning from the left: its in-place loop for
  equal lengths and its rebuilding loop for the others both compute the reference \<open>subst_all\<close>.\<close>

theorem replace_all_is_subst_all: "replace_all str ts rs = subst_all ts rs str"
  by (rule replace_all_subst)

text \<open>Splitting at a one-character delimiter undoes joining with it, for parts that are not
  empty and do not contain the delimiter.\<close>

theorem split_undoes_join:
  assumes "\<forall>p\<in>set parts. p \<noteq> [] \<and> c \<notin> set p"
  shows "split (join parts [c]) [c] = Inr parts"
  using assms by (rule split_join)

theorem split_undoes_join_witness:
  "split (join [''a'', ''bc'', ''d''] '','') '','' = Inr [''a'', ''bc'', ''d'']"
  using split_undoes_join [of "[''a'', ''bc'', ''d'']" "CHR '',''"] by simp

text \<open>The table-driven comparisons agree with comparing lower-cased copies: \<open>iequals\<close> is
  equality of them, and \<open>icontains\<close> says that one occurs in the other.\<close>

theorem case_insensitive_comparisons:
  "(iequals a b \<longleftrightarrow> to_lower a = to_lower b) \<and>
   (icontains h n \<longleftrightarrow> (\<exists>p s. to_lower h = p @ to_lower n @ s))"
  by (simp add: iequals_iff icontains_iff)

end
