(* ===== verification/Uri_Model.thy ===== *)
theory Uri_Model
  imports String_Util Inet_Address
begin

text \<open>
  The URI parser (\<^verbatim>\<open>include/uri.h\<close>, \<^verbatim>\<open>src/network/uri.cpp\<close>). As in the code only the raw text owns
  characters and every component is a slice of it; scheme and host are lower-cased inside the raw
  text. The accessors take the slice's \<open>substr\<close>; that no slice leaves the text is proved, so the
  bounds check of \<^verbatim>\<open>string_view::substr\<close> never fires. \<open>get_port\<close> and \<open>get_origin\<close> dereference
  the optional port, which is undefined when it is empty.
\<close>

section \<open>Data\<close>

record slice =
  sl_pos :: nat
  sl_len :: nat

definition slice_view :: "slice \<Rightarrow> string \<Rightarrow> string" where
  "slice_view sl s = substr s (sl_pos sl) (sl_len sl)"

abbreviation mk_slice :: "nat \<Rightarrow> nat \<Rightarrow> slice" where
  "mk_slice p l \<equiv> \<lparr>sl_pos = p, sl_len = l\<rparr>"

record uri =
  raw_uri :: string
  schema_sl :: slice
  host_sl :: slice
  is_ipv6 :: bool
  uri_port :: "int option"
  path_sl :: slice
  query_sl :: slice
  body_sl :: slice

definition empty_uri :: uri where
  "empty_uri = \<lparr>raw_uri = [], schema_sl = mk_slice 0 0, host_sl = mk_slice 0 0, is_ipv6 = False, uri_port = None,
     path_sl = mk_slice 0 0, query_sl = mk_slice 0 0, body_sl = mk_slice 0 0\<rparr>"

definition lookup_default_port :: "string \<Rightarrow> int" where
  "lookup_default_port scheme =
     (if scheme = ''http'' then 80 else if scheme = ''https'' then 443 else if scheme = ''tls'' then 853 else 0)"

definition is_default_port :: "string \<Rightarrow> int \<Rightarrow> bool" where
  "is_default_port scheme port =
     ((scheme = ''http'' \<and> port = 80) \<or> (scheme = ''https'' \<and> port = 443) \<or> (scheme = ''tls'' \<and> port = 853))"

definition lowercase_range :: "string \<Rightarrow> nat \<Rightarrow> nat \<Rightarrow> string" where
  "lowercase_range s pos len = take pos s @ to_lower (substr s pos len) @ drop (pos + len) s"

section \<open>Parsing\<close>

definition parse_port :: "string \<Rightarrow> int option" where
  "parse_port port_str = (if port_str = [] then None else map_option fst (from_chars_int port_str))"

definition parse_authority :: "inet_lib \<Rightarrow> string \<Rightarrow> nat \<Rightarrow> (slice \<times> int option \<times> bool) result" where
  "parse_authority lib auth auth_raw_offset =
     (if auth = [] then Inr (mk_slice 0 0, None, False)
      else if hd auth = CHR ''['' then
        (case find_elem (CHR '']'') auth of
           None \<Rightarrow> Inl RuntimeError
         | Some closing \<Rightarrow>
             Inr (mk_slice (auth_raw_offset + 1) (closing - 1),
                  (if closing + 1 < length auth \<and> auth ! (closing + 1) = CHR '':''
                   then parse_port (drop (closing + 2) auth) else None),
                  True))
      else if CHR '':'' \<in> set auth \<and> inet6_parse lib auth \<noteq> None then
        Inr (mk_slice auth_raw_offset (length auth), None, True)
      else case rfind_elem (CHR '':'') auth of
        Some colon \<Rightarrow> Inr (mk_slice auth_raw_offset colon, parse_port (drop (colon + 1) auth), False)
      | None \<Rightarrow> Inr (mk_slice auth_raw_offset (length auth), None, False))"

definition strip_fragment :: "string \<Rightarrow> string" where
  "strip_fragment s = (case find_elem (CHR ''#'') s of Some p \<Rightarrow> take p s | None \<Rightarrow> s)"

definition path_only :: "string \<Rightarrow> bool" where
  "path_only u = (u \<noteq> [] \<and> (hd u = CHR ''/'' \<or> hd u = CHR ''.''))"

definition detect_scheme :: "string \<Rightarrow> string \<Rightarrow> bool \<times> nat \<times> string \<times> slice \<times> slice" where
  "detect_scheme s u =
     (case find_sub ''://'' u of
        Some d \<Rightarrow>
          if 0 < d then (True, d + 3, lowercase_range s 0 d, mk_slice 0 d, mk_slice (d + 3) (length u - (d + 3)))
          else (False, 0, s, mk_slice 0 0, mk_slice 0 (length u))
      | None \<Rightarrow> (False, 0, s, mk_slice 0 0, mk_slice 0 (length u)))"

definition authority_end :: "string \<Rightarrow> nat option \<Rightarrow> nat option \<Rightarrow> nat" where
  "authority_end u path_pos query_pos =
     (let e = length u;
          e = (case path_pos of Some p \<Rightarrow> min e p | None \<Rightarrow> e)
      in case query_pos of Some q \<Rightarrow> min e q | None \<Rightarrow> e)"

definition path_slice :: "string \<Rightarrow> nat option \<Rightarrow> nat option \<Rightarrow> slice" where
  "path_slice u path_pos query_pos =
     (case path_pos of
        None \<Rightarrow> mk_slice 0 0
      | Some p \<Rightarrow>
          (case query_pos of
             None \<Rightarrow> mk_slice p (length u - p)
           | Some q \<Rightarrow> if p < q then mk_slice p (q - p) else mk_slice 0 0))"

definition query_slice :: "string \<Rightarrow> nat option \<Rightarrow> slice" where
  "query_slice u query_pos =
     (case query_pos of None \<Rightarrow> mk_slice 0 0 | Some q \<Rightarrow> mk_slice (q + 1) (length u - q - 1))"

definition uri_parse :: "inet_lib \<Rightarrow> string \<Rightarrow> uri result" where
  "uri_parse lib s =
     (if s = [] then Inr empty_uri
      else
        let u = strip_fragment s;
            (has_scheme, authority_start, raw, schema, body) = detect_scheme s u;
            query_pos = find_elem_from (CHR ''?'') u authority_start;
            path_pos = find_elem_from (CHR ''/'') u authority_start;
            res = empty_uri\<lparr>raw_uri := raw, schema_sl := schema, body_sl := body\<rparr>
        in if \<not> has_scheme \<and> path_only u then Inr (res\<lparr>path_sl := mk_slice 0 (length u)\<rparr>)
           else
             bindE (parse_authority lib
                      (substr u authority_start (authority_end u path_pos query_pos - authority_start)) authority_start)
               (\<lambda>(host, port, ipv6).
                 let raw = (if sl_len host \<noteq> 0 then lowercase_range raw (sl_pos host) (sl_len host) else raw);
                     port = (case port of Some v \<Rightarrow> v
                             | None \<Rightarrow> if has_scheme then lookup_default_port (slice_view schema raw) else 0)
                 in Inr (res\<lparr>raw_uri := raw, host_sl := host, is_ipv6 := ipv6, uri_port := Some port,
                             path_sl := path_slice u path_pos query_pos, query_sl := query_slice u query_pos\<rparr>)))"

section \<open>Accessors\<close>

definition get_schema :: "uri \<Rightarrow> string" where
  "get_schema u = slice_view (schema_sl u) (raw_uri u)"

definition get_host :: "uri \<Rightarrow> string" where
  "get_host u = slice_view (host_sl u) (raw_uri u)"

definition get_host_literal :: "uri \<Rightarrow> string" where
  "get_host_literal u = (if is_ipv6 u then ''['' @ get_host u @ '']'' else get_host u)"

definition get_port :: "uri \<Rightarrow> int result" where
  "get_port u = (case uri_port u of None \<Rightarrow> Inl OutOfBounds | Some p \<Rightarrow> Inr p)"

definition get_path :: "uri \<Rightarrow> string" where
  "get_path u =
     (if sl_len (path_sl u) = 0 then (if sl_len (schema_sl u) = 0 then [] else ''/'')
      else slice_view (path_sl u) (raw_uri u))"

definition get_query_string :: "uri \<Rightarrow> string" where
  "get_query_string u = slice_view (query_sl u) (raw_uri u)"

definition get_body :: "uri \<Rightarrow> string" where
  "get_body u = slice_view (body_sl u) (raw_uri u)"

definition int_string :: "int \<Rightarrow> string" where
  "int_string i = (if i < 0 then CHR ''-'' # dec_string (nat (- i)) else dec_string (nat i))"

definition get_origin :: "uri \<Rightarrow> string result" where
  "get_origin u =
     bindE (get_port u) (\<lambda>port.
     Inr (if get_schema u = []
          then (if port \<noteq> 0 then get_host_literal u @ '':'' @ int_string port else get_host_literal u)
          else if is_default_port (get_schema u) port then get_schema u @ ''://'' @ get_host_literal u
          else get_schema u @ ''://'' @ get_host_literal u @ '':'' @ int_string port))"

section \<open>Percent encoding\<close>

definition isalnum :: "char \<Rightarrow> bool" where
  "isalnum c = (let i = of_char c :: nat in 48 \<le> i \<and> i \<le> 57 \<or> 65 \<le> i \<and> i \<le> 90 \<or> 97 \<le> i \<and> i \<le> 122)"

definition unreserved :: "char \<Rightarrow> bool" where
  "unreserved c = (isalnum c \<or> c = CHR ''-'' \<or> c = CHR ''.'' \<or> c = CHR ''_'' \<or> c = CHR ''~'')"

definition HEX_CHARS :: "nat \<Rightarrow> char" where
  "HEX_CHARS n = ''0123456789ABCDEF'' ! n"

fun url_encode :: "string \<Rightarrow> bool \<Rightarrow> string" where
  "url_encode [] encode_slash = []"
| "url_encode (c # cs) encode_slash =
     (if unreserved c then [c]
      else if c = CHR ''/'' \<and> \<not> encode_slash then [c]
      else [CHR ''%'', HEX_CHARS (of_char c div 16), HEX_CHARS (of_char c mod 16)]) @ url_encode cs encode_slash"

definition hex_val :: "char \<Rightarrow> nat option" where
  "hex_val c =
     (let i = of_char c :: nat in
      if 48 \<le> i \<and> i \<le> 57 then Some (i - 48)
      else if 65 \<le> i \<and> i \<le> 70 then Some (i - 55)
      else if 97 \<le> i \<and> i \<le> 102 then Some (i - 87)
      else None)"

definition from_chars_hex2 :: "char \<Rightarrow> char \<Rightarrow> nat option" where
  "from_chars_hex2 a b =
     (case hex_val a of
        None \<Rightarrow> None
      | Some x \<Rightarrow> (case hex_val b of None \<Rightarrow> Some x | Some y \<Rightarrow> Some (x * 16 + y)))"

fun url_decode :: "string \<Rightarrow> string" where
  "url_decode (c # a # b # r) =
     (case (if c = CHR ''%'' then from_chars_hex2 a b else None) of
        Some v \<Rightarrow> char_of v # url_decode r
      | None \<Rightarrow> c # url_decode (a # b # r))"
| "url_decode (c # r) = c # url_decode r"
| "url_decode [] = []"

definition decode_query :: "bool \<Rightarrow> string \<Rightarrow> string" where
  "decode_query plus_to_space s =
     (let decoded = url_decode s in
      if plus_to_space then map (\<lambda>ch. if ch = CHR ''+'' then CHR '' '' else ch) decoded else decoded)"

definition query_segment :: "bool \<Rightarrow> string \<Rightarrow> (string \<times> string) list" where
  "query_segment plus_to_space segment =
     (if segment = [] then []
      else
        let (key_view, value_view) =
              (case find_elem (CHR ''='') segment of
                 None \<Rightarrow> (segment, [])
               | Some eq_pos \<Rightarrow> (take eq_pos segment, drop (eq_pos + 1) segment))
        in [(decode_query plus_to_space key_view, decode_query plus_to_space value_view)])"

function query_params_from :: "string \<Rightarrow> nat \<Rightarrow> bool \<Rightarrow> (string \<times> string) list" where
  "query_params_from qs start plus_to_space =
     (if start < length qs then
        (case find_elem_from (CHR ''&'') qs start of
           None \<Rightarrow> query_segment plus_to_space (drop start qs)
         | Some e \<Rightarrow> query_segment plus_to_space (substr qs start (e - start)) @
             query_params_from qs (e + 1) plus_to_space)
      else [])"
  by pat_completeness auto
termination
  by (relation "measure (\<lambda>(qs, start, b). length qs - start)") (auto simp: find_elem_from_def)

declare query_params_from.simps [simp del]

definition get_query_params :: "uri \<Rightarrow> bool \<Rightarrow> (string \<times> string) list" where
  "get_query_params u plus_to_space =
     (if sl_len (query_sl u) = 0 then [] else query_params_from (get_query_string u) 0 plus_to_space)"

section \<open>Decoding undoes encoding\<close>

lemma url_decode_plain: "c \<noteq> CHR ''%'' \<Longrightarrow> url_decode (c # r) = c # url_decode r"
  by (cases "c # r" rule: url_decode.cases) auto

lemma url_decode_hex: "from_chars_hex2 a b = Some v \<Longrightarrow> url_decode (CHR ''%'' # a # b # r) = char_of v # url_decode r"
  by simp

lemma hex_val_HEX: "n < 16 \<Longrightarrow> hex_val (HEX_CHARS n) = Some n"
proof -
  assume "n < 16"
  then have "n \<in> set [0..<16]" by simp
  moreover have "list_all (\<lambda>n. hex_val (HEX_CHARS n) = Some n) [0..<16]" by code_simp
  ultimately show ?thesis unfolding list_all_iff by blast
qed

lemma of_char_split: "(of_char c :: nat) div 16 < 16" "(of_char c :: nat) mod 16 < 16"
  using of_char_less_256 [of c] by (simp_all add: less_mult_imp_div_less)

lemma from_chars_hex2_HEX:
  "from_chars_hex2 (HEX_CHARS (of_char c div 16)) (HEX_CHARS (of_char c mod 16)) = Some (of_char c)"
  by (simp add: from_chars_hex2_def hex_val_HEX of_char_split)

lemma unreserved_not_percent: "unreserved c \<Longrightarrow> c \<noteq> CHR ''%''"
  by (auto simp: unreserved_def isalnum_def)

lemma url_decode_encode: "url_decode (url_encode s encode_slash) = s"
proof (induction s)
  case (Cons c s)
  then show ?case
    by (cases "unreserved c \<or> c = CHR ''/'' \<and> \<not> encode_slash")
       (auto simp: url_decode_plain url_decode_hex from_chars_hex2_HEX dest: unreserved_not_percent
        simp del: url_decode.simps(1,2))
qed simp

section \<open>Slices stay in the text\<close>

definition slice_in :: "string \<Rightarrow> slice \<Rightarrow> bool" where
  "slice_in s sl \<longleftrightarrow> sl_pos sl + sl_len sl \<le> length s"

definition uri_wf :: "uri \<Rightarrow> bool" where
  "uri_wf u \<longleftrightarrow> list_all (slice_in (raw_uri u)) [schema_sl u, host_sl u, path_sl u, query_sl u, body_sl u]"

lemma lowercase_range_length [simp]: "pos + len \<le> length s \<Longrightarrow> length (lowercase_range s pos len) = length s"
  by (simp add: lowercase_range_def substr_def)

lemma strip_fragment_length: "length (strip_fragment s) \<le> length s"
  by (simp add: strip_fragment_def split: option.splits)

lemma find_elem_from_bounds: "find_elem_from c s p = Some q \<Longrightarrow> p \<le> q \<and> q < length s"
  by (auto simp: find_elem_from_def dest!: find_elem_SomeD)

lemma parse_authority_slice:
  "parse_authority lib auth off = Inr (host, port, v6) \<Longrightarrow>
   sl_len host = 0 \<and> sl_pos host = 0 \<or> off \<le> sl_pos host \<and> sl_pos host + sl_len host \<le> off + length auth"
  by (auto simp: parse_authority_def split: if_splits option.splits dest!: find_elem_SomeD rfind_elem_SomeD)

lemma parse_authority_error: "parse_authority lib auth off = Inl e \<Longrightarrow> e = RuntimeError"
  by (auto simp: parse_authority_def split: if_splits option.splits)

lemma detect_scheme_wf:
  assumes "detect_scheme s u = (hs, st, raw, schema, body)" "length u \<le> length s"
  shows "length raw = length s \<and> st \<le> length u \<and> slice_in raw schema \<and> slice_in raw body"
  using assms by (auto simp: detect_scheme_def slice_in_def split: option.splits if_splits dest!: find_sub_SomeD)

lemma authority_end_le: "authority_end u p q \<le> length u"
  by (auto simp: authority_end_def Let_def split: option.splits)

lemma uri_parse_wf:
  assumes "uri_parse lib s = Inr u" shows "uri_wf u"
proof (cases "s = []")
  case True
  with assms show ?thesis by (auto simp: uri_parse_def empty_uri_def uri_wf_def slice_in_def)
next
  case False
  define t where "t = strip_fragment s"
  obtain hs st raw schema body where d: "detect_scheme s t = (hs, st, raw, schema, body)"
    by (metis prod_cases5)
  have t: "length t \<le> length s" by (simp add: t_def strip_fragment_length)
  note wf = detect_scheme_wf [OF d t]
  define qp where "qp = find_elem_from (CHR ''?'') t st"
  define pp where "pp = find_elem_from (CHR ''/'') t st"
  let ?auth = "substr t st (authority_end t pp qp - st)"
  have sl: "slice_in s' (path_slice t pp qp)" "slice_in s' (query_slice t qp)" if "length s' = length s" for s' :: string
    using that t find_elem_from_bounds [of "CHR ''?''" t st] find_elem_from_bounds [of "CHR ''/''" t st]
    by (auto simp: slice_in_def path_slice_def query_slice_def qp_def pp_def split: option.splits)
  have alen: "st + length ?auth \<le> length s"
    using wf t authority_end_le [of t pp qp] by (auto simp: substr_def)
  show ?thesis
  proof (cases "\<not> hs \<and> path_only t")
    case True
    with assms False d wf t show ?thesis
      by (simp add: uri_parse_def t_def [symmetric] Let_def uri_wf_def slice_in_def empty_uri_def)
        (auto simp: slice_in_def)
  next
    case path: False
    obtain host port v6 where a: "parse_authority lib ?auth st = Inr (host, port, v6)"
      and u: "raw_uri u = (if sl_len host \<noteq> 0 then lowercase_range raw (sl_pos host) (sl_len host) else raw)"
        "schema_sl u = schema" "host_sl u = host" "path_sl u = path_slice t pp qp" "query_sl u = query_slice t qp"
        "body_sl u = body"
      using assms False d path
      by (auto simp: uri_parse_def t_def [symmetric] qp_def [symmetric] pp_def [symmetric] Let_def)
    have h: "sl_pos host + sl_len host \<le> length raw"
      using parse_authority_slice [OF a] alen wf by auto
    then have "length (raw_uri u) = length s" using wf by (simp add: u)
    with h wf sl [of "raw_uri u"] show ?thesis
      by (simp add: uri_wf_def u) (simp add: slice_in_def u)
  qed
qed

lemma uri_parse_error: "uri_parse lib s = Inl e \<Longrightarrow> e = RuntimeError"
  by (auto simp: uri_parse_def Let_def bindE_eq_Inl_iff split: if_splits prod.splits dest: parse_authority_error)

text \<open>Inputs for which the code leaves the port unset: the empty text, and a path without a scheme.\<close>

definition no_authority :: "string \<Rightarrow> bool" where
  "no_authority s = (s = [] \<or> (find_sub ''://'' (strip_fragment s) \<in> {None, Some 0} \<and> path_only (strip_fragment s)))"

lemma detect_scheme_has:
  "detect_scheme s u = (hs, st, raw, schema, body) \<Longrightarrow> hs \<longleftrightarrow> find_sub ''://'' u \<notin> {None, Some 0}"
  by (auto simp: detect_scheme_def split: option.splits if_splits)

lemma uri_port_None_iff:
  assumes "uri_parse lib s = Inr u" shows "uri_port u = None \<longleftrightarrow> no_authority s"
proof (cases "s = []")
  case True
  with assms show ?thesis by (auto simp: uri_parse_def no_authority_def empty_uri_def)
next
  case False
  obtain hs st raw schema body where d: "detect_scheme s (strip_fragment s) = (hs, st, raw, schema, body)"
    by (metis prod_cases5)
  have "no_authority s \<longleftrightarrow> \<not> hs \<and> path_only (strip_fragment s)"
    using False detect_scheme_has [OF d] by (simp add: no_authority_def)
  moreover have "uri_port u = None \<longleftrightarrow> \<not> hs \<and> path_only (strip_fragment s)"
    using assms False d
    by (cases "\<not> hs \<and> path_only (strip_fragment s)") (auto simp: uri_parse_def empty_uri_def Let_def)
  ultimately show ?thesis by simp
qed

lemma uri_port_None_bare:
  assumes "uri_parse lib s = Inr u" "uri_port u = None" shows "get_host u = [] \<and> get_schema u = []"
proof (cases "s = []")
  case True
  with assms show ?thesis
    by (auto simp: uri_parse_def empty_uri_def get_host_def get_schema_def slice_view_def substr_def)
next
  case False
  obtain hs st raw schema body where d: "detect_scheme s (strip_fragment s) = (hs, st, raw, schema, body)"
    by (metis prod_cases5)
  have p: "\<not> hs" "path_only (strip_fragment s)"
    using uri_port_None_iff [OF assms(1)] assms(2) False detect_scheme_has [OF d] by (auto simp: no_authority_def)
  then have "sl_len schema = 0" using d by (auto simp: detect_scheme_def split: option.splits if_splits)
  then show ?thesis
    using assms(1) False d p
    by (auto simp: uri_parse_def empty_uri_def Let_def get_host_def get_schema_def slice_view_def substr_def)
qed

section \<open>Properties\<close>

text \<open>\<open>url_decode\<close> undoes \<open>url_encode\<close> on every string, with or without encoded slashes.\<close>

theorem url_encode_round_trip: "url_decode (url_encode s encode_slash) = s"
  by (rule url_decode_encode)

text \<open>C37. Parsing never leaves the text: for every input \<open>uri_parse\<close> returns a URI all of whose
  slices lie in its raw text, or throws the runtime error of an unclosed bracket.\<close>

theorem uri_parse_total_and_in_bounds:
  "case uri_parse lib s of Inl e \<Rightarrow> e = RuntimeError | Inr u \<Rightarrow> uri_wf u"
  using uri_parse_wf [of lib s] uri_parse_error [of lib s] by (auto split: sum.split)

text \<open>After a successful parse the port is populated, and \<open>get_port\<close> and \<open>get_origin\<close> are
  defined, exactly when the input is neither empty nor a bare path.\<close>

theorem uri_port_populated:
  assumes "uri_parse lib s = Inr u"
  shows "((\<exists>p. get_port u = Inr p) \<longleftrightarrow> \<not> no_authority s) \<and> ((\<exists>o'. get_origin u = Inr o') \<longleftrightarrow> \<not> no_authority s)"
  using uri_port_None_iff [OF assms] by (auto simp: get_port_def get_origin_def split: option.splits)

theorem uri_port_populated_witness:
  "\<exists>u. uri_parse letters_lib ''http://h/x'' = Inr u \<and> (\<exists>p. get_port u = Inr p)"
proof -
  have "(case uri_parse letters_lib ''http://h/x'' of Inl _ \<Rightarrow> False | Inr u \<Rightarrow> \<not> no_authority ''http://h/x'')"
    by code_simp
  then obtain u where "uri_parse letters_lib ''http://h/x'' = Inr u" "\<not> no_authority ''http://h/x''"
    by (auto split: sum.splits)
  with uri_port_populated [OF this(1)] show ?thesis by blast
qed

end
