(* ===== verification/Domain_Regex.thy ===== *)
theory Domain_Regex
  imports Uri_Model Parser_Lemmas
begin

text \<open>
  The domain-name check (\<^verbatim>\<open>src/util/validation.hpp\<close>). \<^verbatim>\<open>std::regex_match\<close> is modelled by an
  executable matcher on regular expressions that takes derivatives and is proved to decide the
  language of the expression; \<open>DOMAIN_REGEX\<close> transcribes the pattern of the code term by term, its
  character classes widened to both cases as \<^verbatim>\<open>std::regex::icase\<close> does.
\<close>

section \<open>Regular expressions\<close>

datatype rx = Zero | One | Chr "char \<Rightarrow> bool" | Alt rx rx | Seq rx rx | Star rx

fun rx_lang :: "rx \<Rightarrow> string set" where
  "rx_lang Zero = {}"
| "rx_lang One = {[]}"
| "rx_lang (Chr p) = {[c] | c. p c}"
| "rx_lang (Alt r s) = rx_lang r \<union> rx_lang s"
| "rx_lang (Seq r s) = {u @ v | u v. u \<in> rx_lang r \<and> v \<in> rx_lang s}"
| "rx_lang (Star r) = {concat us | us. set us \<subseteq> rx_lang r}"

fun nullable :: "rx \<Rightarrow> bool" where
  "nullable Zero = False"
| "nullable One = True"
| "nullable (Chr p) = False"
| "nullable (Alt r s) = (nullable r \<or> nullable s)"
| "nullable (Seq r s) = (nullable r \<and> nullable s)"
| "nullable (Star r) = True"

fun deriv :: "char \<Rightarrow> rx \<Rightarrow> rx" where
  "deriv c Zero = Zero"
| "deriv c One = Zero"
| "deriv c (Chr p) = (if p c then One else Zero)"
| "deriv c (Alt r s) = Alt (deriv c r) (deriv c s)"
| "deriv c (Seq r s) =
     (if nullable r then Alt (Seq (deriv c r) s) (deriv c s) else Seq (deriv c r) s)"
| "deriv c (Star r) = Seq (deriv c r) (Star r)"

definition regex_match :: "rx \<Rightarrow> string \<Rightarrow> bool" where
  "regex_match r s = nullable (foldl (\<lambda>r c. deriv c r) r s)"

fun rx_string :: "string \<Rightarrow> rx" where
  "rx_string [] = One"
| "rx_string (c # cs) = Seq (Chr (\<lambda>d. lower_table d = lower_table c)) (rx_string cs)"

fun rx_upto :: "rx \<Rightarrow> nat \<Rightarrow> rx" where
  "rx_upto r 0 = One"
| "rx_upto r (Suc n) = Alt One (Seq r (rx_upto r n))"

definition rx_opt :: "rx \<Rightarrow> rx" where
  "rx_opt r = Alt One r"

definition rx_plus :: "rx \<Rightarrow> rx" where
  "rx_plus r = Seq r (Star r)"

section \<open>The pattern of the code\<close>

definition isalpha :: "char \<Rightarrow> bool" where
  "isalpha c = (isalnum c \<and> \<not> is_digit c)"

definition rx_alnum :: rx where
  "rx_alnum = Chr isalnum"

definition rx_ldh :: rx where
  "rx_ldh = Chr (\<lambda>c. isalnum c \<or> c = CHR ''-'')"

definition rx_dot :: rx where
  "rx_dot = Chr (\<lambda>c. c = CHR ''.'')"

definition rx_label :: rx where
  "rx_label = Seq rx_alnum (rx_opt (Seq (rx_upto rx_ldh 61) rx_alnum))"

definition rx_tld :: rx where
  "rx_tld = Alt (Seq (Chr isalpha) (Seq (Chr isalpha) (Star (Chr isalpha))))
     (Seq (rx_string ''xn--'') (Seq rx_alnum (rx_opt (Seq (rx_upto rx_ldh 59) rx_alnum))))"

definition DOMAIN_REGEX :: rx where
  "DOMAIN_REGEX = Seq (rx_plus (Seq rx_label rx_dot)) (Seq rx_tld (rx_opt rx_dot))"

definition is_valid_domain :: "string \<Rightarrow> bool" where
  "is_valid_domain domain =
     (if 253 < length domain then False
      else if CHR ''.'' \<in> set domain then regex_match DOMAIN_REGEX domain
      else False)"

section \<open>The matcher decides the language\<close>

lemma nullable_iff: "nullable r \<longleftrightarrow> [] \<in> rx_lang r"
  by (induction r) (auto intro: exI [of _ "[]"])

lemma star_Cons:
  "c # s \<in> rx_lang (Star r) \<longleftrightarrow> (\<exists>u v. s = u @ v \<and> c # u \<in> rx_lang r \<and> v \<in> rx_lang (Star r))"
proof
  assume "c # s \<in> rx_lang (Star r)"
  then obtain us where us: "c # s = concat us" "set us \<subseteq> rx_lang r" by auto
  then show "\<exists>u v. s = u @ v \<and> c # u \<in> rx_lang r \<and> v \<in> rx_lang (Star r)"
  proof (induction us)
    case (Cons w us)
    then show ?case by (cases w) auto
  qed simp
next
  assume "\<exists>u v. s = u @ v \<and> c # u \<in> rx_lang r \<and> v \<in> rx_lang (Star r)"
  then obtain u us where "s = u @ concat us" "c # u \<in> rx_lang r" "set us \<subseteq> rx_lang r" by auto
  then show "c # s \<in> rx_lang (Star r)" by (auto intro!: exI [of _ "(c # u) # us"])
qed

lemma seq_Cons:
  "c # s \<in> rx_lang (Seq r t) \<longleftrightarrow>
   (\<exists>u v. s = u @ v \<and> c # u \<in> rx_lang r \<and> v \<in> rx_lang t) \<or> [] \<in> rx_lang r \<and> c # s \<in> rx_lang t"
  by (auto simp: Cons_eq_append_conv)

lemma lang_deriv: "s \<in> rx_lang (deriv c r) \<longleftrightarrow> c # s \<in> rx_lang r"
proof (induction r arbitrary: s)
  case (Seq r t)
  then show ?case unfolding seq_Cons by (auto simp: nullable_iff)
next
  case (Star r)
  then show ?case unfolding star_Cons by auto
qed auto

lemma regex_match_iff: "regex_match r s \<longleftrightarrow> s \<in> rx_lang r"
  unfolding regex_match_def
proof (induction s arbitrary: r)
  case (Cons c s)
  then show ?case by (simp add: lang_deriv)
qed (simp add: nullable_iff)

section \<open>What a valid domain looks like\<close>

lemma lang_Seq: "s \<in> rx_lang (Seq r t) \<longleftrightarrow> (\<exists>u v. s = u @ v \<and> u \<in> rx_lang r \<and> v \<in> rx_lang t)"
  by simp

lemma lang_Star: "s \<in> rx_lang (Star r) \<longleftrightarrow> (\<exists>us. s = concat us \<and> set us \<subseteq> rx_lang r)"
  by simp

lemma lang_Chr: "s \<in> rx_lang (Chr p) \<longleftrightarrow> (\<exists>c. s = [c] \<and> p c)"
  by simp

lemma lang_Alt: "s \<in> rx_lang (Alt r t) \<longleftrightarrow> s \<in> rx_lang r \<or> s \<in> rx_lang t"
  by simp

lemma lang_One: "s \<in> rx_lang One \<longleftrightarrow> s = []"
  by simp

declare rx_lang.simps [simp del]

lemma lang_seq_Chr: "s \<in> rx_lang (Seq (Chr p) t) \<longleftrightarrow> (\<exists>c r. s = c # r \<and> p c \<and> r \<in> rx_lang t)"
proof
  assume "s \<in> rx_lang (Seq (Chr p) t)"
  then show "\<exists>c r. s = c # r \<and> p c \<and> r \<in> rx_lang t" unfolding lang_Seq lang_Chr by auto
next
  assume "\<exists>c r. s = c # r \<and> p c \<and> r \<in> rx_lang t"
  then obtain c r where "s = [c] @ r" "p c" "r \<in> rx_lang t" by auto
  then show "s \<in> rx_lang (Seq (Chr p) t)" unfolding lang_Seq lang_Chr by blast
qed

lemma lang_seq_Chr_last: "s \<in> rx_lang (Seq r (Chr p)) \<longleftrightarrow> (\<exists>m c. s = m @ [c] \<and> m \<in> rx_lang r \<and> p c)"
  unfolding lang_Seq lang_Chr by auto

lemma lang_upto: "s \<in> rx_lang (rx_upto (Chr p) n) \<longleftrightarrow> length s \<le> n \<and> list_all p s"
proof (induction n arbitrary: s)
  case 0
  show ?case by (cases s) (auto simp: lang_One)
next
  case (Suc n)
  have "s \<in> rx_lang (rx_upto (Chr p) (Suc n)) \<longleftrightarrow> s = [] \<or> s \<in> rx_lang (Seq (Chr p) (rx_upto (Chr p) n))"
    by (simp add: lang_Alt lang_One)
  also have "\<dots> \<longleftrightarrow> length s \<le> Suc n \<and> list_all p s"
    unfolding lang_seq_Chr Suc.IH by (cases s) auto
  finally show ?case .
qed

lemma lang_opt [simp]: "rx_lang (rx_opt r) = insert [] (rx_lang r)"
  by (auto simp: rx_opt_def rx_lang.simps)

lemma lang_plus: "s \<in> rx_lang (rx_plus r) \<longleftrightarrow> (\<exists>us. us \<noteq> [] \<and> set us \<subseteq> rx_lang r \<and> s = concat us)"
proof
  assume "s \<in> rx_lang (rx_plus r)"
  then obtain u us where "s = u @ concat us" "u \<in> rx_lang r" "set us \<subseteq> rx_lang r"
    unfolding rx_plus_def lang_Seq lang_Star by blast
  then show "\<exists>us. us \<noteq> [] \<and> set us \<subseteq> rx_lang r \<and> s = concat us" by (intro exI [of _ "u # us"]) auto
next
  assume "\<exists>us. us \<noteq> [] \<and> set us \<subseteq> rx_lang r \<and> s = concat us"
  then obtain u us where "set (u # us) \<subseteq> rx_lang r" "s = concat (u # us)" by (metis neq_Nil_conv)
  then show "s \<in> rx_lang (rx_plus r)" unfolding rx_plus_def lang_Seq lang_Star by auto
qed

text \<open>The label grammar of RFC 1035 and RFC 1123 as a predicate on text.\<close>

definition ldh_label :: "string \<Rightarrow> bool" where
  "ldh_label l \<longleftrightarrow> l \<noteq> [] \<and> length l \<le> 63 \<and> list_all (\<lambda>c. isalnum c \<or> c = CHR ''-'') l \<and>
     hd l \<noteq> CHR ''-'' \<and> last l \<noteq> CHR ''-''"

lemma isalnum_hyphen [simp]: "\<not> isalnum (CHR ''-'')" "\<not> isalnum (CHR ''.'')"
  by (simp_all add: isalnum_def)

lemma lang_label: "l \<in> rx_lang rx_label \<longleftrightarrow> ldh_label l"
proof -
  have "l \<in> rx_lang rx_label \<longleftrightarrow>
      (\<exists>a r. l = a # r \<and> isalnum a \<and> (r = [] \<or> (\<exists>m b. r = m @ [b] \<and> (length m \<le> 61 \<and>
        list_all (\<lambda>c. isalnum c \<or> c = CHR ''-'') m) \<and> isalnum b)))"
    unfolding rx_label_def rx_alnum_def rx_ldh_def lang_seq_Chr lang_opt insert_iff lang_seq_Chr_last lang_upto ..
  also have "\<dots> \<longleftrightarrow> ldh_label l"
  proof (cases l)
    case (Cons a r)
    then show ?thesis
      by (cases r rule: rev_cases) (auto simp: ldh_label_def)
  qed (simp add: ldh_label_def)
  finally show ?thesis .
qed

lemma ldh_label_no_dot: "ldh_label l \<Longrightarrow> CHR ''.'' \<notin> set l"
  by (auto simp: ldh_label_def list_all_iff)

lemma lang_string_chars: "s \<in> rx_lang (rx_string t) \<Longrightarrow> to_lower s = to_lower t"
proof (induction t arbitrary: s)
  case (Cons c t)
  then show ?case unfolding rx_string.simps lang_seq_Chr by (auto simp: to_lower_def)
qed (simp add: lang_One)

lemma of_char_dot: "of_char c = (46 :: nat) \<longleftrightarrow> c = CHR ''.''"
proof
  assume "of_char c = (46 :: nat)"
  then have "c = char_of (46 :: nat)" by (metis char_of_char)
  also have "\<dots> = CHR ''.''" by code_simp
  finally show "c = CHR ''.''" .
qed simp

lemma lower_no_dot: "lower_table c = CHR ''.'' \<longleftrightarrow> c = CHR ''.''"
proof -
  have "of_char (lower_table c) = (46 :: nat) \<longleftrightarrow> of_char c = (46 :: nat)"
    by (auto simp: of_char_lower Let_def)
  then show ?thesis by (simp only: of_char_dot)
qed

lemma to_lower_dot: "CHR ''.'' \<in> set (to_lower s) \<longleftrightarrow> CHR ''.'' \<in> set s"
proof -
  have "CHR ''.'' \<in> set (to_lower s) \<longleftrightarrow> (\<exists>c\<in>set s. lower_table c = CHR ''.'')"
    unfolding to_lower_def set_map image_iff by (metis (no_types))
  then show ?thesis by (simp add: lower_no_dot)
qed

lemma lang_tld: "t \<in> rx_lang rx_tld \<Longrightarrow> 2 \<le> length t \<and> CHR ''.'' \<notin> set t"
proof -
  assume "t \<in> rx_lang rx_tld"
  then consider (alpha) "t \<in> rx_lang (Seq (Chr isalpha) (Seq (Chr isalpha) (Star (Chr isalpha))))"
    | (xn) "t \<in> rx_lang (Seq (rx_string ''xn--'') (Seq rx_alnum (rx_opt (Seq (rx_upto rx_ldh 59) rx_alnum))))"
    unfolding rx_tld_def lang_Alt by blast
  then show ?thesis
  proof cases
    case alpha
    then obtain a b us where t: "t = a # b # concat us" "isalpha a" "isalpha b" "set us \<subseteq> {[c] | c. isalpha c}"
      unfolding lang_seq_Chr lang_Star by (auto simp: rx_lang.simps)
    have "\<forall>u\<in>set us. CHR ''.'' \<notin> set u" using t(4) by (force simp: isalpha_def)
    then have "CHR ''.'' \<notin> set (concat us)" by simp
    with t show ?thesis by (auto simp: isalpha_def)
  next
    case xn
    then obtain x r where t: "t = x @ r" "x \<in> rx_lang (rx_string ''xn--'')"
      "r \<in> rx_lang (Seq rx_alnum (rx_opt (Seq (rx_upto rx_ldh 59) rx_alnum)))"
      using lang_Seq by metis
    have x: "to_lower x = ''xn--''" using lang_string_chars [OF t(2)] by (simp add: to_lower_def lower_table_def)
    have "length x = 4" using arg_cong [OF x, of length] by simp
    moreover have "CHR ''.'' \<notin> set x" using x to_lower_dot [of x] by simp
    moreover have "CHR ''.'' \<notin> set r"
      using t(3) unfolding rx_alnum_def rx_ldh_def lang_seq_Chr lang_opt insert_iff lang_seq_Chr_last lang_upto
      by (fastforce simp: list_all_iff)
    ultimately show ?thesis using t(1) by auto
  qed
qed

lemma concat_dotted: "concat (map (\<lambda>l. l @ ''.'') ls) @ t = dot_join (ls @ [t])"
proof (induction ls)
  case (Cons l ls)
  then show ?case by (cases ls) auto
qed simp

lemma lang_label_dot: "u \<in> rx_lang (Seq rx_label rx_dot) \<longleftrightarrow> (\<exists>l. ldh_label l \<and> u = l @ ''.'')"
  unfolding rx_dot_def lang_seq_Chr_last lang_label by auto

lemma lang_labels_dotted:
  "s \<in> rx_lang (rx_plus (Seq rx_label rx_dot)) \<longleftrightarrow>
   (\<exists>ls. ls \<noteq> [] \<and> list_all ldh_label ls \<and> s = concat (map (\<lambda>l. l @ ''.'') ls))"
proof
  assume "s \<in> rx_lang (rx_plus (Seq rx_label rx_dot))"
  then obtain us where us: "us \<noteq> []" "\<forall>u\<in>set us. \<exists>l. ldh_label l \<and> u = l @ ''.''" "s = concat us"
    unfolding lang_plus using lang_label_dot by blast
  have "map (\<lambda>l. l @ ''.'') (map butlast us) = us" using us(2) by (auto intro!: map_idI)
  then show "\<exists>ls. ls \<noteq> [] \<and> list_all ldh_label ls \<and> s = concat (map (\<lambda>l. l @ ''.'') ls)"
    using us by (intro exI [of _ "map butlast us"]) (auto simp: list_all_iff)
next
  assume "\<exists>ls. ls \<noteq> [] \<and> list_all ldh_label ls \<and> s = concat (map (\<lambda>l. l @ ''.'') ls)"
  then obtain ls where "ls \<noteq> []" "list_all ldh_label ls" "s = concat (map (\<lambda>l. l @ ''.'') ls)" by blast
  then show "s \<in> rx_lang (rx_plus (Seq rx_label rx_dot))"
    unfolding lang_plus using lang_label_dot
    by (intro exI [of _ "map (\<lambda>l. l @ ''.'') ls"]) (auto simp: list_all_iff)
qed

lemma is_valid_domain_iff:
  "is_valid_domain s \<longleftrightarrow> length s \<le> 253 \<and>
     (\<exists>ls tld. ls \<noteq> [] \<and> list_all ldh_label ls \<and> tld \<in> rx_lang rx_tld \<and>
        (s = dot_join (ls @ [tld]) \<or> s = dot_join (ls @ [tld]) @ ''.''))"
proof -
  have "s \<in> rx_lang DOMAIN_REGEX \<longleftrightarrow> (\<exists>ls tld. ls \<noteq> [] \<and> list_all ldh_label ls \<and> tld \<in> rx_lang rx_tld \<and>
        (s = dot_join (ls @ [tld]) \<or> s = dot_join (ls @ [tld]) @ ''.''))" (is "?l \<longleftrightarrow> ?r")
  proof -
    have "?l \<longleftrightarrow> (\<exists>u v. s = u @ v \<and> u \<in> rx_lang (rx_plus (Seq rx_label rx_dot)) \<and>
        (\<exists>t d. v = t @ d \<and> t \<in> rx_lang rx_tld \<and> (d = [] \<or> d = ''.'')))"
      unfolding DOMAIN_REGEX_def lang_Seq lang_opt insert_iff rx_dot_def lang_Chr by blast
    also have "\<dots> \<longleftrightarrow> ?r" unfolding lang_labels_dotted by (auto simp: concat_dotted [symmetric]) blast+
    finally show ?thesis .
  qed
  moreover have "CHR ''.'' \<in> set s" if "s \<in> rx_lang DOMAIN_REGEX"
    using that unfolding DOMAIN_REGEX_def lang_Seq lang_labels_dotted by (auto simp: neq_Nil_conv)
  ultimately show ?thesis by (auto simp: is_valid_domain_def regex_match_iff)
qed

lemma dot_join_last_not_dot: "t \<noteq> [] \<Longrightarrow> last t \<noteq> CHR ''.'' \<Longrightarrow> last (dot_join (ls @ [t])) \<noteq> CHR ''.'' \<and> dot_join (ls @ [t]) \<noteq> []"
  by (simp add: concat_dotted [symmetric])

lemma dot_join_not_dot: "2 \<le> length t \<Longrightarrow> dot_join (ls @ [t]) \<noteq> ''.'' \<and> dot_join (ls @ [t]) @ ''.'' \<noteq> ''.''"
proof -
  assume "2 \<le> length t"
  then have "2 \<le> length (dot_join (ls @ [t]))" by (simp add: concat_dotted [symmetric])
  then show ?thesis by auto
qed

lemma lang_tld_alpha:
  assumes "list_all isalpha t" "2 \<le> length t" shows "t \<in> rx_lang rx_tld"
proof -
  obtain a b r where t: "t = a # b # r" using assms(2) by (cases t rule: remdups_adj.cases) auto
  have "concat (map (\<lambda>c. [c]) r) = r" by (induction r) auto
  then have "\<exists>us. r = concat us \<and> set us \<subseteq> rx_lang (Chr isalpha)"
    using assms(1) t by (intro exI [of _ "map (\<lambda>c. [c]) r"]) (auto simp: rx_lang.simps list_all_iff)
  then show ?thesis using assms(1) t unfolding rx_tld_def lang_Alt lang_seq_Chr lang_Star by auto
qed

lemma valid_domain_labels:
  assumes "is_valid_domain s"
  obtains ls tld where "name_labels s = ls @ [tld]" "ls \<noteq> []" "list_all ldh_label ls" "tld \<in> rx_lang rx_tld"
    "encoded_size s \<le> 255" "s \<noteq> []" "s \<noteq> ''.''"
proof -
  obtain ls tld where len: "length s \<le> 253" and d: "ls \<noteq> []" "list_all ldh_label ls" "tld \<in> rx_lang rx_tld"
    "s = dot_join (ls @ [tld]) \<or> s = dot_join (ls @ [tld]) @ ''.''"
    using assms unfolding is_valid_domain_iff by blast
  have t: "2 \<le> length tld" "CHR ''.'' \<notin> set tld" using lang_tld [OF d(3)] by auto
  have nl: "tld \<noteq> []" using t(1) by auto
  then have nd: "last tld \<noteq> CHR ''.''" using t(2) last_in_set by metis
  have sp: "split_dots (dot_join (ls @ [tld])) = ls @ [tld]"
    using d(2) t by (intro split_dots_join) (auto simp: list_all_iff ldh_label_no_dot)
  note nd = dot_join_last_not_dot [OF nl nd, of ls] dot_join_not_dot [OF t(1), of ls]
  have "name_labels s = ls @ [tld]"
    using d(4) nd sp by (auto simp: name_labels_def labels_of_def)
  moreover have "encoded_size s \<le> 255" using len by (simp add: encoded_size_def)
  moreover have "s \<noteq> []" "s \<noteq> ''.''" using d(4) nd by auto
  ultimately show ?thesis using that d by blast
qed

lemma valid_domain_decodable:
  assumes "is_valid_domain s" "length (last (name_labels s)) \<le> 63"
  shows "decodable s"
proof -
  obtain ls tld where d: "name_labels s = ls @ [tld]" "list_all ldh_label ls" "tld \<in> rx_lang rx_tld" "encoded_size s \<le> 255"
    using valid_domain_labels [OF assms(1)] by metis
  have "tld \<noteq> []" using lang_tld [OF d(3)] by auto
  then show ?thesis
    using d assms(2) by (auto simp: decodable_def encodable_def list_all_iff ldh_label_def)
qed

section \<open>Properties\<close>


text \<open>A valid domain whose last label has at most 63 characters can be sent: the builder encodes
  it and the parser reads the encoding back, without the final dot.\<close>

theorem valid_domain_round_trips:
  assumes "is_valid_domain s" "length (last (name_labels s)) \<le> 63"
  shows "\<exists>packet. encode_name [] s = Inr packet \<and>
    decompress_name packet 0 = Inr (canonical_name s, length packet)"
proof -
  have d: "decodable s" using assms by (rule valid_domain_decodable)
  have "encode_name [] s = Inr (wire_labels (name_labels s))"
    using d by (simp add: encode_name_spec decodable_def)
  moreover have "decompress_name (wire_labels (name_labels s)) 0 =
      Inr (canonical_name s, length (wire_labels (name_labels s)))"
    using decompress_wire_name [OF d, of 0 "[]" "[]"] by simp
  ultimately show ?thesis by simp
qed

theorem valid_domain_round_trips_witness:
  "is_valid_domain ''a.io'' \<and> (\<exists>packet. encode_name [] ''a.io'' = Inr packet \<and>
     decompress_name packet 0 = Inr (canonical_name ''a.io'', length packet))"
proof -
  have "''io'' \<in> rx_lang rx_tld"
    by (rule lang_tld_alpha) (simp_all add: isalpha_def isalnum_def is_digit_def)
  moreover have "ldh_label ''a''" by code_simp
  ultimately have v: "is_valid_domain ''a.io''"
    unfolding is_valid_domain_iff by (intro conjI exI [of _ "[''a'']"] exI [of _ "''io''"]) simp_all
  moreover have "length (last (name_labels ''a.io'')) \<le> 63"
    by (simp add: name_labels_def labels_of_def)
  ultimately show ?thesis using valid_domain_round_trips by blast
qed

text \<open>The final label is not bounded by 63 characters: the check accepts a name with a
  64-letter top level, which \<open>encode_name\<close> then rejects.\<close>

theorem valid_domain_not_encodable:
  "is_valid_domain (''a.'' @ replicate 64 (CHR ''b'')) \<and>
   encode_name buf (''a.'' @ replicate 64 (CHR ''b'')) = Inl DnsPacketException"
proof -
  have "replicate 64 (CHR ''b'') \<in> rx_lang rx_tld"
    by (rule lang_tld_alpha) (simp_all add: list_all_iff isalpha_def isalnum_def is_digit_def)
  moreover have "ldh_label ''a''" by code_simp
  ultimately have "is_valid_domain (''a.'' @ replicate 64 (CHR ''b''))"
    unfolding is_valid_domain_iff
    by (intro conjI exI [of _ "[''a'']"] exI [of _ "replicate 64 (CHR ''b'')"]) simp_all
  moreover have "name_labels (''a.'' @ replicate 64 (CHR ''b'')) = [''a'', replicate 64 (CHR ''b'')]"
    by (simp add: name_labels_def labels_of_def split_dots_no_dot)
  then have "\<not> encodable (''a.'' @ replicate 64 (CHR ''b''))" by (simp add: encodable_def)
  ultimately show ?thesis by (simp add: encode_name_spec)
qed

end
