(* ===== verification/Config_Types.thy ===== *)
theory Config_Types
  imports Dns_Types Inet_Address
begin

text \<open>
  The configuration (\<^verbatim>\<open>src/config/config.h\<close>, \<^verbatim>\<open>src/config/dns_config.h\<close>) and the update task the
  scheduler hands to the updater (\<^verbatim>\<open>src/core/update_task.h\<close>). The driver parameter is a JSON value
  of a library type no component here looks into: it is the type parameter \<open>'json\<close>. The intervals
  are C \<^verbatim>\<open>int\<close>s, read only and compared, so they are \<^typ>\<open>int\<close>.
\<close>

datatype ip_source = INTERFACE | HTTP | MDNS

datatype resolver_strategy = FALLBACK | CONCURRENT

record dns_server =
  srv_address :: string
  srv_port :: u16

record driver_config =
  driver_dir :: "string option"
  auto_discover :: bool
  driver_load :: "string list"

record resolver_config =
  use_custom_server :: bool
  res_address :: string
  res_port :: u16
  res_servers :: "dns_server list"
  res_strategy :: resolver_strategy

record 'json subdomain_config =
  sub_name :: string
  sub_type :: record_kind
  sub_interface :: string
  sub_ip_type :: address_family
  sub_ip_source :: ip_source
  sub_ip_source_param :: string
  allow_ula :: bool
  allow_local_link :: bool
  sub_update_interval :: int
  driver_param :: 'json

record 'json domain_config =
  dom_name :: string
  dom_update_interval :: int
  dom_force_update :: int
  dom_driver :: string
  dom_subdomains :: "'json subdomain_config list"

record 'json app_config =
  cfg_driver :: driver_config
  cfg_resolver :: resolver_config
  cfg_domains :: "'json domain_config list"

record 'json update_task =
  task_config :: "'json subdomain_config"
  task_domain_name :: string
  task_driver_name :: string
  task_fqdn :: string
  task_force_update :: bool

text \<open>\<^verbatim>\<open>subdomain.update_interval > 0 ? subdomain.update_interval : update_interval\<close>\<close>

definition effective_interval :: "'json domain_config \<Rightarrow> 'json subdomain_config \<Rightarrow> int" where
  "effective_interval d s = (if sub_update_interval s > 0 then sub_update_interval s else dom_update_interval d)"

definition fqdn_for :: "'json domain_config \<Rightarrow> 'json subdomain_config \<Rightarrow> string" where
  "fqdn_for d s = sub_name s @ ''.'' @ dom_name d"

end
