(* ===== verification/Config_Validator.thy ===== *)
theory Config_Validator
  imports Config_Types Domain_Regex
begin

text \<open>
  The checks run before the scheduler starts (\<^verbatim>\<open>src/config/validator.hpp\<close>), in the code's order and
  stopping at the first violated one. The minimal interval is the template argument of
  \<^verbatim>\<open>ConfigValidator\<close>; the driver names and interfaces are its constructor arguments. The resolver
  addresses are checked as in the native-DNS build.
\<close>

definition ends_with :: "string \<Rightarrow> string \<Rightarrow> bool" where
  "ends_with s t = (length t \<le> length s \<and> drop (length s - length t) s = t)"

definition validate_http_source :: "inet_lib \<Rightarrow> string \<Rightarrow> unit result" where
  "validate_http_source lib param =
     (if param = [] then Inl ConfigVerificationException
      else
        case bindE (uri_parse lib param) (\<lambda>uri.
               if get_host uri = [] then Inl RuntimeError
               else bindE (get_port uri) (\<lambda>port. if port = 0 then Inl RuntimeError else Inr ())) of
          Inl OutOfBounds \<Rightarrow> Inl OutOfBounds
        | Inl _ \<Rightarrow> Inl ConfigVerificationException
        | Inr _ \<Rightarrow> Inr ())"

definition validate_mdns_source :: "'json subdomain_config \<Rightarrow> unit result" where
  "validate_mdns_source sub =
     (let param = sub_ip_source_param sub in
      if param = [] then Inl ConfigVerificationException
      else if \<not> is_valid_domain param then Inl ConfigVerificationException
      else if \<not> ends_with param ''.local'' \<and> \<not> ends_with param ''.local.'' then Inl ConfigVerificationException
      else if sub_type sub \<noteq> Kind_A \<and> sub_type sub \<noteq> Kind_AAAA then Inl ConfigVerificationException
      else Inr ())"

definition validate_ip_source :: "inet_lib \<Rightarrow> 'json subdomain_config \<Rightarrow> unit result" where
  "validate_ip_source lib sub =
     (if sub_ip_source sub = INTERFACE \<and> sub_interface sub = [] then Inl ConfigVerificationException
      else if sub_ip_source sub = HTTP then validate_http_source lib (sub_ip_source_param sub)
      else if sub_ip_source sub = MDNS then validate_mdns_source sub
      else Inr ())"

definition validate_resolver_address :: "inet_lib \<Rightarrow> string \<Rightarrow> unit result" where
  "validate_resolver_address lib address =
     bindE (uri_parse lib address) (\<lambda>uri.
     if get_schema uri = ''https'' \<or> get_schema uri = ''tls'' then
       (if get_host uri = [] then Inl ConfigVerificationException
        else bindE (get_port uri) (\<lambda>port. if port = 0 then Inl ConfigVerificationException else Inr ()))
     else if inet_parse lib address = None then Inl ConfigVerificationException
     else Inr ())"

definition validate_subdomain :: "inet_lib \<Rightarrow> int \<Rightarrow> string list \<Rightarrow> 'json subdomain_config \<Rightarrow> unit result" where
  "validate_subdomain lib min_interval interfaces sub =
     (if sub_name sub = [] then Inl ConfigVerificationException
      else bindE (validate_ip_source lib sub) (\<lambda>_.
        if sub_update_interval sub \<noteq> 0 \<and> sub_update_interval sub < min_interval then Inl ConfigVerificationException
        else if sub_interface sub \<noteq> [] \<and> sub_interface sub \<notin> set interfaces then Inl ConfigVerificationException
        else Inr ()))"

definition validate_domain ::
  "inet_lib \<Rightarrow> int \<Rightarrow> string list \<Rightarrow> string list \<Rightarrow> 'json domain_config \<Rightarrow> unit result" where
  "validate_domain lib min_interval drivers interfaces d =
     (if dom_name d = [] then Inl ConfigVerificationException
      else if dom_subdomains d = [] then Inl ConfigVerificationException
      else if dom_driver d \<notin> set drivers then Inl ConfigVerificationException
      else if dom_update_interval d < min_interval then Inl ConfigVerificationException
      else if dom_force_update d \<noteq> 0 \<and> dom_force_update d < dom_update_interval d then Inl ConfigVerificationException
      else forE (validate_subdomain lib min_interval interfaces) (dom_subdomains d))"

definition validate_resolver :: "inet_lib \<Rightarrow> resolver_config \<Rightarrow> unit result" where
  "validate_resolver lib r =
     (if use_custom_server r then
        if res_servers r \<noteq> [] then forE (\<lambda>server. validate_resolver_address lib (srv_address server)) (res_servers r)
        else if res_address r \<noteq> [] then validate_resolver_address lib (res_address r)
        else Inr ()
      else Inr ())"

definition validate :: "inet_lib \<Rightarrow> int \<Rightarrow> string list \<Rightarrow> string list \<Rightarrow> 'json app_config \<Rightarrow> unit result" where
  "validate lib min_interval drivers interfaces cfg =
     bindE (forE (validate_domain lib min_interval drivers interfaces) (cfg_domains cfg)) (\<lambda>_.
     validate_resolver lib (cfg_resolver cfg))"

section \<open>What validation guarantees\<close>

definition ip_source_ok :: "inet_lib \<Rightarrow> 'json subdomain_config \<Rightarrow> bool" where
  "ip_source_ok lib sub =
     (case sub_ip_source sub of
        INTERFACE \<Rightarrow> sub_interface sub \<noteq> []
      | HTTP \<Rightarrow> sub_ip_source_param sub \<noteq> [] \<and>
          (case uri_parse lib (sub_ip_source_param sub) of
             Inl _ \<Rightarrow> False | Inr u \<Rightarrow> get_host u \<noteq> [] \<and> (\<exists>p. uri_port u = Some p \<and> p \<noteq> 0))
      | MDNS \<Rightarrow> is_valid_domain (sub_ip_source_param sub) \<and>
          (ends_with (sub_ip_source_param sub) ''.local'' \<or> ends_with (sub_ip_source_param sub) ''.local.'') \<and>
          sub_type sub \<noteq> Kind_TXT)"

definition subdomain_ok :: "inet_lib \<Rightarrow> int \<Rightarrow> string list \<Rightarrow> 'json subdomain_config \<Rightarrow> bool" where
  "subdomain_ok lib min_interval interfaces sub \<longleftrightarrow>
     sub_name sub \<noteq> [] \<and> ip_source_ok lib sub \<and>
     (sub_update_interval sub = 0 \<or> min_interval \<le> sub_update_interval sub) \<and>
     (sub_interface sub = [] \<or> sub_interface sub \<in> set interfaces)"

definition domain_ok :: "inet_lib \<Rightarrow> int \<Rightarrow> string list \<Rightarrow> string list \<Rightarrow> 'json domain_config \<Rightarrow> bool" where
  "domain_ok lib min_interval drivers interfaces d \<longleftrightarrow>
     dom_name d \<noteq> [] \<and> dom_subdomains d \<noteq> [] \<and> dom_driver d \<in> set drivers \<and>
     min_interval \<le> dom_update_interval d \<and>
     (dom_force_update d = 0 \<or> dom_update_interval d \<le> dom_force_update d) \<and>
     list_all (subdomain_ok lib min_interval interfaces) (dom_subdomains d)"

definition resolver_address_ok :: "inet_lib \<Rightarrow> string \<Rightarrow> bool" where
  "resolver_address_ok lib address =
     (case uri_parse lib address of
        Inl _ \<Rightarrow> False
      | Inr u \<Rightarrow>
          if get_schema u \<in> {''https'', ''tls''} then get_host u \<noteq> [] \<and> (\<exists>p. uri_port u = Some p \<and> p \<noteq> 0)
          else inet_parse lib address \<noteq> None)"

definition resolver_ok :: "inet_lib \<Rightarrow> resolver_config \<Rightarrow> bool" where
  "resolver_ok lib r \<longleftrightarrow> \<not> use_custom_server r \<or>
     (if res_servers r \<noteq> [] then list_all (resolver_address_ok lib \<circ> srv_address) (res_servers r)
      else res_address r = [] \<or> resolver_address_ok lib (res_address r))"

lemma valid_domain_not_Nil: "\<not> is_valid_domain []"
  by (simp add: is_valid_domain_def)

lemma validate_http_source_ok:
  "validate_http_source lib param = Inr () \<longleftrightarrow> param \<noteq> [] \<and>
     (case uri_parse lib param of Inl _ \<Rightarrow> False | Inr u \<Rightarrow> get_host u \<noteq> [] \<and> (\<exists>p. uri_port u = Some p \<and> p \<noteq> 0))"
  by (cases "uri_parse lib param")
     (auto simp: validate_http_source_def get_port_def split: sum.splits exn.splits option.splits if_splits)

lemma validate_ip_source_ok: "validate_ip_source lib sub = Inr () \<longleftrightarrow> ip_source_ok lib sub"
  using valid_domain_not_Nil
  by (cases "sub_ip_source sub"; cases "sub_type sub")
     (auto simp: validate_ip_source_def ip_source_ok_def validate_http_source_ok validate_mdns_source_def Let_def)

lemma validate_subdomain_ok:
  "validate_subdomain lib min_interval interfaces sub = Inr () \<longleftrightarrow> subdomain_ok lib min_interval interfaces sub"
  by (auto simp: validate_subdomain_def subdomain_ok_def validate_ip_source_ok)

lemma validate_domain_ok:
  "validate_domain lib min_interval drivers interfaces d = Inr () \<longleftrightarrow> domain_ok lib min_interval drivers interfaces d"
  by (auto simp: validate_domain_def domain_ok_def forE_ok_iff validate_subdomain_ok list_all_iff)

lemma validate_resolver_address_ok: "validate_resolver_address lib a = Inr () \<longleftrightarrow> resolver_address_ok lib a"
  by (cases "uri_parse lib a")
     (auto simp: validate_resolver_address_def resolver_address_ok_def get_port_def split: option.splits)

lemma validate_resolver_ok: "validate_resolver lib r = Inr () \<longleftrightarrow> resolver_ok lib r"
  by (auto simp: validate_resolver_def resolver_ok_def forE_ok_iff validate_resolver_address_ok list_all_iff)

lemma validate_ok:
  "validate lib min_interval drivers interfaces cfg = Inr () \<longleftrightarrow>
   list_all (domain_ok lib min_interval drivers interfaces) (cfg_domains cfg) \<and> resolver_ok lib (cfg_resolver cfg)"
  by (simp add: validate_def forE_ok_iff validate_domain_ok validate_resolver_ok list_all_iff)

lemma effective_interval_ok:
  assumes "domain_ok lib min_interval drivers interfaces d" "s \<in> set (dom_subdomains d)"
  shows "min_interval \<le> effective_interval d s"
  using assms by (auto simp: domain_ok_def subdomain_ok_def list_all_iff effective_interval_def)

section \<open>How validation fails\<close>

lemma validate_http_source_error: "validate_http_source lib param = Inl e \<Longrightarrow> e = ConfigVerificationException"
proof -
  assume v: "validate_http_source lib param = Inl e"
  show ?thesis
  proof (cases "uri_parse lib param")
    case (Inl x)
    then have "x = RuntimeError" by (rule uri_parse_error)
    with v Inl show ?thesis by (auto simp: validate_http_source_def split: if_splits)
  next
    case (Inr u)
    with uri_port_None_bare [OF Inr] v show ?thesis
      by (auto simp: validate_http_source_def get_port_def split: if_splits option.splits)
  qed
qed

lemma validate_ip_source_error: "validate_ip_source lib sub = Inl e \<Longrightarrow> e = ConfigVerificationException"
  by (auto simp: validate_ip_source_def validate_mdns_source_def Let_def split: if_splits
      dest: validate_http_source_error)

lemma validate_domain_error:
  "validate_domain lib min_interval drivers interfaces d = Inl e \<Longrightarrow> e = ConfigVerificationException"
  by (auto simp: validate_domain_def validate_subdomain_def bindE_eq_Inl_iff split: if_splits
      dest!: forE_error validate_ip_source_error)

lemma validate_resolver_address_error:
  "validate_resolver_address lib a = Inl e \<Longrightarrow> e = ConfigVerificationException \<or> e = RuntimeError"
proof (cases "uri_parse lib a")
  case (Inl x)
  moreover assume "validate_resolver_address lib a = Inl e"
  ultimately show ?thesis using uri_parse_error by (auto simp: validate_resolver_address_def)
next
  case (Inr u)
  moreover assume "validate_resolver_address lib a = Inl e"
  ultimately show ?thesis using uri_port_None_bare [OF Inr]
    by (auto simp: validate_resolver_address_def get_port_def split: if_splits option.splits)
qed

lemma validate_error:
  "validate lib min_interval drivers interfaces cfg = Inl e \<Longrightarrow> e = ConfigVerificationException \<or> e = RuntimeError"
  by (auto simp: validate_def validate_resolver_def bindE_eq_Inl_iff split: if_splits
      dest!: forE_error validate_domain_error validate_resolver_address_error)

section \<open>Properties\<close>

text \<open>C10. Validation decides the documented constraints: \<open>validate\<close> returns normally exactly when
  every domain, every subdomain and every resolver address satisfies them, and otherwise throws,
  the verification exception or the runtime error of a malformed resolver URI. It never reads an
  unset port.\<close>

theorem validate_decides_constraints:
  "case validate lib min_interval drivers interfaces cfg of
     Inr _ \<Rightarrow> list_all (domain_ok lib min_interval drivers interfaces) (cfg_domains cfg) \<and>
       resolver_ok lib (cfg_resolver cfg)
   | Inl e \<Rightarrow> (e = ConfigVerificationException \<or> e = RuntimeError) \<and>
       \<not> (list_all (domain_ok lib min_interval drivers interfaces) (cfg_domains cfg) \<and>
          resolver_ok lib (cfg_resolver cfg))"
proof (cases "validate lib min_interval drivers interfaces cfg")
  case (Inl e)
  then show ?thesis
    using validate_error [OF Inl] validate_ok [of lib min_interval drivers interfaces cfg] by simp
next
  case (Inr u)
  then show ?thesis using validate_ok [of lib min_interval drivers interfaces cfg] by simp
qed

end
