(* ===== verification/Scheduler.thy ===== *)
theory Scheduler
  imports Config_Validator "HOL-Library.Multiset"
begin

text \<open>
  The timer queue (\<^verbatim>\<open>src/core/scheduler.cpp\<close>). Time points are nanoseconds in \<^typ>\<open>int\<close>. The
  \<^verbatim>\<open>std::priority_queue\<close> is used through \<open>empty\<close>, \<open>top\<close>, \<open>pop\<close> and \<open>push\<close>; the interface
  \<open>timer_queue\<close> states what they promise and leaves the order of entries with equal deadlines
  open, as the standard does. It is interpreted on lists kept sorted by deadline. The loop of
  \<open>pop_all_due\<close> need not end, so it is a partial function: \<open>None\<close> is a loop that never returns.
\<close>

record 'json schedule_entry =
  deadline :: int
  update_interval :: int
  force_update_interval :: int
  last_force_update :: int
  task :: "'json update_task"

definition seconds :: "int \<Rightarrow> int" where
  "seconds n = n * 1000000000"

text \<open>\<^verbatim>\<open>duration_cast<seconds>\<close> truncates towards zero.\<close>

definition in_seconds :: "int \<Rightarrow> int" where
  "in_seconds d = (if 0 \<le> d then d div 1000000000 else - ((- d) div 1000000000))"

section \<open>The queue\<close>

definition heap_push :: "'json schedule_entry \<Rightarrow> 'json schedule_entry list \<Rightarrow> 'json schedule_entry list" where
  "heap_push e h = insort_key deadline e h"

definition heap_pop :: "'json schedule_entry list \<Rightarrow> 'json schedule_entry list" where
  "heap_pop h = tl h"

definition heap_top :: "'json schedule_entry list \<Rightarrow> 'json schedule_entry" where
  "heap_top h = hd h"

definition heap_empty :: "'json schedule_entry list \<Rightarrow> bool" where
  "heap_empty h = (h = [])"

definition heap_ordered :: "'json schedule_entry list \<Rightarrow> bool" where
  "heap_ordered h = sorted (map deadline h)"

section \<open>Scheduler::Impl\<close>

definition initial_entry :: "int \<Rightarrow> 'json domain_config \<Rightarrow> 'json subdomain_config \<Rightarrow> 'json schedule_entry" where
  "initial_entry now d s =
     \<lparr>deadline = now, update_interval = effective_interval d s, force_update_interval = dom_force_update d,
      last_force_update = (if dom_force_update d > 0 then now - seconds (dom_force_update d) else 0),
      task = \<lparr>task_config = s, task_domain_name = dom_name d, task_driver_name = dom_driver d,
              task_fqdn = fqdn_for d s, task_force_update = False\<rparr>\<rparr>"

text \<open>The constructor reads the clock once per subdomain; \<open>clock i\<close> is the i-th reading.\<close>

fun push_subdomains ::
  "(nat \<Rightarrow> int) \<Rightarrow> 'json domain_config \<Rightarrow> 'json subdomain_config list \<Rightarrow> nat \<Rightarrow> 'json schedule_entry list \<Rightarrow>
   nat \<times> 'json schedule_entry list" where
  "push_subdomains clock d [] i h = (i, h)"
| "push_subdomains clock d (s # ss) i h =
     push_subdomains clock d ss (Suc i) (heap_push (initial_entry (clock i) d s) h)"

fun push_domains ::
  "(nat \<Rightarrow> int) \<Rightarrow> 'json domain_config list \<Rightarrow> nat \<Rightarrow> 'json schedule_entry list \<Rightarrow> 'json schedule_entry list" where
  "push_domains clock [] i h = h"
| "push_domains clock (d # ds) i h =
     (let (i', h') = push_subdomains clock d (dom_subdomains d) i h in push_domains clock ds i' h')"

definition scheduler_init :: "(nat \<Rightarrow> int) \<Rightarrow> 'json app_config \<Rightarrow> 'json schedule_entry list" where
  "scheduler_init clock cfg = push_domains clock (cfg_domains cfg) 0 []"

definition check_force_update :: "'json schedule_entry \<Rightarrow> int \<Rightarrow> bool \<times> 'json schedule_entry" where
  "check_force_update entry now =
     (if force_update_interval entry \<le> 0 then (False, entry)
      else
        let elapsed = in_seconds (now - last_force_update entry) in
        if force_update_interval entry \<le> elapsed then (True, entry\<lparr>last_force_update := now\<rparr>)
        else (False, entry))"

partial_function (option) pop_due_loop ::
  "int \<Rightarrow> 'json schedule_entry list \<Rightarrow> 'json update_task list \<Rightarrow>
   ('json update_task list \<times> 'json schedule_entry list) option" where
  "pop_due_loop now heap due =
     (if heap_empty heap \<or> now < deadline (heap_top heap) then Some (due, heap)
      else
        let entry = heap_top heap;
            heap = heap_pop heap;
            (force, entry) = check_force_update entry now;
            due = due @ [(task entry)\<lparr>task_force_update := force\<rparr>];
            entry = entry\<lparr>deadline := now + seconds (update_interval entry),
                          task := (task entry)\<lparr>task_force_update := False\<rparr>\<rparr>
        in pop_due_loop now (heap_push entry heap) due)"

definition pop_all_due ::
  "int \<Rightarrow> 'json schedule_entry list \<Rightarrow> ('json update_task list \<times> 'json schedule_entry list) option" where
  "pop_all_due now heap = pop_due_loop now heap []"

text \<open>\<open>wait_for_next\<close> at a moment \<open>now\<close>: \<open>None\<close> while it blocks.\<close>

definition wait_for_next :: "'json schedule_entry list \<Rightarrow> int \<Rightarrow> bool \<Rightarrow> bool option" where
  "wait_for_next heap now stop_requested =
     (if heap_empty heap then (if stop_requested then Some False else None)
      else if stop_requested then Some False
      else if deadline (heap_top heap) \<le> now then Some True
      else None)"

definition has_pending :: "'json schedule_entry list \<Rightarrow> bool" where
  "has_pending heap = (\<not> heap_empty heap)"

section \<open>The interface of the timer queue\<close>

locale timer_queue =
  fixes push :: "'e \<Rightarrow> 'q \<Rightarrow> 'q" and pop :: "'q \<Rightarrow> 'q" and top :: "'q \<Rightarrow> 'e" and is_empty :: "'q \<Rightarrow> bool"
    and key :: "'e \<Rightarrow> int" and entries :: "'q \<Rightarrow> 'e multiset" and invar :: "'q \<Rightarrow> bool"
  assumes empty_iff: "is_empty q \<longleftrightarrow> entries q = {#}"
    and invar_push: "invar q \<Longrightarrow> invar (push e q)"
    and invar_pop: "invar q \<Longrightarrow> \<not> is_empty q \<Longrightarrow> invar (pop q)"
    and entries_push: "entries (push e q) = add_mset e (entries q)"
    and entries_pop: "\<not> is_empty q \<Longrightarrow> entries q = add_mset (top q) (entries (pop q))"
    and top_least: "invar q \<Longrightarrow> e \<in># entries q \<Longrightarrow> key (top q) \<le> key e"
begin

text \<open>Exactly the entries that are due are in front.\<close>

lemma none_due: "invar q \<Longrightarrow> is_empty q \<or> now < key (top q) \<Longrightarrow> filter_mset (\<lambda>e. key e \<le> now) (entries q) = {#}"
  using top_least empty_iff by (fastforce simp: filter_mset_eq_mempty_iff)

lemma swap_top_invar: "invar q \<Longrightarrow> \<not> is_empty q \<Longrightarrow> invar (push e (pop q))"
  by (intro invar_push invar_pop)

lemma swap_top_entries: "\<not> is_empty q \<Longrightarrow> entries (push e (pop q)) = add_mset e (entries q - {#top q#})"
  by (simp add: entries_push entries_pop [of q])

lemma top_in: "\<not> is_empty q \<Longrightarrow> top q \<in># entries q"
  by (simp add: entries_pop [of q])

lemma due_count_decreases:
  assumes "\<not> is_empty q" "key (top q) \<le> now" "now < key e"
  shows "size (filter_mset (\<lambda>e. key e \<le> now) (entries (push e (pop q)))) <
    size (filter_mset (\<lambda>e. key e \<le> now) (entries q))"
  using assms by (simp add: entries_push entries_pop [of q])

end

interpretation heap: timer_queue heap_push heap_pop heap_top heap_empty deadline mset heap_ordered
proof unfold_locales
  fix q :: "'a schedule_entry list" and e
  assume "heap_ordered q" "e \<in># mset q"
  then show "deadline (heap_top q) \<le> deadline e"
    by (cases q) (auto simp: heap_ordered_def heap_top_def)
qed (auto simp: heap_push_def heap_pop_def heap_top_def heap_empty_def heap_ordered_def sorted_insort_key
    neq_Nil_conv)

section \<open>Draining the queue\<close>

definition is_due :: "int \<Rightarrow> 'json schedule_entry \<Rightarrow> bool" where
  "is_due now e = (deadline e \<le> now)"

definition forced :: "int \<Rightarrow> 'json schedule_entry \<Rightarrow> bool" where
  "forced now e = (0 < force_update_interval e \<and> force_update_interval e \<le> in_seconds (now - last_force_update e))"

definition fired_task :: "int \<Rightarrow> 'json schedule_entry \<Rightarrow> 'json update_task" where
  "fired_task now e = (task e)\<lparr>task_force_update := forced now e\<rparr>"

definition requeued :: "int \<Rightarrow> 'json schedule_entry \<Rightarrow> 'json schedule_entry" where
  "requeued now e = e\<lparr>last_force_update := (if forced now e then now else last_force_update e),
     deadline := now + seconds (update_interval e),
     task := (task e)\<lparr>task_force_update := False\<rparr>\<rparr>"

lemma check_force_update_spec:
  "check_force_update e now = (forced now e, if forced now e then e\<lparr>last_force_update := now\<rparr> else e)"
  by (auto simp: check_force_update_def forced_def Let_def)

lemma requeued_eq:
  "(let (force, entry) = check_force_update e now
    in entry\<lparr>deadline := now + seconds (update_interval entry),
             task := (task entry)\<lparr>task_force_update := False\<rparr>\<rparr>) = requeued now e"
  by (simp add: check_force_update_spec requeued_def)

lemma pop_due_loop_step:
  "pop_due_loop now heap due =
     (if heap_empty heap \<or> now < deadline (heap_top heap) then Some (due, heap)
      else pop_due_loop now (heap_push (requeued now (heap_top heap)) (heap_pop heap))
             (due @ [fired_task now (heap_top heap)]))"
  by (subst pop_due_loop.simps) (simp add: check_force_update_spec requeued_def fired_task_def Let_def)

lemma requeued_not_due: "0 < update_interval e \<Longrightarrow> \<not> is_due now (requeued now e)"
  by (simp add: is_due_def requeued_def seconds_def)

lemma requeued_fields [simp]: "update_interval (requeued now e) = update_interval e"
  "deadline (requeued now e) = now + seconds (update_interval e)"
  by (simp_all add: requeued_def)

definition due_part :: "int \<Rightarrow> 'json schedule_entry list \<Rightarrow> 'json schedule_entry multiset" where
  "due_part now h = filter_mset (is_due now) (mset h)"

definition rest_part :: "int \<Rightarrow> 'json schedule_entry list \<Rightarrow> 'json schedule_entry multiset" where
  "rest_part now h = filter_mset (\<lambda>e. \<not> is_due now e) (mset h)"

lemma parts_after_step:
  assumes "\<not> heap_empty h" "deadline (heap_top h) \<le> now" "0 < update_interval (heap_top h)"
  shows "due_part now h = add_mset (heap_top h) (due_part now (heap_push (requeued now (heap_top h)) (heap_pop h)))"
    "rest_part now (heap_push (requeued now (heap_top h)) (heap_pop h)) =
       add_mset (requeued now (heap_top h)) (rest_part now h)"
  using assms requeued_not_due [of "heap_top h" now]
  by (simp_all add: due_part_def rest_part_def heap.entries_push heap.entries_pop [of h] is_due_def)

lemma parts_when_none_due:
  assumes "heap_ordered h" "heap_empty h \<or> now < deadline (heap_top h)"
  shows "due_part now h = {#}" "rest_part now h = mset h"
proof -
  show d: "due_part now h = {#}"
    using heap.none_due [OF assms] by (simp add: due_part_def is_due_def)
  have "mset h = due_part now h + rest_part now h"
    unfolding due_part_def rest_part_def by (rule multiset_partition)
  then show "rest_part now h = mset h" by (simp add: d)
qed

lemma pop_due_loop_result:
  assumes "heap_ordered h" "\<forall>e\<in>#due_part now h. 0 < update_interval e"
  shows "\<exists>ts h'. pop_due_loop now h due = Some (due @ ts, h') \<and> heap_ordered h' \<and>
    mset ts = image_mset (fired_task now) (due_part now h) \<and>
    mset h' = rest_part now h + image_mset (requeued now) (due_part now h)"
  using assms
proof (induction "size (due_part now h)" arbitrary: h due rule: less_induct)
  case less
  show ?case
  proof (cases "heap_empty h \<or> now < deadline (heap_top h)")
    case True
    with parts_when_none_due [OF less.prems(1) True] less.prems(1) show ?thesis
      by (subst pop_due_loop_step) (intro exI [of _ "[]"] exI [of _ h], simp)
  next
    case False
    let ?e = "heap_top h" let ?h = "heap_push (requeued now ?e) (heap_pop h)"
    have ne: "\<not> heap_empty h" and due: "deadline ?e \<le> now" using False by auto
    have "?e \<in># due_part now h"
      using heap.top_in [OF ne] due by (simp add: due_part_def is_due_def)
    then have pos: "0 < update_interval ?e" using less.prems(2) by blast
    note parts = parts_after_step [OF ne due pos]
    have "size (due_part now ?h) < size (due_part now h)" by (simp add: parts(1))
    moreover have "heap_ordered ?h" using heap.swap_top_invar [OF less.prems(1) ne] .
    moreover have "\<forall>e\<in>#due_part now ?h. 0 < update_interval e" using less.prems(2) parts(1) by simp
    ultimately obtain ts h' where r: "pop_due_loop now ?h (due @ [fired_task now ?e]) = Some ((due @ [fired_task now ?e]) @ ts, h')"
      "heap_ordered h'" "mset ts = image_mset (fired_task now) (due_part now ?h)"
      "mset h' = rest_part now ?h + image_mset (requeued now) (due_part now ?h)"
      using less.hyps [of ?h "due @ [fired_task now ?e]"] by blast
    show ?thesis
      by (subst pop_due_loop_step, intro exI [of _ "fired_task now ?e # ts"] exI [of _ h'])
         (use False r parts in auto)
  qed
qed

lemma pop_due_loop_positive:
  assumes "pop_due_loop now h due = Some r"
  shows "heap_ordered h \<longrightarrow> (\<forall>e\<in>set h. is_due now e \<longrightarrow> 0 < update_interval e)"
proof (rule pop_due_loop.raw_induct [OF _ assms])
  fix loop :: "int \<Rightarrow> 'a schedule_entry list \<Rightarrow> 'a update_task list \<Rightarrow> ('a update_task list \<times> 'a schedule_entry list) option"
    and now :: int and heap due y
  assume IH: "\<And>now h due y. loop now h due = Some y \<Longrightarrow>
      heap_ordered h \<longrightarrow> (\<forall>e\<in>set h. is_due now e \<longrightarrow> 0 < update_interval e)"
    and step: "(if heap_empty heap \<or> now < deadline (heap_top heap) then Some (due, heap)
      else let entry = heap_top heap; heap = heap_pop heap;
               (force, entry) = check_force_update entry now;
               due = due @ [(task entry)\<lparr>task_force_update := force\<rparr>];
               entry = entry\<lparr>deadline := now + seconds (update_interval entry),
                             task := (task entry)\<lparr>task_force_update := False\<rparr>\<rparr>
           in loop now (heap_push entry heap) due) = Some y"
  show "heap_ordered heap \<longrightarrow> (\<forall>e\<in>set heap. is_due now e \<longrightarrow> 0 < update_interval e)"
  proof (intro impI)
    assume ord: "heap_ordered heap"
    show "\<forall>e\<in>set heap. is_due now e \<longrightarrow> 0 < update_interval e"
    proof (cases "heap_empty heap \<or> now < deadline (heap_top heap)")
      case True
      then have "due_part now heap = {#}" using parts_when_none_due(1) [OF ord] by blast
      then show ?thesis by (auto simp: due_part_def filter_mset_eq_mempty_iff)
    next
      case False
      let ?h = "heap_push (requeued now (heap_top heap)) (heap_pop heap)"
      from step False obtain d where run: "loop now ?h d = Some y"
        by (auto simp: check_force_update_spec requeued_def Let_def split: if_splits)
      have "heap_ordered ?h" using ord False by (intro heap.swap_top_invar) auto
      with IH [OF run] have all: "\<forall>e\<in>#mset ?h. is_due now e \<longrightarrow> 0 < update_interval e" by simp
      then have "0 < update_interval (heap_top heap)"
        by (auto simp: heap.entries_push is_due_def seconds_def)
      moreover have "mset heap = add_mset (heap_top heap) (mset (heap_pop heap))"
        using False by (intro heap.entries_pop) auto
      ultimately have "\<forall>e\<in>#mset heap. is_due now e \<longrightarrow> 0 < update_interval e"
        using all by (simp only:) (auto simp: heap.entries_push)
      then show ?thesis by simp
    qed
  qed
qed

section \<open>The initial schedule\<close>

lemma push_subdomains_entries:
  "push_subdomains clock d ss i h = (j, h') \<Longrightarrow> heap_ordered h \<Longrightarrow>
   heap_ordered h' \<and> j = i + length ss \<and>
   mset h' = mset h + mset (map2 (\<lambda>k s. initial_entry (clock k) d s) [i..<i + length ss] ss)"
proof (induction ss arbitrary: i h)
  case (Cons s ss)
  from Cons.prems Cons.IH [of "Suc i" "heap_push (initial_entry (clock i) d s) h"] show ?case
    by (simp add: heap.invar_push heap.entries_push upt_conv_Cons del: upt_Suc)
qed simp

text \<open>A view of an entry that does not depend on the clock.\<close>

definition clock_free :: "('json schedule_entry \<Rightarrow> 'v) \<Rightarrow> bool" where
  "clock_free f \<longleftrightarrow> (\<forall>t d s. f (initial_entry t d s) = f (initial_entry 0 d s))"

definition config_views :: "('json schedule_entry \<Rightarrow> 'v) \<Rightarrow> 'json domain_config list \<Rightarrow> 'v list" where
  "config_views f ds = concat (map (\<lambda>d. map (\<lambda>s. f (initial_entry 0 d s)) (dom_subdomains d)) ds)"

lemma push_domains_entries:
  assumes "clock_free f"
  shows "heap_ordered h \<Longrightarrow> heap_ordered (push_domains clock ds i h) \<and>
   (\<forall>e\<in>set (push_domains clock ds i h). e \<in> set h \<or>
      (\<exists>k d s. d \<in> set ds \<and> s \<in> set (dom_subdomains d) \<and> e = initial_entry (clock k) d s)) \<and>
   image_mset f (mset (push_domains clock ds i h)) = image_mset f (mset h) + mset (config_views f ds)"
proof (induction ds arbitrary: i h)
  case (Cons d ds)
  obtain j h' where p: "push_subdomains clock d (dom_subdomains d) i h = (j, h')" by force
  let ?new = "map2 (\<lambda>k s. initial_entry (clock k) d s) [i..<i + length (dom_subdomains d)] (dom_subdomains d)"
  note q = push_subdomains_entries [OF p Cons.prems]
  have t: "map f ?new = map (\<lambda>s. f (initial_entry 0 d s)) (dom_subdomains d)"
    by (rule nth_equalityI) (use assms in \<open>simp_all add: clock_free_def\<close>)
  have "image_mset f (mset ?new) = mset (map f ?new)" by (simp only: mset_map)
  then have new: "image_mset f (mset ?new) = mset (map (\<lambda>s. f (initial_entry 0 d s)) (dom_subdomains d))"
    by (simp only: t)
  have src: "\<forall>e\<in>set ?new. \<exists>k s. s \<in> set (dom_subdomains d) \<and> e = initial_entry (clock k) d s"
    by (auto dest: set_zip_rightD)
  have set_h': "set h' = set h \<union> set ?new"
    using arg_cong [where f = set_mset, OF conjunct2 [OF conjunct2 [OF q]]] by simp
  have ih: "heap_ordered (push_domains clock ds j h') \<and>
      (\<forall>e\<in>set (push_domains clock ds j h'). e \<in> set h' \<or>
        (\<exists>k d s. d \<in> set ds \<and> s \<in> set (dom_subdomains d) \<and> e = initial_entry (clock k) d s)) \<and>
      image_mset f (mset (push_domains clock ds j h')) = image_mset f (mset h') + mset (config_views f ds)"
    using Cons.IH [of h' j] q by blast
  have step: "push_domains clock (d # ds) i h = push_domains clock ds j h'" by (simp add: p)
  show ?case unfolding step
  proof (intro conjI)
    show "\<forall>e\<in>set (push_domains clock ds j h'). e \<in> set h \<or>
        (\<exists>k d' s. d' \<in> set (d # ds) \<and> s \<in> set (dom_subdomains d') \<and> e = initial_entry (clock k) d' s)"
      using ih src set_h' by (metis Un_iff list.set_intros(1) list.set_intros(2))
    show "image_mset f (mset (push_domains clock ds j h')) = image_mset f (mset h) + mset (config_views f (d # ds))"
      using ih q new by (simp add: config_views_def ac_simps)
  qed (use ih in blast)
qed (simp add: config_views_def)

lemma scheduler_init_entries:
  assumes "clock_free f"
  shows "heap_ordered (scheduler_init clock cfg)"
    "e \<in> set (scheduler_init clock cfg) \<Longrightarrow>
      \<exists>k d s. d \<in> set (cfg_domains cfg) \<and> s \<in> set (dom_subdomains d) \<and> e = initial_entry (clock k) d s"
    "image_mset f (mset (scheduler_init clock cfg)) = mset (config_views f (cfg_domains cfg))"
  using push_domains_entries [OF assms, of "[]" clock "cfg_domains cfg" 0]
  by (auto simp: scheduler_init_def heap_ordered_def)

section \<open>Runs of the scheduler\<close>

inductive sched_reach :: "(nat \<Rightarrow> int) \<Rightarrow> 'json app_config \<Rightarrow> 'json schedule_entry list \<Rightarrow> bool" for clock cfg where
  init: "sched_reach clock cfg (scheduler_init clock cfg)"
| step: "sched_reach clock cfg h \<Longrightarrow> pop_all_due now h = Some (ts, h') \<Longrightarrow> sched_reach clock cfg h'"

lemma clock_free_task: "clock_free task"
  by (simp add: clock_free_def initial_entry_def)

definition sched_inv :: "int \<Rightarrow> 'json app_config \<Rightarrow> 'json schedule_entry list \<Rightarrow> bool" where
  "sched_inv m cfg h \<longleftrightarrow> heap_ordered h \<and> (\<forall>e\<in>set h. m \<le> update_interval e \<and> \<not> task_force_update (task e)) \<and>
     image_mset task (mset h) = mset (config_views task (cfg_domains cfg))"

lemma requeued_task: "\<not> task_force_update (task e) \<Longrightarrow> task (requeued now e) = task e"
  by (simp add: requeued_def)

lemma pop_all_due_result:
  assumes "heap_ordered h" "\<forall>e\<in>set h. is_due now e \<longrightarrow> 0 < update_interval e"
  shows "\<exists>ts h'. pop_all_due now h = Some (ts, h') \<and> heap_ordered h' \<and>
    mset ts = image_mset (fired_task now) (due_part now h) \<and>
    mset h' = rest_part now h + image_mset (requeued now) (due_part now h)"
  using pop_due_loop_result [OF assms(1), of now "[]"] assms(2) by (auto simp: pop_all_due_def due_part_def)

lemma pop_all_due_keeps_inv:
  assumes "sched_inv m cfg h" "0 < m" "pop_all_due now h = Some (ts, h')"
  shows "sched_inv m cfg h'"
proof -
  have inv: "heap_ordered h" "\<forall>e\<in>set h. m \<le> update_interval e \<and> \<not> task_force_update (task e)"
    "image_mset task (mset h) = mset (config_views task (cfg_domains cfg))"
    using assms(1) by (auto simp: sched_inv_def)
  have r: "heap_ordered h'" "mset h' = rest_part now h + image_mset (requeued now) (due_part now h)"
    using pop_all_due_result [OF inv(1), of now] inv(2) assms(2,3) by force+
  have "image_mset (\<lambda>e. task (requeued now e)) (due_part now h) = image_mset task (due_part now h)"
    using inv(2) by (intro image_mset_cong) (auto simp: due_part_def requeued_task)
  then have "image_mset task (mset h') = image_mset task (rest_part now h + due_part now h)"
    by (simp add: r(2) multiset.map_comp comp_def)
  also have "rest_part now h + due_part now h = mset h"
    unfolding rest_part_def due_part_def using multiset_partition [of "mset h" "is_due now"] by (simp add: add.commute)
  finally have "image_mset task (mset h') = image_mset task (mset h)" .
  moreover have "\<forall>e\<in>#mset h'. m \<le> update_interval e \<and> \<not> task_force_update (task e)"
    using inv(2) unfolding r(2) by (auto simp: rest_part_def due_part_def requeued_task)
  ultimately show ?thesis using r(1) inv(3) by (simp add: sched_inv_def)
qed

lemma sched_inv_init:
  assumes "validate lib m drivers interfaces cfg = Inr ()"
  shows "sched_inv m cfg (scheduler_init clock cfg)"
proof -
  have "m \<le> update_interval e \<and> \<not> task_force_update (task e)" if "e \<in> set (scheduler_init clock cfg)" for e
    using scheduler_init_entries(2) [OF clock_free_task that] assms effective_interval_ok
    by (fastforce simp: validate_ok list_all_iff initial_entry_def)
  then show ?thesis
    using scheduler_init_entries(1,3) [OF clock_free_task, of clock cfg] by (simp add: sched_inv_def)
qed

lemma sched_reach_inv:
  assumes "sched_reach clock cfg h" "validate lib m drivers interfaces cfg = Inr ()" "0 < m"
  shows "sched_inv m cfg h"
  using assms(1)
proof induction
  case init
  show ?case using sched_inv_init [OF assms(2)] .
next
  case (step h now ts h')
  then show ?case using pop_all_due_keeps_inv assms(3) by blast
qed

lemma initial_due: "clock k \<le> now \<Longrightarrow> is_due now (initial_entry (clock k) d s)"
  by (simp add: is_due_def initial_entry_def)

lemma div_seconds: "0 < n \<Longrightarrow> t \<le> now \<Longrightarrow> n \<le> in_seconds (now - (t - seconds n))"
proof -
  assume "0 < n" "t \<le> now"
  then have "seconds n div 1000000000 \<le> (now - (t - seconds n)) div 1000000000"
    by (intro zdiv_mono1) simp_all
  moreover have "0 \<le> now - (t - seconds n)" using \<open>0 < n\<close> \<open>t \<le> now\<close> by (simp add: seconds_def)
  ultimately show ?thesis by (simp add: in_seconds_def) (simp add: seconds_def)
qed

lemma initial_forced: "t \<le> now \<Longrightarrow> forced now (initial_entry t d s) \<longleftrightarrow> 0 < dom_force_update d"
  using div_seconds [of "dom_force_update d" t now] by (auto simp: forced_def initial_entry_def)

lemma first_pop:
  assumes "validate lib m drivers interfaces cfg = Inr ()" "0 < m" "\<forall>k. clock k \<le> now"
  shows "\<exists>ts h'. pop_all_due now (scheduler_init clock cfg) = Some (ts, h') \<and>
    mset ts = mset (config_views (\<lambda>e. (task e)\<lparr>task_force_update := 0 < force_update_interval e\<rparr>) (cfg_domains cfg))"
proof -
  let ?h = "scheduler_init clock cfg" let ?f = "\<lambda>e. (task e)\<lparr>task_force_update := 0 < force_update_interval e\<rparr>"
  have cf: "clock_free ?f" by (simp add: clock_free_def initial_entry_def)
  have e: "\<exists>k d s. e = initial_entry (clock k) d s" if "e \<in> set ?h" for e
    using scheduler_init_entries(2) [OF clock_free_task that] by blast
  have inv: "sched_inv m cfg ?h" using assms(1) by (rule sched_inv_init)
  then obtain ts h' where r: "pop_all_due now ?h = Some (ts, h')" "mset ts = image_mset (fired_task now) (due_part now ?h)"
    using pop_all_due_result [of ?h now] assms(2) by (force simp: sched_inv_def)
  have "\<forall>e\<in>set ?h. is_due now e" using e assms(3) initial_due by fastforce
  then have "due_part now ?h = mset ?h" by (simp add: due_part_def filter_mset_eq_conv)
  moreover have "image_mset (fired_task now) (mset ?h) = image_mset ?f (mset ?h)"
  proof (rule image_mset_cong)
    fix x assume "x \<in># mset ?h"
    then have "x \<in> set ?h" by simp
    from e [OF this] obtain k d s where "x = initial_entry (clock k) d s" by blast
    then show "fired_task now x = ?f x"
      using initial_forced [of "clock k" now d s] assms(3) by (simp add: fired_task_def initial_entry_def)
  qed
  ultimately show ?thesis using r scheduler_init_entries(3) [OF cf, of clock cfg] by auto
qed

section \<open>Properties\<close>

text \<open>C11. One call of \<open>pop_all_due\<close> on an ordered queue whose due entries have positive intervals
  returns: each due task exactly once, flagged for a forced update when its force interval has
  elapsed, and a queue in which exactly those entries moved to one interval after now.\<close>

theorem pop_all_due_returns_due_tasks_once:
  assumes "heap_ordered h" "\<forall>e\<in>set h. is_due now e \<longrightarrow> 0 < update_interval e"
  shows "\<exists>ts h'. pop_all_due now h = Some (ts, h') \<and> heap_ordered h' \<and>
    mset ts = image_mset (fired_task now) (due_part now h) \<and>
    mset h' = rest_part now h + image_mset (requeued now) (due_part now h)"
  using assms by (rule pop_all_due_result)

definition sample_subdomain :: "unit subdomain_config" where
  "sample_subdomain = \<lparr>sub_name = ''www'', sub_type = Kind_A, sub_interface = ''eth0'', sub_ip_type = IPV4,
     sub_ip_source = INTERFACE, sub_ip_source_param = [], allow_ula = False, allow_local_link = False,
     sub_update_interval = 0, driver_param = ()\<rparr>"

definition sample_domain :: "unit domain_config" where
  "sample_domain = \<lparr>dom_name = ''a.io'', dom_update_interval = 60, dom_force_update = 120, dom_driver = ''simple'',
     dom_subdomains = [sample_subdomain]\<rparr>"

definition sample_config :: "unit app_config" where
  "sample_config = \<lparr>cfg_driver = \<lparr>driver_dir = None, auto_discover = False, driver_load = [''simple'']\<rparr>,
     cfg_resolver = \<lparr>use_custom_server = False, res_address = [], res_port = 53, res_servers = [], res_strategy = CONCURRENT\<rparr>,
     cfg_domains = [sample_domain]\<rparr>"

lemma sample_config_valid: "validate letters_lib 60 [''simple''] [''eth0''] sample_config = Inr ()"
  by (simp add: validate_ok sample_config_def sample_domain_def sample_subdomain_def domain_ok_def subdomain_ok_def
      ip_source_ok_def resolver_ok_def)

theorem pop_all_due_returns_due_tasks_once_witness:
  "\<exists>ts h'. pop_all_due 7 [initial_entry 5 sample_domain sample_subdomain] = Some (ts, h') \<and> length ts = 1"
proof -
  have "\<exists>ts h'. pop_all_due 7 [initial_entry 5 sample_domain sample_subdomain] = Some (ts, h') \<and> heap_ordered h' \<and>
    mset ts = image_mset (fired_task 7) (due_part 7 [initial_entry 5 sample_domain sample_subdomain]) \<and>
    mset h' = rest_part 7 [initial_entry 5 sample_domain sample_subdomain] +
      image_mset (requeued 7) (due_part 7 [initial_entry 5 sample_domain sample_subdomain])"
    by (rule pop_all_due_returns_due_tasks_once)
       (simp_all add: heap_ordered_def initial_entry_def effective_interval_def sample_domain_def sample_subdomain_def)
  moreover have "due_part 7 [initial_entry 5 sample_domain sample_subdomain] = {#initial_entry 5 sample_domain sample_subdomain#}"
    by (simp add: due_part_def is_due_def initial_entry_def)
  ultimately show ?thesis by (metis size_image_mset size_mset size_single One_nat_def)
qed

text \<open>C40. A due entry whose interval is not positive is pushed back due, and the loop never ends:
  on an ordered queue \<open>pop_all_due\<close> fails to return exactly when there is such an entry.\<close>

theorem pop_all_due_diverges_iff:
  assumes "heap_ordered h"
  shows "pop_all_due now h = None \<longleftrightarrow> (\<exists>e\<in>set h. is_due now e \<and> update_interval e \<le> 0)"
proof
  assume "pop_all_due now h = None"
  with pop_all_due_result [OF assms, of now] show "\<exists>e\<in>set h. is_due now e \<and> update_interval e \<le> 0" by force
next
  assume "\<exists>e\<in>set h. is_due now e \<and> update_interval e \<le> 0"
  with pop_due_loop_positive [of now h "[]"] assms show "pop_all_due now h = None"
    by (cases "pop_all_due now h") (force simp: pop_all_due_def)+
qed

theorem pop_all_due_diverges_iff_witness:
  "pop_all_due 7 [(initial_entry 5 sample_domain sample_subdomain)\<lparr>update_interval := 0\<rparr>] = None"
  by (subst pop_all_due_diverges_iff) (simp_all add: heap_ordered_def is_due_def initial_entry_def)

text \<open>With a validated configuration and a positive minimal interval the scheduler never gets
  stuck and never loses a task: in every state its calls reach, the next call returns, and the
  queue holds the task of every configured subdomain exactly once.\<close>

theorem validated_scheduler_never_stuck:
  assumes "validate lib m drivers interfaces cfg = Inr ()" "0 < m" "sched_reach clock cfg h"
  shows "(\<exists>ts h'. pop_all_due now h = Some (ts, h')) \<and>
    image_mset task (mset h) = mset (config_views task (cfg_domains cfg))"
proof -
  have "sched_inv m cfg h" using sched_reach_inv assms by blast
  with pop_all_due_result [of h now] assms(2) show ?thesis by (force simp: sched_inv_def)
qed

theorem validated_scheduler_never_stuck_witness:
  "\<exists>ts h'. pop_all_due 9 (scheduler_init (\<lambda>_. 5) sample_config) = Some (ts, h')"
  using validated_scheduler_never_stuck [OF sample_config_valid _ sched_reach.init] by auto

text \<open>The first call after start-up returns every configured task, and forces the update of
  exactly those whose domain sets a force interval, however long the machine has been up.\<close>

theorem first_pop_forces_update:
  assumes "validate lib m drivers interfaces cfg = Inr ()" "0 < m" "\<forall>k. clock k \<le> now"
  shows "\<exists>ts h'. pop_all_due now (scheduler_init clock cfg) = Some (ts, h') \<and>
    mset ts = mset (config_views (\<lambda>e. (task e)\<lparr>task_force_update := 0 < force_update_interval e\<rparr>) (cfg_domains cfg))"
  using assms by (rule first_pop)

theorem first_pop_forces_update_witness:
  "\<exists>ts h'. pop_all_due 9 (scheduler_init (\<lambda>_. 5) sample_config) = Some (ts, h') \<and>
    mset ts = mset (config_views (\<lambda>e. (task e)\<lparr>task_force_update := 0 < force_update_interval e\<rparr>) (cfg_domains sample_config))"
  using first_pop_forces_update [OF sample_config_valid, of "\<lambda>_. 5" 9] by simp

text \<open>When \<open>wait_for_next\<close> returns true the following \<open>pop_all_due\<close> has work: without a stop
  request it returns true exactly when some entry of the ordered queue is due.\<close>

theorem wait_returns_when_due:
  assumes "heap_ordered h"
  shows "wait_for_next h now False = Some True \<longleftrightarrow> due_part now h \<noteq> {#}"
proof (cases "heap_empty h \<or> now < deadline (heap_top h)")
  case True
  with parts_when_none_due(1) [OF assms True] show ?thesis by (auto simp: wait_for_next_def)
next
  case False
  then have "heap_top h \<in># due_part now h" using heap.top_in [of h] by (simp add: due_part_def is_due_def)
  with False show ?thesis by (auto simp: wait_for_next_def)
qed

theorem wait_returns_when_due_witness:
  "wait_for_next [initial_entry 5 sample_domain sample_subdomain] 7 False = Some True \<longleftrightarrow>
   due_part 7 [initial_entry 5 sample_domain sample_subdomain] \<noteq> {#}"
  by (rule wait_returns_when_due) (simp add: heap_ordered_def)

end
