(* ===== verification/Retry_Util.thy ===== *)
theory Retry_Util
  imports Yad_Errors
begin

text \<open>
  The retry loop (\<^verbatim>\<open>src/util/retry_util.hpp\<close>). The callable is a function of the number of calls
  made before, so that a transient error may go away; the loop returns its last result, the value
  of \<^verbatim>\<open>*actual_retries\<close>, and the sleeps it made, in milliseconds. The counter is the 32-bit
  \<^verbatim>\<open>unsigned\<close> of the code: with the largest \<^verbatim>\<open>retry\<close> the test \<^verbatim>\<open>++counter > retry\<close> can never
  succeed, hence a partial function.
\<close>

partial_function (option) retry_loop ::
  "(nat \<Rightarrow> 'e + 'r) \<Rightarrow> u32 \<Rightarrow> ('e \<Rightarrow> bool) \<Rightarrow> nat \<Rightarrow> u32 \<Rightarrow> nat \<Rightarrow> nat list \<Rightarrow> (('e + 'r) \<times> u32 \<times> nat list) option" where
  "retry_loop func retry error_filter backoff counter calls sleeps =
     (case func calls of
        Inr r \<Rightarrow> Some (Inr r, counter, sleeps)
      | Inl e \<Rightarrow>
          if \<not> error_filter e then Some (Inl e, counter, sleeps)
          else if counter + 1 > retry then Some (Inl e, counter, sleeps)
          else retry_loop func retry error_filter backoff (counter + 1) (Suc calls)
                 (sleeps @ [backoff * unat (counter + 1)]))"

definition retry_on_error ::
  "(nat \<Rightarrow> 'e + 'r) \<Rightarrow> u32 \<Rightarrow> ('e \<Rightarrow> bool) \<Rightarrow> nat \<Rightarrow> (('e + 'r) \<times> u32 \<times> nat list) option" where
  "retry_on_error func retry error_filter backoff = retry_loop func retry error_filter backoff 0 0 []"

text \<open>The first call that is not a retryable error, searched among the first \<open>n\<close>.\<close>

definition stops_at :: "(nat \<Rightarrow> 'e + 'r) \<Rightarrow> ('e \<Rightarrow> bool) \<Rightarrow> nat \<Rightarrow> bool" where
  "stops_at func error_filter k = (case func k of Inr _ \<Rightarrow> True | Inl e \<Rightarrow> \<not> error_filter e)"

lemma unat_Suc_u32: "unat (c :: u32) < unat (r :: u32) \<Longrightarrow> unat (c + 1) = Suc (unat c)"
proof -
  assume "unat c < unat r"
  moreover have "unat r < 2 ^ 32" using unsigned_less [of r] by simp
  ultimately have "Suc (unat c) < 2 ^ 32" by simp
  then show ?thesis by (simp add: unat_plus_if_size word_size)
qed

lemma retry_loop_returns:
  fixes retry counter :: u32
  assumes "unat retry < 2 ^ 32 - 1" "unat counter \<le> unat retry"
  shows "\<exists>k \<le> unat retry - unat counter.
    retry_loop func retry flt backoff counter calls sleeps =
      Some (func (calls + k), counter + of_nat k,
        sleeps @ map (\<lambda>i. backoff * (unat counter + Suc i)) [0..<k]) \<and>
    (\<forall>j<k. \<not> stops_at func flt (calls + j)) \<and>
    (stops_at func flt (calls + k) \<or> k = unat retry - unat counter)"
  using assms(2)
proof (induction "unat retry - unat counter" arbitrary: counter calls sleeps)
  case 0
  then have "counter = retry" by (simp add: word_unat_eq_iff)
  moreover have "unat (retry + 1) = Suc (unat retry)"
    using assms(1) by (simp add: unat_plus_if_size word_size)
  ultimately show ?case
    by (intro exI [of _ 0]) (subst retry_loop.simps, auto simp: word_less_nat_alt split: sum.splits)
next
  case (Suc n)
  show ?case
  proof (cases "stops_at func flt calls")
    case True
    then show ?thesis
      by (intro exI [of _ 0]) (subst retry_loop.simps, auto simp: stops_at_def split: sum.splits)
  next
    case False
    then obtain e where e: "func calls = Inl e" "flt e" by (auto simp: stops_at_def split: sum.splits)
    have lt: "unat counter < unat retry" using Suc.hyps(2) by simp
    note c = unat_Suc_u32 [OF lt]
    have n: "n = unat retry - unat (counter + 1)" and le: "unat (counter + 1) \<le> unat retry"
      using Suc.hyps(2) c lt by simp_all
    obtain k where k: "k \<le> unat retry - unat (counter + 1)"
      "retry_loop func retry flt backoff (counter + 1) (Suc calls) (sleeps @ [backoff * unat (counter + 1)]) =
        Some (func (Suc calls + k), counter + 1 + of_nat k,
          (sleeps @ [backoff * unat (counter + 1)]) @ map (\<lambda>i. backoff * (unat (counter + 1) + Suc i)) [0..<k])"
      "\<forall>j<k. \<not> stops_at func flt (Suc calls + j)"
      "stops_at func flt (Suc calls + k) \<or> k = unat retry - unat (counter + 1)"
      using Suc.hyps(1) [OF n le] by blast
    have sl: "map (\<lambda>i. backoff * (unat counter + Suc i)) [0..<Suc k] =
        backoff * unat (counter + 1) # map (\<lambda>i. backoff * (unat (counter + 1) + Suc i)) [0..<k]"
      by (simp add: upt_conv_Cons map_Suc_upt [symmetric] comp_def c del: upt_Suc)
    have "retry_loop func retry flt backoff counter calls sleeps =
        retry_loop func retry flt backoff (counter + 1) (Suc calls) (sleeps @ [backoff * unat (counter + 1)])"
      using e lt c by (subst retry_loop.simps) (simp add: word_less_nat_alt)
    then have run: "retry_loop func retry flt backoff counter calls sleeps =
        Some (func (calls + Suc k), counter + of_nat (Suc k),
          sleeps @ map (\<lambda>i. backoff * (unat counter + Suc i)) [0..<Suc k])"
      unfolding sl using k(2) by (simp add: add.assoc)
    have "\<forall>j<Suc k. \<not> stops_at func flt (calls + j)"
      using k(3) False by (auto simp: less_Suc_eq_0_disj)
    moreover have "Suc k \<le> unat retry - unat counter" using k(1) c lt by simp
    moreover have "stops_at func flt (calls + Suc k) \<or> Suc k = unat retry - unat counter"
      using k(4) c lt by auto
    ultimately show ?thesis using run by (intro exI [of _ "Suc k"]) blast
  qed
qed

section \<open>Properties\<close>



end
