(* ===== verification/Batch_Runner.thy ===== *)
theory Batch_Runner
  imports Yad_Errors
begin

text \<open>
  One batch of concurrent queries (\<^verbatim>\<open>BatchRunner\<close> of \<^verbatim>\<open>src/dns/dispatcher.cpp\<close>). Every atomic access
  of \<open>resolve_one\<close> is a step of its own, so the step relation contains every interleaving of the
  threads: the query, the stores of the error flags, the increment of \<^verbatim>\<open>completed_\<close> and the setting
  of the promise. The stop request is raised only by the destructors of the threads, after
  \<^verbatim>\<open>future.get()\<close> has returned, and writes the cancellation pipes. \<open>outcome i\<close> is what \<open>try_resolve\<close>
  gives the i-th thread when it is not cancelled.
\<close>

type_synonym lookup = "dns_error + string list"

datatype pc =
    Start
  | Querying               \<comment> \<open>inside \<open>try_resolve\<close>\<close>
  | Got lookup
  | Definitive dns_error   \<comment> \<open>\<^verbatim>\<open>has_definitive_\<close> stored, \<^verbatim>\<open>batch_error_\<close> not yet\<close>
  | Stored                 \<comment> \<open>error recorded, \<^verbatim>\<open>completed_\<close> not yet incremented\<close>
  | Counted nat            \<comment> \<open>incremented on an error path; the previous value of \<^verbatim>\<open>completed_\<close>\<close>
  | Answer "string list"   \<comment> \<open>incremented on the success path\<close>
  | Done

record batch =
  completed :: nat
  has_nxdomain :: bool
  has_definitive :: bool
  batch_error :: dns_error
  promise :: "string list option"
  stop :: bool
  pcs :: "nat \<Rightarrow> pc"

definition batch_start :: batch where
  "batch_start = \<lparr>completed = 0, has_nxdomain = False, has_definitive = False, batch_error = NODATA,
     promise = None, stop = False, pcs = \<lambda>_. Start\<rparr>"

definition set_promise_value :: "string list \<Rightarrow> batch \<Rightarrow> batch" where
  "set_promise_value v s = (case promise s of None \<Rightarrow> s\<lparr>promise := Some v\<rparr> | Some _ \<Rightarrow> s)"

definition signal_completion :: "nat \<Rightarrow> nat \<Rightarrow> batch \<Rightarrow> batch" where
  "signal_completion batch_count prev s = (if prev + 1 = batch_count then set_promise_value [] s else s)"

definition at :: "nat \<Rightarrow> pc \<Rightarrow> batch \<Rightarrow> batch" where
  "at i p s = s\<lparr>pcs := (pcs s)(i := p)\<rparr>"

text \<open>The next atomic action of thread \<open>i\<close>; \<open>None\<close> when it has returned.\<close>

definition resolve_one :: "nat \<Rightarrow> (nat \<Rightarrow> lookup) \<Rightarrow> nat \<Rightarrow> batch \<Rightarrow> batch option" where
  "resolve_one batch_count outcome i s =
     (case pcs s i of
        Start \<Rightarrow> Some (at i (if stop s then Done else Querying) s)
      | Querying \<Rightarrow> Some (at i (Got (outcome i)) s)
      | Got (Inr rs) \<Rightarrow> Some (at i (Answer rs) (s\<lparr>completed := completed s + 1\<rparr>))
      | Got (Inl e) \<Rightarrow>
          if e = CANCELLED then Some (at i (Counted (completed s)) (s\<lparr>completed := completed s + 1\<rparr>))
          else if e = NX_DOMAIN then Some (at i Stored (s\<lparr>has_nxdomain := True\<rparr>))
          else if e = PARSE \<or> e = CONFIG then Some (at i (Definitive e) (s\<lparr>has_definitive := True\<rparr>))
          else Some (at i Stored (s\<lparr>batch_error := e\<rparr>))
      | Definitive e \<Rightarrow> Some (at i Stored (s\<lparr>batch_error := e\<rparr>))
      | Stored \<Rightarrow> Some (at i (Counted (completed s)) (s\<lparr>completed := completed s + 1\<rparr>))
      | Counted prev \<Rightarrow> Some (at i Done (signal_completion batch_count prev s))
      | Answer rs \<Rightarrow> Some (at i Done (set_promise_value rs s))
      | Done \<Rightarrow> None)"

inductive batch_step :: "nat \<Rightarrow> (nat \<Rightarrow> lookup) \<Rightarrow> batch \<Rightarrow> batch \<Rightarrow> bool" for n outcome where
  thread: "i < n \<Longrightarrow> resolve_one n outcome i s = Some s' \<Longrightarrow> batch_step n outcome s s'"
| cancelled: "i < n \<Longrightarrow> stop s \<Longrightarrow> pcs s i = Querying \<Longrightarrow> batch_step n outcome s (at i (Got (Inl CANCELLED)) s)"
| request_stop: "promise s \<noteq> None \<Longrightarrow> \<not> stop s \<Longrightarrow> batch_step n outcome s (s\<lparr>stop := True\<rparr>)"

inductive batch_reach :: "nat \<Rightarrow> (nat \<Rightarrow> lookup) \<Rightarrow> batch \<Rightarrow> bool" for n outcome where
  start: "batch_reach n outcome batch_start"
| step: "batch_reach n outcome s \<Longrightarrow> batch_step n outcome s s' \<Longrightarrow> batch_reach n outcome s'"

definition joined :: "nat \<Rightarrow> batch \<Rightarrow> bool" where
  "joined n s \<longleftrightarrow> (\<forall>i<n. pcs s i = Done)"

text \<open>The value of \<^verbatim>\<open>run\<close>, read after the threads are joined; \<open>None\<close> where \<^verbatim>\<open>future.get()\<close> would
  still block.\<close>

definition batch_result :: "batch \<Rightarrow> lookup option" where
  "batch_result s =
     (case promise s of
        None \<Rightarrow> None
      | Some rs \<Rightarrow>
          Some (if rs \<noteq> [] then Inr rs
                else if has_nxdomain s then Inl NX_DOMAIN
                else if has_definitive s then Inl (batch_error s)
                else Inl (batch_error s)))"

section \<open>Every run ends\<close>

fun pc_weight :: "pc \<Rightarrow> nat" where
  "pc_weight Start = 6"
| "pc_weight Querying = 5"
| "pc_weight (Got _) = 4"
| "pc_weight (Definitive _) = 3"
| "pc_weight Stored = 2"
| "pc_weight (Counted _) = 1"
| "pc_weight (Answer _) = 1"
| "pc_weight Done = 0"

definition batch_weight :: "nat \<Rightarrow> batch \<Rightarrow> nat" where
  "batch_weight n s = (\<Sum>i<n. pc_weight (pcs s i)) + (if stop s then 0 else 1)"

lemma at_simps [simp]: "completed (at i p s) = completed s" "has_nxdomain (at i p s) = has_nxdomain s"
  "has_definitive (at i p s) = has_definitive s" "batch_error (at i p s) = batch_error s"
  "promise (at i p s) = promise s" "stop (at i p s) = stop s" "pcs (at i p s) = (pcs s)(i := p)"
  by (simp_all add: at_def)

lemma set_promise_simps [simp]: "completed (set_promise_value v s) = completed s"
  "has_nxdomain (set_promise_value v s) = has_nxdomain s" "has_definitive (set_promise_value v s) = has_definitive s"
  "batch_error (set_promise_value v s) = batch_error s" "stop (set_promise_value v s) = stop s"
  "pcs (set_promise_value v s) = pcs s"
  "promise (set_promise_value v s) = (case promise s of None \<Rightarrow> Some v | Some w \<Rightarrow> Some w)"
  by (simp_all add: set_promise_value_def split: option.splits)

lemma signal_simps [simp]: "completed (signal_completion n k s) = completed s"
  "has_nxdomain (signal_completion n k s) = has_nxdomain s" "has_definitive (signal_completion n k s) = has_definitive s"
  "batch_error (signal_completion n k s) = batch_error s" "stop (signal_completion n k s) = stop s"
  "pcs (signal_completion n k s) = pcs s"
  by (simp_all add: signal_completion_def)

text \<open>What one step of a thread can do, by the position it starts from.\<close>

lemma resolve_one_pcs:
  "resolve_one n outcome i s = Some s' \<Longrightarrow>
   stop s' = stop s \<and> (\<exists>p. pcs s' = (pcs s)(i := p) \<and> pc_weight p < pc_weight (pcs s i))"
  by (auto simp: resolve_one_def split: pc.splits sum.splits if_splits)

lemma sum_pc_less:
  fixes f g :: "nat \<Rightarrow> nat"
  assumes "i < n" "g i < f i" "\<forall>j. j \<noteq> i \<longrightarrow> g j = f j"
  shows "(\<Sum>j<n. g j) < (\<Sum>j<n. f j)"
proof (rule sum_strict_mono_ex1)
  show "\<forall>j\<in>{..<n}. g j \<le> f j" using assms by (metis le_refl less_imp_le)
  show "\<exists>j\<in>{..<n}. g j < f j" using assms by blast
qed simp

lemma batch_step_weight: "batch_step n outcome s s' \<Longrightarrow> batch_weight n s' < batch_weight n s"
proof (induction rule: batch_step.induct)
  case (thread i s s')
  from resolve_one_pcs [OF thread(2)] obtain p
    where p: "stop s' = stop s" "pcs s' = (pcs s)(i := p)" "pc_weight p < pc_weight (pcs s i)" by blast
  have "(\<Sum>j<n. pc_weight (pcs s' j)) < (\<Sum>j<n. pc_weight (pcs s j))"
    by (rule sum_pc_less [OF thread(1)]) (use p in auto)
  with p(1) show ?case by (simp add: batch_weight_def)
next
  case (cancelled i s)
  have "(\<Sum>j<n. pc_weight (((pcs s)(i := Got (Inl CANCELLED))) j)) < (\<Sum>j<n. pc_weight (pcs s j))"
    by (rule sum_pc_less [OF cancelled(1)]) (use cancelled in auto)
  then show ?case by (simp add: batch_weight_def)
qed (simp add: batch_weight_def)

lemma not_joined_step: "\<not> joined n s \<Longrightarrow> \<exists>s'. batch_step n outcome s s'"
proof -
  assume "\<not> joined n s"
  then obtain i where "i < n" "pcs s i \<noteq> Done" by (auto simp: joined_def)
  then have "\<exists>s'. resolve_one n outcome i s = Some s'"
    by (auto simp: resolve_one_def split: pc.splits sum.splits)
  then show ?thesis using \<open>i < n\<close> batch_step.thread by blast
qed

section \<open>Invariants of the interleaving\<close>

fun past_count :: "pc \<Rightarrow> bool" where
  "past_count (Counted _) = True"
| "past_count (Answer _) = True"
| "past_count Done = True"
| "past_count _ = False"

text \<open>While no stop is requested, the counter counts the threads past their increment; and if all
  are while the promise is unset, one of them still has to set it.\<close>

definition pending :: "nat \<Rightarrow> batch \<Rightarrow> bool" where
  "pending n s \<longleftrightarrow> (\<exists>i<n. pcs s i = Counted (n - 1) \<or> (\<exists>rs. pcs s i = Answer rs))"

definition count_inv :: "nat \<Rightarrow> batch \<Rightarrow> bool" where
  "count_inv n s \<longleftrightarrow>
     (stop s \<longrightarrow> promise s \<noteq> None) \<and>
     (\<not> stop s \<longrightarrow>
        completed s = card {i. i < n \<and> past_count (pcs s i)} \<and>
        (\<forall>i prev. pcs s i = Counted prev \<longrightarrow> prev < completed s)) \<and>
     (promise s = None \<longrightarrow> completed s = n \<longrightarrow> pending n s)"

lemma card_past_count_insert:
  fixes n :: nat
  assumes "i < n" "\<not> past_count (f i)" "past_count p"
  shows "card {j. j < n \<and> past_count ((f(i := p)) j)} = Suc (card {j. j < n \<and> past_count (f j)})"
proof -
  have eq: "{j. j < n \<and> past_count ((f(i := p)) j)} = insert i {j. j < n \<and> past_count (f j)}"
    using assms by auto
  have "finite {j. j < n \<and> past_count (f j)}"
    by (rule finite_subset [of _ "{..<n}"]) auto
  moreover have "i \<notin> {j. j < n \<and> past_count (f j)}" using assms by simp
  ultimately show ?thesis unfolding eq by (rule card_insert_disjoint)
qed

lemma card_past_count_same:
  fixes n :: nat
  assumes "past_count (f i) = past_count p"
  shows "card {j. j < n \<and> past_count ((f(i := p)) j)} = card {j. j < n \<and> past_count (f j)}"
proof -
  have "{j. j < n \<and> past_count ((f(i := p)) j)} = {j. j < n \<and> past_count (f j)}"
    using assms by auto
  then show ?thesis by simp
qed

lemma card_all_past:
  fixes n :: nat
  assumes "card {j. j < n \<and> P j} = n" "i < n" shows "P i"
proof -
  have "{j. j < n \<and> P j} = {..<n}"
    by (rule card_subset_eq) (use assms(1) in auto)
  with assms(2) show ?thesis by blast
qed

text \<open>The three shapes of a step: a move before the increment, the increment, a move after it.\<close>

lemma count_inv_move:
  assumes "count_inv n s" "completed s' = completed s" "stop s' = stop s" "promise s' = promise s"
    "pcs s' = (pcs s)(i := p)" "i < n" "\<not> past_count (pcs s i)" "\<not> past_count p" "\<not> stop s"
  shows "count_inv n s'"
proof -
  have "completed s \<noteq> n"
    using assms(1,6,7,9) card_all_past [of n "\<lambda>i. past_count (pcs s i)" i] by (auto simp: count_inv_def)
  then show ?thesis
    using assms card_past_count_same [of "pcs s" i p n] by (auto simp: count_inv_def simp flip: fun_upd_def)
qed

lemma count_inv_increment:
  assumes "count_inv n s" "s' = at i p (s\<lparr>completed := completed s + 1\<rparr>)" "i < n"
    "\<not> past_count (pcs s i)" "p = Counted (completed s) \<or> (\<exists>rs. p = Answer rs)"
  shows "count_inv n s'"
proof -
  have "past_count p" using assms(5) by auto
  note card_past_count_insert [of i n "pcs s" p, OF assms(3,4) this]
  then have "completed s' = card {j. j < n \<and> past_count (pcs s' j)}" if "\<not> stop s"
    using assms(1,2) that by (simp add: count_inv_def del: fun_upd_apply)
  moreover have "pending n s'" if "completed s' = n"
    using assms that unfolding pending_def by (intro exI [of _ i]) auto
  moreover have "\<forall>j prev. pcs s' j = Counted prev \<longrightarrow> prev < completed s'" if "\<not> stop s"
    using assms that by (auto simp: count_inv_def less_Suc_eq)
  ultimately show ?thesis using assms(1,2) by (auto simp: count_inv_def simp del: fun_upd_apply)
qed

lemma count_inv_stopped: "stop s' \<Longrightarrow> promise s' \<noteq> None \<Longrightarrow> count_inv n s'"
  by (auto simp: count_inv_def)

lemma count_inv_finish:
  assumes "count_inv n s" "completed s' = completed s" "stop s' = stop s" "i < n"
    "promise s \<noteq> None \<longrightarrow> promise s' \<noteq> None" "pcs s' = (pcs s)(i := Done)" "past_count (pcs s i)"
    "promise s' = None \<longrightarrow> (\<exists>prev. pcs s i = Counted prev \<and> prev + 1 \<noteq> n)"
  shows "count_inv n s'"
proof -
  have "pending n s'" if "promise s' = None" "completed s' = n"
  proof -
    from that assms have "pending n s" by (auto simp: count_inv_def)
    then obtain j where j: "j < n" "pcs s j = Counted (n - 1) \<or> (\<exists>rs. pcs s j = Answer rs)"
      by (auto simp: pending_def)
    moreover from j assms(4,8) that(1) have "j \<noteq> i" by auto
    ultimately show ?thesis using assms(6) by (auto simp: pending_def)
  qed
  moreover have "card {j. j < n \<and> past_count (pcs s' j)} = card {j. j < n \<and> past_count (pcs s j)}"
    unfolding assms(6) by (rule card_past_count_same) (simp add: assms(7))
  ultimately show ?thesis using assms by (auto simp: count_inv_def)
qed

lemma promise_kept: "resolve_one n outcome i s = Some s' \<Longrightarrow> promise s \<noteq> None \<Longrightarrow> promise s' = promise s"
  by (auto simp: resolve_one_def signal_completion_def split: pc.splits sum.splits if_splits option.splits)

lemma count_inv_step: "batch_step n outcome s s' \<Longrightarrow> count_inv n s \<Longrightarrow> count_inv n s'"
proof (induction rule: batch_step.induct)
  case (thread i s s')
  note kept = promise_kept [OF thread.hyps(2)]
  show ?case
  proof (cases "stop s")
    case True
    then have "promise s \<noteq> None" using thread.prems by (simp add: count_inv_def)
    then show ?thesis using True kept resolve_one_pcs [OF thread.hyps(2)] by (intro count_inv_stopped) auto
  next
    case False
    note move = count_inv_move [OF thread.prems _ _ _ _ thread.hyps(1) _ _ False]
    note inc = count_inv_increment [OF thread.prems _ thread.hyps(1)]
    note fin = count_inv_finish [OF thread.prems _ _ thread.hyps(1)]
    show ?thesis
    proof (cases "pcs s i")
      case Start
      with thread.hyps False show ?thesis by (intro move [of _ Querying]) (auto simp: resolve_one_def)
    next
      case Querying
      with thread.hyps show ?thesis by (intro move [of _ "Got (outcome i)"]) (auto simp: resolve_one_def)
    next
      case (Got r)
      consider rs where "r = Inr rs" | "r = Inl CANCELLED" | e where "r = Inl e" "e \<noteq> CANCELLED"
        by (cases r) auto
      then show ?thesis
      proof cases
        case 1
        with Got thread.hyps show ?thesis by (intro inc [of _ "Answer rs"]) (auto simp: resolve_one_def)
      next
        case 2
        with Got thread.hyps show ?thesis by (intro inc [of _ "Counted (completed s)"]) (auto simp: resolve_one_def)
      next
        case 3
        with Got thread.hyps obtain p where "pcs s' = (pcs s)(i := p)" "\<not> past_count p"
          "completed s' = completed s" "stop s' = stop s" "promise s' = promise s"
          by (auto simp: resolve_one_def split: if_splits)
        with Got show ?thesis by (intro move [of _ p]) auto
      qed
    next
      case (Definitive e)
      with thread.hyps show ?thesis by (intro move [of _ Stored]) (auto simp: resolve_one_def)
    next
      case Stored
      with thread.hyps show ?thesis by (intro inc [of _ "Counted (completed s)"]) (auto simp: resolve_one_def)
    next
      case (Counted prev)
      with thread.hyps show ?thesis
        by (intro fin) (auto simp: resolve_one_def signal_completion_def split: if_splits option.splits)
    next
      case (Answer rs)
      with thread.hyps show ?thesis by (intro fin) (auto simp: resolve_one_def split: option.splits)
    next
      case Done
      with thread.hyps show ?thesis by (simp add: resolve_one_def)
    qed
  qed
qed (auto simp: count_inv_def)

text \<open>What a thread carries comes from its query, and the shared record from some thread.\<close>

definition carries :: "bool \<Rightarrow> lookup \<Rightarrow> pc \<Rightarrow> bool" where
  "carries stopped q p =
     (case p of Got r \<Rightarrow> q = r \<or> stopped \<and> r = Inl CANCELLED
      | Definitive e \<Rightarrow> q = Inl e \<and> (e = PARSE \<or> e = CONFIG)
      | Stored \<Rightarrow> \<not> isl q \<longrightarrow> stopped
      | Counted _ \<Rightarrow> \<not> isl q \<longrightarrow> stopped
      | Answer rs \<Rightarrow> q = Inr rs | _ \<Rightarrow> True)"

definition origin_inv :: "nat \<Rightarrow> (nat \<Rightarrow> lookup) \<Rightarrow> batch \<Rightarrow> bool" where
  "origin_inv n outcome s \<longleftrightarrow>
     (\<forall>i. carries (stop s) (outcome i) (pcs s i)) \<and>
     (stop s \<longrightarrow> promise s \<noteq> None) \<and>
     (has_nxdomain s \<longrightarrow> (\<exists>i<n. outcome i = Inl NX_DOMAIN)) \<and>
     (batch_error s = NODATA \<or> (\<exists>i<n. outcome i = Inl (batch_error s))) \<and>
     (\<forall>rs. promise s = Some rs \<longrightarrow> (\<exists>i<n. outcome i = Inr rs) \<or> rs = [] \<and> (\<exists>i<n. isl (outcome i)))"

lemma carries_stopped: "carries b q p \<Longrightarrow> carries True q p"
  by (cases p) (auto simp: carries_def)

lemma origin_inv_upd:
  assumes "origin_inv n outcome s" "i < n" "stop s' = stop s" "pcs s' = (pcs s)(i := p)"
    "carries (stop s) (outcome i) p"
    "has_nxdomain s' = has_nxdomain s \<or> outcome i = Inl NX_DOMAIN"
    "batch_error s' = batch_error s \<or> outcome i = Inl (batch_error s')"
    "promise s' = promise s \<or> promise s' = Some [] \<and> isl (outcome i) \<or>
     (\<exists>rs. promise s' = Some rs \<and> outcome i = Inr rs)"
  shows "origin_inv n outcome s'"
proof -
  have "\<forall>j. carries (stop s') (outcome j) (pcs s' j)" using assms by (simp add: origin_inv_def)
  moreover have "has_nxdomain s' \<longrightarrow> (\<exists>i<n. outcome i = Inl NX_DOMAIN)"
    using assms(1,2,6) by (auto simp: origin_inv_def)
  moreover have "batch_error s' = NODATA \<or> (\<exists>i<n. outcome i = Inl (batch_error s'))"
    using assms(1,2,7) by (auto simp: origin_inv_def)
  moreover have "stop s' \<longrightarrow> promise s' \<noteq> None" using assms(1,3,8) by (auto simp: origin_inv_def)
  moreover have "\<forall>rs. promise s' = Some rs \<longrightarrow>
      (\<exists>i<n. outcome i = Inr rs) \<or> rs = [] \<and> (\<exists>i<n. isl (outcome i))"
    using assms(1,2,8) by (auto simp: origin_inv_def)
  ultimately show ?thesis unfolding origin_inv_def by blast
qed

lemma origin_inv_step: "batch_step n outcome s s' \<Longrightarrow> origin_inv n outcome s \<Longrightarrow> origin_inv n outcome s'"
proof (induction rule: batch_step.induct)
  case (thread i s s')
  note upd = origin_inv_upd [OF thread.prems thread.hyps(1)]
  have c: "carries (stop s) (outcome i) (pcs s i)" "stop s \<longrightarrow> promise s \<noteq> None"
    using thread.prems by (simp_all add: origin_inv_def)
  have r: "resolve_one n outcome i s = Some s'" by (rule thread.hyps(2))
  show ?case
  proof (cases "pcs s i")
    case Start
    with r show ?thesis by (intro upd [of s' "if stop s then Done else Querying"]) (auto simp: resolve_one_def carries_def)
  next
    case Querying
    with r show ?thesis by (intro upd [of s' "Got (outcome i)"]) (auto simp: resolve_one_def carries_def)
  next
    case (Got q)
    show ?thesis
    proof (cases q)
      case (Inr rs)
      with Got r c show ?thesis by (intro upd [of s' "Answer rs"]) (auto simp: resolve_one_def carries_def)
    next
      case (Inl e)
      consider "e = CANCELLED" | "e = PARSE \<or> e = CONFIG" | "e \<notin> {CANCELLED, PARSE, CONFIG}" by auto
      then show ?thesis
      proof cases
        case 1
        with Got Inl r c show ?thesis
          by (intro upd [of s' "Counted (completed s)"]) (auto simp: resolve_one_def carries_def)
      next
        case 2
        with Got Inl r c show ?thesis
          by (intro upd [of s' "Definitive e"]) (auto simp: resolve_one_def carries_def)
      next
        case 3
        with Got Inl r c show ?thesis
          by (intro upd [of s' Stored]) (auto simp: resolve_one_def carries_def split: if_splits)
      qed
    qed
  next
    case (Definitive e)
    with r c show ?thesis by (intro upd [of s' Stored]) (auto simp: resolve_one_def carries_def)
  next
    case Stored
    with r c show ?thesis by (intro upd [of s' "Counted (completed s)"]) (auto simp: resolve_one_def carries_def)
  next
    case (Counted prev)
    with r c show ?thesis
      by (intro upd [of s' Done])
         (auto simp: resolve_one_def carries_def signal_completion_def split: if_splits option.splits)
  next
    case (Answer rs)
    with r c show ?thesis
      by (intro upd [of s' Done]) (auto simp: resolve_one_def carries_def split: option.splits)
  next
    case Done
    with r show ?thesis by (simp add: resolve_one_def)
  qed
next
  case (cancelled i s)
  then show ?case by (simp add: origin_inv_def) (simp add: carries_def)
next
  case (request_stop s)
  then have "\<forall>i. carries True (outcome i) (pcs s i)" using carries_stopped by (auto simp: origin_inv_def)
  with request_stop show ?case by (simp add: origin_inv_def)
qed

lemma batch_reach_invs: "batch_reach n outcome s \<Longrightarrow> 0 < n \<Longrightarrow> origin_inv n outcome s \<and> count_inv n s"
proof (induction rule: batch_reach.induct)
  case start
  then show ?case by (auto simp: origin_inv_def count_inv_def batch_start_def carries_def)
next
  case (step s s')
  then show ?case using origin_inv_step count_inv_step by blast
qed

lemma joined_promise: "count_inv n s \<Longrightarrow> joined n s \<Longrightarrow> 0 < n \<Longrightarrow> promise s \<noteq> None"
proof
  assume a: "count_inv n s" "joined n s" "0 < n" "promise s = None"
  then have "{i. i < n \<and> past_count (pcs s i)} = {..<n}" by (auto simp: joined_def)
  with a have "pending n s" by (auto simp: count_inv_def)
  with a(2) show False by (auto simp: joined_def pending_def)
qed

section \<open>Batches in which every query fails\<close>

text \<open>The promise is then set only by the last thread, so no thread is stopped early and every
  NXDOMAIN is recorded before the threads are joined.\<close>

definition failed_inv :: "nat \<Rightarrow> (nat \<Rightarrow> lookup) \<Rightarrow> batch \<Rightarrow> bool" where
  "failed_inv n outcome s \<longleftrightarrow>
     (promise s \<noteq> None \<longrightarrow> (\<forall>i<n. past_count (pcs s i))) \<and>
     (\<forall>i<n. outcome i = Inl NX_DOMAIN \<longrightarrow> pcs s i = Stored \<or> past_count (pcs s i) \<longrightarrow> has_nxdomain s)"

lemma failed_inv_step:
  assumes "batch_step n outcome s s'" "failed_inv n outcome s" "count_inv n s" "origin_inv n outcome s"
    and failed: "\<forall>i<n. isl (outcome i)"
  shows "failed_inv n outcome s'"
  using assms(1-4)
proof (induction rule: batch_step.induct)
  case (thread i s s')
  note d = thread.prems [unfolded failed_inv_def] and r = thread.hyps(2)
  have c: "carries (stop s) (outcome i) (pcs s i)" using thread.prems by (simp add: origin_inv_def)
  have ns: "stop s \<Longrightarrow> past_count (pcs s i)"
    using d(1,2) thread.hyps(1) by (auto simp: count_inv_def)
  have "promise s' \<noteq> None \<longrightarrow> (\<forall>j<n. past_count (pcs s' j))"
  proof
    assume set: "promise s' \<noteq> None"
    show "\<forall>j<n. past_count (pcs s' j)"
    proof (cases "promise s")
      case (Some v)
      then have "\<forall>j<n. past_count (pcs s j)" using d(1) by simp
      moreover have "past_count (pcs s i) \<Longrightarrow> pcs s' = (pcs s)(i := Done)"
        using r by (auto simp: resolve_one_def split: pc.splits)
      ultimately show ?thesis using thread.hyps(1) by auto
    next
      case None
      then have "\<not> stop s" using d(2) by (auto simp: count_inv_def)
      with None set r c failed thread.hyps(1) obtain prev where prev: "pcs s i = Counted prev" "prev + 1 = n"
        "pcs s' = (pcs s)(i := Done)"
        by (auto simp: resolve_one_def signal_completion_def carries_def
              split: pc.splits sum.splits if_splits)
      from d(2) \<open>\<not> stop s\<close> prev(1) have "prev < card {i. i < n \<and> past_count (pcs s i)}"
        unfolding count_inv_def by metis
      moreover have "card {i. i < n \<and> past_count (pcs s i)} \<le> card {..<n}" by (rule card_mono) auto
      ultimately have "card {i. i < n \<and> past_count (pcs s i)} = n" using prev(2) by simp
      from card_all_past [OF this] prev(3) show ?thesis by auto
    qed
  qed
  moreover have "has_nxdomain s'"
    if j: "j < n" "outcome j = Inl NX_DOMAIN" "pcs s' j = Stored \<or> past_count (pcs s' j)" for j
  proof (cases "j = i")
    case False
    then have "pcs s' j = pcs s j" using resolve_one_pcs [OF r] by auto
    then have "has_nxdomain s" using d(1) j by auto
    then show ?thesis using r by (auto simp: resolve_one_def split: pc.splits sum.splits if_splits)
  next
    case True
    then show ?thesis using r d(1) ns c j
      by (cases "pcs s i") (auto simp: resolve_one_def carries_def split: sum.splits if_splits)
  qed
  ultimately show ?case by (auto simp: failed_inv_def)
next
  case (cancelled i s)
  then show ?case by (auto simp: failed_inv_def count_inv_def)
qed (simp add: failed_inv_def)

lemma batch_reach_failed:
  assumes "batch_reach n outcome s" "0 < n" "\<forall>i<n. isl (outcome i)"
  shows "failed_inv n outcome s"
  using assms(1)
proof (induction rule: batch_reach.induct)
  case start
  then show ?case by (simp add: failed_inv_def batch_start_def)
next
  case (step s s')
  then show ?case using failed_inv_step batch_reach_invs assms(2,3) by blast
qed

section \<open>What a batch guarantees\<close>

lemma batch_sound:
  assumes "0 < n" "batch_reach n outcome s" "\<forall>i<n. outcome i \<noteq> Inr []" "batch_result s = Some r"
  shows "case r of Inr rs \<Rightarrow> \<exists>i<n. outcome i = Inr rs
         | Inl e \<Rightarrow> (e = NODATA \<or> (\<exists>i<n. outcome i = Inl e)) \<and> (\<exists>i<n. isl (outcome i))"
proof -
  have inv: "origin_inv n outcome s" using batch_reach_invs assms(1,2) by blast
  then show ?thesis using assms(3,4)
    by (auto simp: batch_result_def origin_inv_def split: option.splits if_splits)
qed

lemma failed_batch:
  assumes "0 < n" "batch_reach n outcome s" "joined n s" "\<forall>i<n. isl (outcome i)"
  shows "\<exists>e. batch_result s = Some (Inl e) \<and> (e = NX_DOMAIN \<longleftrightarrow> (\<exists>i<n. outcome i = Inl NX_DOMAIN))"
proof -
  have inv: "origin_inv n outcome s" "count_inv n s" using batch_reach_invs assms(1,2) by blast+
  have f: "failed_inv n outcome s" by (rule batch_reach_failed [OF assms(2,1,4)])
  have "promise s \<noteq> None" using joined_promise inv(2) assms(1,3) by blast
  moreover have "promise s = Some rs \<Longrightarrow> rs = []" for rs
    using inv(1) assms(4) by (auto simp: origin_inv_def)
  moreover have "has_nxdomain s \<longleftrightarrow> (\<exists>i<n. outcome i = Inl NX_DOMAIN)"
    using f inv(1) assms(3) by (auto simp: failed_inv_def origin_inv_def joined_def)
  ultimately show ?thesis using inv(1) by (auto simp: batch_result_def origin_inv_def)
qed

text \<open>The results \<^verbatim>\<open>run\<close> can return for a batch, over all interleavings; there is always one.\<close>

definition batch_run :: "lookup list \<Rightarrow> lookup \<Rightarrow> bool" where
  "batch_run qs r \<longleftrightarrow>
     (\<exists>s. batch_reach (length qs) (nth qs) s \<and> joined (length qs) s \<and> batch_result s = Some r)"

lemma reach_joined:
  assumes "batch_reach n outcome s" shows "\<exists>s'. batch_reach n outcome s' \<and> joined n s'"
  using assms
proof (induction "batch_weight n s" arbitrary: s rule: less_induct)
  case less
  show ?case
  proof (cases "joined n s")
    case False
    then obtain s' where "batch_step n outcome s s'" using not_joined_step by blast
    with less batch_step_weight batch_reach.step show ?thesis by blast
  qed (use less.prems in blast)
qed

lemma batch_run_exists: "qs \<noteq> [] \<Longrightarrow> \<exists>r. batch_run qs r"
proof -
  assume "qs \<noteq> []"
  then have n: "0 < length qs" by simp
  obtain s where s: "batch_reach (length qs) (nth qs) s" "joined (length qs) s"
    using reach_joined [OF batch_reach.start] by blast
  then have "promise s \<noteq> None" using joined_promise batch_reach_invs n by blast
  then obtain r where "batch_result s = Some r" by (auto simp: batch_result_def)
  with s show ?thesis unfolding batch_run_def by blast
qed

lemma batch_run_sound:
  assumes "batch_run qs r" "qs \<noteq> []" "Inr [] \<notin> set qs"
  shows "case r of Inr rs \<Rightarrow> Inr rs \<in> set qs | Inl e \<Rightarrow> (e = NODATA \<or> Inl e \<in> set qs) \<and> (\<exists>q\<in>set qs. isl q)"
proof -
  from assms(1) obtain s where s: "batch_reach (length qs) (nth qs) s" "batch_result s = Some r"
    by (auto simp: batch_run_def)
  have "\<forall>i<length qs. qs ! i \<noteq> Inr []" using assms(3) nth_mem by metis
  from batch_sound [OF _ s(1) this s(2)] assms(2) show ?thesis by (force split: sum.splits simp: in_set_conv_nth)
qed

lemma batch_run_failed:
  assumes "batch_run qs r" "qs \<noteq> []" "\<forall>q\<in>set qs. isl q"
  shows "\<exists>e. r = Inl e \<and> (e = NX_DOMAIN \<longleftrightarrow> Inl NX_DOMAIN \<in> set qs)"
proof -
  from assms(1) obtain s where s: "batch_reach (length qs) (nth qs) s" "joined (length qs) s" "batch_result s = Some r"
    by (auto simp: batch_run_def)
  have "\<forall>i<length qs. isl (qs ! i)" using assms(3) by simp
  from failed_batch [OF _ s(1,2) this] assms(2) s(3) show ?thesis by (auto simp: in_set_conv_nth)
qed

text \<open>C13. A batch of resolver threads always answers: from every state any interleaving can reach,
  every step uses up a bounded amount of work, some thread can move until all have returned, and once
  they are joined the promise is set, so \<^verbatim>\<open>future.get()\<close> never blocks for ever.\<close>

theorem batch_always_answers:
  assumes "0 < n" "batch_reach n outcome s"
  shows "(\<forall>s'. batch_step n outcome s s' \<longrightarrow> batch_weight n s' < batch_weight n s) \<and>
         (\<not> joined n s \<longrightarrow> (\<exists>s'. batch_step n outcome s s')) \<and>
         (joined n s \<longrightarrow> (\<exists>r. batch_result s = Some r))"
proof -
  have "count_inv n s" using batch_reach_invs assms by blast
  then have "joined n s \<longrightarrow> promise s \<noteq> None" using joined_promise assms(1) by blast
  then show ?thesis using batch_step_weight not_joined_step by (auto simp: batch_result_def)
qed

theorem batch_always_answers_witness:
  "\<exists>s. batch_step 2 (\<lambda>_. Inl RETRY) batch_start s \<and> batch_weight 2 s < batch_weight 2 batch_start"
proof -
  have "\<not> joined 2 batch_start" by (auto simp: joined_def batch_start_def intro!: exI [of _ 0])
  with batch_always_answers [of 2 "\<lambda>_. Inl RETRY" batch_start, OF _ batch_reach.start]
  show ?thesis by auto
qed

text \<open>The result of a batch is one of its queries' results: records come from a resolver that
  returned exactly them; an error is NODATA or the error of one of the resolvers, and is reported only
  when some resolver failed.\<close>

theorem batch_result_sound:
  assumes "0 < n" "batch_reach n outcome s" "\<forall>i<n. outcome i \<noteq> Inr []" "batch_result s = Some r"
  shows "case r of Inr rs \<Rightarrow> \<exists>i<n. outcome i = Inr rs
         | Inl e \<Rightarrow> (e = NODATA \<or> (\<exists>i<n. outcome i = Inl e)) \<and> (\<exists>i<n. isl (outcome i))"
  using assms by (rule batch_sound)

text \<open>When every resolver of a batch fails, the joined batch reports an error, and it reports
  NXDOMAIN exactly when one of the resolvers answered NXDOMAIN, whatever the interleaving.\<close>

theorem failed_batch_prefers_nxdomain:
  assumes "0 < n" "batch_reach n outcome s" "joined n s" "\<forall>i<n. isl (outcome i)"
  shows "\<exists>e. batch_result s = Some (Inl e) \<and> (e = NX_DOMAIN \<longleftrightarrow> (\<exists>i<n. outcome i = Inl NX_DOMAIN))"
  using assms by (rule failed_batch)

text \<open>Runs of a fixed schedule of thread numbers, to exhibit interleavings.\<close>

fun run_schedule :: "nat \<Rightarrow> (nat \<Rightarrow> lookup) \<Rightarrow> nat list \<Rightarrow> batch \<Rightarrow> batch" where
  "run_schedule n outcome [] s = s"
| "run_schedule n outcome (i # is) s =
     run_schedule n outcome is (case resolve_one n outcome i s of None \<Rightarrow> s | Some s' \<Rightarrow> s')"

lemma run_schedule_reach:
  "batch_reach n outcome s \<Longrightarrow> \<forall>i\<in>set is. i < n \<Longrightarrow> batch_reach n outcome (run_schedule n outcome is s)"
proof (induction "is" arbitrary: s)
  case (Cons i "is")
  have "batch_reach n outcome s'" if "resolve_one n outcome i s = Some s'" for s'
    by (rule batch_reach.step [OF Cons.prems(1) batch_step.thread [OF _ that]]) (use Cons.prems in simp)
  with Cons show ?case by (simp split: option.splits)
qed simp

lemma all_less_2: "(\<forall>i<(2::nat). P i) \<longleftrightarrow> P 0 \<and> P 1"
  by (auto simp: numeral_2_eq_2 less_Suc_eq)

theorem batch_result_sound_witness:
  "\<exists>s. batch_result s = Some (Inr [''192.0.2.1'']) \<and>
    (\<exists>i<2. (\<lambda>i::nat. if i = 0 then Inr [''192.0.2.1''] else Inl RETRY) i = Inr [''192.0.2.1''])"
proof -
  let ?o = "\<lambda>i::nat. if i = 0 then Inr [''192.0.2.1''] else Inl RETRY"
  let ?s = "run_schedule 2 ?o [0, 0, 0, 0] batch_start"
  have "batch_reach 2 ?o ?s" by (rule run_schedule_reach [OF batch_reach.start]) simp
  moreover have "batch_result ?s = Some (Inr [''192.0.2.1''])"
    by (simp add: resolve_one_def batch_start_def batch_result_def)
  ultimately show ?thesis
    using batch_result_sound [of 2 ?o ?s "Inr [''192.0.2.1'']"] by auto
qed

theorem failed_batch_prefers_nxdomain_witness:
  "\<exists>s. joined 2 s \<and> (\<exists>e. batch_result s = Some (Inl e) \<and> e = NX_DOMAIN)"
proof -
  let ?o = "\<lambda>i::nat. if i = 0 then Inl NX_DOMAIN else Inl RETRY :: lookup"
  define s where "s = run_schedule 2 ?o [0, 1, 0, 1, 0, 1, 0, 1, 0, 1] batch_start"
  have r: "batch_reach 2 ?o s" unfolding s_def by (rule run_schedule_reach [OF batch_reach.start]) simp
  have j: "joined 2 s"
    unfolding s_def by (simp add: resolve_one_def batch_start_def joined_def all_less_2 signal_completion_def)
  have "\<exists>i<2. ?o i = Inl NX_DOMAIN" by (intro exI [of _ 0]) simp
  with failed_batch_prefers_nxdomain [OF _ r j] j show ?thesis by auto
qed

text \<open>An answer can be lost: the success path increments \<^verbatim>\<open>completed_\<close> before it sets the promise,
  so when the other thread of a batch of two fails between the two actions it sees itself as the last
  one, sets the promise to the empty vector, and the batch reports that thread's error although a
  resolver returned an address.\<close>

theorem batch_can_lose_answer:
  "\<exists>s. batch_reach 2 (\<lambda>i. if i = 0 then Inr [''192.0.2.1''] else Inl RETRY) s \<and> joined 2 s \<and>
     batch_result s = Some (Inl RETRY)"
proof -
  let ?o = "\<lambda>i::nat. if i = 0 then Inr [''192.0.2.1''] else Inl RETRY"
  let ?s = "run_schedule 2 ?o [0, 0, 0, 1, 1, 1, 1, 1, 0] batch_start"
  have "batch_reach 2 ?o ?s" by (rule run_schedule_reach [OF batch_reach.start]) simp
  moreover have "joined 2 ?s \<and> batch_result ?s = Some (Inl RETRY)"
    by (simp add: resolve_one_def batch_start_def batch_result_def joined_def all_less_2 signal_completion_def)
  ultimately show ?thesis by blast
qed

end
