(* ===== verification/Dispatcher.thy ===== *)
theory Dispatcher
  imports Batch_Runner Retry_Util Parser_Lemmas Config_Types "HOL-Library.Multiset"
begin

text \<open>
  The resolver dispatcher (\<^verbatim>\<open>src/dns/dispatcher.cpp\<close>): one query and its classification, the three
  strategies and the choice between them. A resolver is its \<^verbatim>\<open>query\<close> method, a function of the number
  of earlier queries; it may return an error code or throw. The random order of the fallback runner
  and the interleaving of a concurrent batch are arguments, so the theorems hold for each of them.
  The outer sum of a result is undefined behaviour only: every exception is turned into a code.
\<close>

type_synonym resolver = "nat \<Rightarrow> string \<Rightarrow> record_kind \<Rightarrow> (dns_error + byte list) result"

definition is_retryable :: "dns_error \<Rightarrow> bool" where
  "is_retryable error = (error = RETRY \<or> error = UNKNOWN \<or> error = CONNECTION)"

definition classify :: "formatted_response \<Rightarrow> lookup" where
  "classify parsed =
     (if fmt_rcode parsed = NOERROR then
        (if fmt_records parsed \<noteq> [] then Inr (fmt_records parsed) else Inl NODATA)
      else if fmt_rcode parsed = NXDOMAIN then Inl NX_DOMAIN
      else if fmt_rcode parsed = SERVFAIL then Inl RETRY
      else if fmt_rcode parsed = REFUSED then Inl SERVER_REFUSED
      else Inl UNKNOWN)"

text \<open>The \<^verbatim>\<open>catch\<close> clauses: a lookup exception keeps its code, any other becomes UNKNOWN.\<close>

definition catch_lookup :: "lookup result \<Rightarrow> lookup result" where
  "catch_lookup r =
     (case r of
        Inl OutOfBounds \<Rightarrow> Inl OutOfBounds
      | Inl (DnsLookupException e) \<Rightarrow> Inr (Inl e)
      | Inl _ \<Rightarrow> Inr (Inl UNKNOWN)
      | Inr q \<Rightarrow> Inr q)"

definition try_resolve :: "inet_lib \<Rightarrow> (dns_error + byte list) result \<Rightarrow> lookup result" where
  "try_resolve lib query =
     catch_lookup (bindE query (\<lambda>raw.
       case raw of
         Inl e \<Rightarrow> Inr (Inl e)
       | Inr data \<Rightarrow> bindE (parse_strings lib data) (\<lambda>parsed. Inr (classify parsed))))"

section \<open>Strategies\<close>

text \<open>\<open>flatten\<close> is the view of \<open>retry_on_error\<close>: undefined behaviour is an error it never retries.\<close>

definition flatten :: "'x + ('e + 'r) \<Rightarrow> ('x + 'e) + 'r" where
  "flatten r = (case r of Inl x \<Rightarrow> Inl (Inl x) | Inr (Inl e) \<Rightarrow> Inl (Inr e) | Inr (Inr v) \<Rightarrow> Inr v)"

definition unflatten :: "('x + 'e) + 'r \<Rightarrow> 'x + ('e + 'r)" where
  "unflatten r = (case r of Inl (Inl x) \<Rightarrow> Inl x | Inl (Inr e) \<Rightarrow> Inr (Inl e) | Inr v \<Rightarrow> Inr (Inr v))"

definition single_run ::
  "inet_lib \<Rightarrow> resolver \<Rightarrow> string \<Rightarrow> record_kind \<Rightarrow> u32 \<Rightarrow> nat \<Rightarrow> lookup result option" where
  "single_run lib resolver host type max_retries backoff_ms =
     map_option (\<lambda>(r, _, _). unflatten r)
       (retry_on_error (\<lambda>k. flatten (try_resolve lib (resolver k host type))) max_retries
          (\<lambda>e. case e of Inl _ \<Rightarrow> False | Inr code \<Rightarrow> is_retryable code) backoff_ms)"

definition definitive :: "dns_error \<Rightarrow> bool" where
  "definitive e = (e = NX_DOMAIN \<or> e = PARSE \<or> e = CONFIG)"

text \<open>The loop over the shuffled indices, with the list of resolvers queried so far.\<close>

fun fallback_loop ::
  "(nat \<Rightarrow> lookup result) \<Rightarrow> nat list \<Rightarrow> dns_error \<Rightarrow> nat list \<Rightarrow> (lookup \<times> nat list) result" where
  "fallback_loop ask [] last_error queried = Inr (Inl last_error, queried)"
| "fallback_loop ask (idx # indices) last_error queried =
     bindE (ask idx) (\<lambda>r.
       case r of
         Inr records \<Rightarrow> Inr (Inr records, queried @ [idx])
       | Inl e \<Rightarrow>
           if definitive e then Inr (Inl e, queried @ [idx])
           else fallback_loop ask indices e (queried @ [idx]))"

definition fallback_run ::
  "inet_lib \<Rightarrow> nat list \<Rightarrow> resolver list \<Rightarrow> string \<Rightarrow> record_kind \<Rightarrow> (lookup \<times> nat list) result" where
  "fallback_run lib indices resolvers host type =
     fallback_loop (\<lambda>idx. try_resolve lib ((resolvers ! idx) 0 host type)) indices NODATA []"

abbreviation (input) MAX_CONCURRENT_RESOLVERS :: nat where "MAX_CONCURRENT_RESOLVERS \<equiv> 3"

function concurrent_loop ::
  "(nat \<Rightarrow> lookup list \<Rightarrow> lookup) \<Rightarrow> ('r \<Rightarrow> lookup result) \<Rightarrow> 'r list \<Rightarrow> nat \<Rightarrow> dns_error \<Rightarrow> lookup result" where
  "concurrent_loop run ask resolvers offset last_error =
     (if offset < length resolvers then
        let batch_end = min (offset + MAX_CONCURRENT_RESOLVERS) (length resolvers);
            batch = take (batch_end - offset) (drop offset resolvers) in
        bindE (mapE ask batch) (\<lambda>qs.
          case run offset qs of
            Inr records \<Rightarrow>
              if records \<noteq> [] then Inr (Inr records)
              else concurrent_loop run ask resolvers (offset + MAX_CONCURRENT_RESOLVERS) last_error
          | Inl e \<Rightarrow>
              if definitive e then Inr (Inl e)
              else concurrent_loop run ask resolvers (offset + MAX_CONCURRENT_RESOLVERS) e)
      else Inr (Inl last_error))"
  by pat_completeness auto
termination by (relation "measure (\<lambda>(_, _, rs, offset, _). length rs - offset)") auto

declare concurrent_loop.simps [simp del]

definition concurrent_run ::
  "inet_lib \<Rightarrow> (nat \<Rightarrow> lookup list \<Rightarrow> lookup) \<Rightarrow> resolver list \<Rightarrow> string \<Rightarrow> record_kind \<Rightarrow> lookup result" where
  "concurrent_run lib run resolvers host type =
     concurrent_loop run (\<lambda>r. try_resolve lib (r 0 host type)) resolvers 0 NODATA"

definition resolve_multi ::
  "inet_lib \<Rightarrow> nat list \<Rightarrow> (nat \<Rightarrow> lookup list \<Rightarrow> lookup) \<Rightarrow> resolver list \<Rightarrow> resolver_strategy \<Rightarrow>
   string \<Rightarrow> record_kind \<Rightarrow> lookup result" where
  "resolve_multi lib indices run resolvers strategy host type =
     (if strategy = FALLBACK then map_sum id fst (fallback_run lib indices resolvers host type)
      else concurrent_run lib run resolvers host type)"

definition resolve ::
  "inet_lib \<Rightarrow> nat list \<Rightarrow> (nat \<Rightarrow> lookup list \<Rightarrow> lookup) \<Rightarrow> resolver list \<Rightarrow> resolver_strategy \<Rightarrow>
   string \<Rightarrow> record_kind \<Rightarrow> u32 \<Rightarrow> nat \<Rightarrow> lookup result option" where
  "resolve lib indices run resolvers strategy host type max_retries backoff_ms =
     (if length resolvers = 1 then single_run lib (resolvers ! 0) host type max_retries backoff_ms
      else Some (resolve_multi lib indices run resolvers strategy host type))"

section \<open>One query\<close>

lemma classify_Inr: "classify p = Inr rs \<longleftrightarrow> fmt_rcode p = NOERROR \<and> fmt_records p = rs \<and> rs \<noteq> []"
  by (auto simp: classify_def)

lemma catch_lookup_Inl [simp]: "catch_lookup r = Inl x \<longleftrightarrow> x = OutOfBounds \<and> r = Inl OutOfBounds"
  by (auto simp: catch_lookup_def split: sum.splits exn.splits)

lemma catch_lookup_Inr_Inr [simp]: "catch_lookup r = Inr (Inr rs) \<longleftrightarrow> r = Inr (Inr rs)"
  by (auto simp: catch_lookup_def split: sum.splits exn.splits)

lemma try_resolve_success:
  "try_resolve lib q = Inr (Inr rs) \<longleftrightarrow>
   (\<exists>data. q = Inr (Inr data) \<and> parse_strings lib data = Inr \<lparr>fmt_rcode = NOERROR, fmt_records = rs\<rparr> \<and> rs \<noteq> [])"
  by (cases q) (auto simp: try_resolve_def classify_Inr split: sum.splits)

lemma try_resolve_undefined:
  "try_resolve lib q = Inl x \<longleftrightarrow>
   x = OutOfBounds \<and> (q = Inl OutOfBounds \<or> (\<exists>data. q = Inr (Inr data) \<and> parse_strings lib data = Inl OutOfBounds))"
  by (cases q) (auto simp: try_resolve_def bindE_def split: sum.splits)

section \<open>The fallback loop\<close>

definition soft_error :: "lookup result \<Rightarrow> bool" where
  "soft_error r = (\<exists>e. r = Inr (Inl e) \<and> \<not> definitive e)"

lemma fallback_loop_split:
  assumes "\<forall>i\<in>set pre. soft_error (ask i)"
  shows "\<exists>e. fallback_loop ask (pre @ rest) le q = fallback_loop ask rest e (q @ pre) \<and>
    (if pre = [] then e = le else ask (last pre) = Inr (Inl e))"
  using assms
proof (induction pre arbitrary: le q)
  case (Cons i pre)
  then obtain e where e: "ask i = Inr (Inl e)" "\<not> definitive e" by (auto simp: soft_error_def)
  with Cons.IH [of e "q @ [i]"] Cons.prems show ?case by auto
qed simp

lemma fallback_loop_first:
  assumes "\<forall>i\<in>set pre. soft_error (ask i)" "ask k = Inr r" "\<not> soft_error (ask k)"
  shows "fallback_loop ask (pre @ k # post) le q = Inr (r, q @ pre @ [k])"
  using fallback_loop_split [OF assms(1), of "k # post" le q] assms(2,3)
  by (cases r) (auto simp: soft_error_def)

lemma fallback_loop_success:
  "fallback_loop ask is le q = Inr (Inr rs, q') \<Longrightarrow> \<exists>i\<in>set is. ask i = Inr (Inr rs)"
proof (induction "is" arbitrary: le q)
  case (Cons i "is")
  then obtain r where r: "ask i = Inr r" by auto
  with Cons show ?case by (cases r) (auto split: if_splits)
qed simp

lemma first_not_soft:
  assumes "\<not> (\<forall>i\<in>set is. P i)"
  shows "\<exists>pre k post. is = pre @ k # post \<and> (\<forall>i\<in>set pre. P i) \<and> \<not> P k"
  using assms split_list_first_prop [of "is" "\<lambda>i. \<not> P i"] by auto

section \<open>The concurrent loop\<close>

text \<open>What each batch guarantees carries over to the loop: \<open>run\<close> picks one of the results the
  interleavings of a batch allow.\<close>

definition allowed :: "(nat \<Rightarrow> lookup list \<Rightarrow> lookup) \<Rightarrow> bool" where
  "allowed run \<longleftrightarrow> (\<forall>offset qs. qs \<noteq> [] \<longrightarrow> batch_run qs (run offset qs))"

lemma allowed_exists: "\<exists>run. allowed run"
proof -
  have "\<exists>run. \<forall>qs. qs \<noteq> [] \<longrightarrow> batch_run qs (run qs)" using batch_run_exists by metis
  then obtain run where "\<forall>qs. qs \<noteq> [] \<longrightarrow> batch_run qs (run qs)" ..
  then have "allowed (\<lambda>_. run)" by (simp add: allowed_def)
  then show ?thesis by blast
qed

lemma mapE_Inr_exists: "\<forall>x\<in>set xs. \<exists>y. f x = Inr y \<Longrightarrow> \<exists>ys. mapE f xs = Inr ys"
  by (induction xs) auto

lemma mapE_set: "mapE f xs = Inr ys \<Longrightarrow> set ys = {y. \<exists>x\<in>set xs. f x = Inr y} \<and> length ys = length xs"
  by (induction xs arbitrary: ys) auto

lemma concurrent_batch_take: "take (min (a + 3) (length rs) - a) (drop a rs) = take 3 (drop a rs)"
  by (simp add: min_def)

lemma concurrent_batch:
  assumes "offset < length rs"
  defines "batch \<equiv> take (min (offset + 3) (length rs) - offset) (drop offset rs)"
  shows "set batch \<subseteq> set rs" "batch \<noteq> []" "length batch \<le> 3"
  using assms set_take_subset [of _ "drop offset rs"] set_drop_subset [of offset rs] by auto

lemma concurrent_loop_sound:
  assumes "concurrent_loop run ask rs offset le = Inr r" "allowed run"
    "\<forall>x\<in>set rs. ask x \<noteq> Inr (Inr [])"
    "le = NODATA \<or> (\<exists>x\<in>set rs. ask x = Inr (Inl le))"
  shows "case r of Inr recs \<Rightarrow> \<exists>x\<in>set rs. ask x = Inr (Inr recs)
         | Inl e \<Rightarrow> e = NODATA \<or> (\<exists>x\<in>set rs. ask x = Inr (Inl e))"
  using assms
proof (induction run ask rs offset le rule: concurrent_loop.induct)
  case (1 run ask rs offset le)
  show ?case
  proof (cases "offset < length rs")
    case False
    with "1.prems"(1,4) show ?thesis by (subst (asm) concurrent_loop.simps) auto
  next
    case True
    let ?batch = "take (min (offset + 3) (length rs) - offset) (drop offset rs)"
    note b = concurrent_batch [OF True]
    from "1.prems"(1) True obtain qs where qs: "mapE ask ?batch = Inr qs"
      by (subst (asm) concurrent_loop.simps) (auto simp: Let_def)
    note set_qs = mapE_set [OF qs]
    have "qs \<noteq> []" using set_qs b(2) by auto
    moreover have "Inr [] \<notin> set qs" using set_qs b(1) "1.prems"(3) by blast
    moreover have "batch_run qs (run offset qs)" using "1.prems"(2) \<open>qs \<noteq> []\<close> by (simp add: allowed_def)
    ultimately have snd: "case run offset qs of Inr recs \<Rightarrow> Inr recs \<in> set qs
        | Inl e \<Rightarrow> (e = NODATA \<or> Inl e \<in> set qs) \<and> (\<exists>q\<in>set qs. isl q)"
      using batch_run_sound by blast
    show ?thesis
    proof (cases "run offset qs")
      case (Inr recs)
      then have "recs \<noteq> []" using snd \<open>Inr [] \<notin> set qs\<close> by auto
      with "1.prems"(1) True qs Inr have "r = Inr recs"
        by (subst (asm) concurrent_loop.simps) (simp add: Let_def)
      then show ?thesis using snd Inr set_qs b(1) by auto
    next
      case (Inl e)
      then have e: "e = NODATA \<or> (\<exists>x\<in>set rs. ask x = Inr (Inl e))" using snd set_qs b(1) by auto
      show ?thesis
      proof (cases "definitive e")
        case True
        with "1.prems"(1) \<open>offset < length rs\<close> qs Inl have "r = Inl e"
          by (subst (asm) concurrent_loop.simps) (simp add: Let_def)
        then show ?thesis using e by simp
      next
        case False
        with "1.prems"(1) True qs Inl have "concurrent_loop run ask rs (offset + 3) e = Inr r"
          by (subst (asm) concurrent_loop.simps) (simp add: Let_def)
        from "1.IH"(1) [OF True refl refl qs Inl False this "1.prems"(2,3) e] show ?thesis .
      qed
    qed
  qed
qed

lemma concurrent_loop_total:
  assumes "\<forall>x\<in>set rs. \<exists>r. ask x = Inr r"
  shows "\<exists>r. concurrent_loop run ask rs offset le = Inr r"
  using assms
proof (induction run ask rs offset le rule: concurrent_loop.induct)
  case (1 run ask rs offset le)
  show ?case
  proof (cases "offset < length rs")
    case True
    let ?batch = "take (min (offset + 3) (length rs) - offset) (drop offset rs)"
    have "\<forall>x\<in>set ?batch. \<exists>y. ask x = Inr y" using concurrent_batch(1) [OF True] "1.prems" by blast
    then obtain qs where "mapE ask ?batch = Inr qs" using mapE_Inr_exists [of ?batch ask] by blast
    with 1 True show ?thesis by (subst concurrent_loop.simps) (auto simp: Let_def split: sum.splits)
  qed (subst concurrent_loop.simps, simp)
qed

lemma concurrent_loop_failed:
  assumes "allowed run" "\<forall>x\<in>set rs. \<exists>e. ask x = Inr (Inl e) \<and> e \<noteq> PARSE \<and> e \<noteq> CONFIG" "\<not> definitive le"
  shows "\<exists>e. concurrent_loop run ask rs offset le = Inr (Inl e) \<and>
    (e = NX_DOMAIN \<longleftrightarrow> (\<exists>x\<in>set (drop offset rs). ask x = Inr (Inl NX_DOMAIN))) \<and> (definitive e \<longrightarrow> e = NX_DOMAIN)"
  using assms
proof (induction run ask rs offset le rule: concurrent_loop.induct)
  case (1 run ask rs offset le)
  show ?case
  proof (cases "offset < length rs")
    case False
    with "1.prems"(3) show ?thesis by (subst concurrent_loop.simps) (auto simp: definitive_def)
  next
    case True
    let ?batch = "take (min (offset + 3) (length rs) - offset) (drop offset rs)"
    have split: "set (drop offset rs) = set ?batch \<union> set (drop (offset + 3) rs)"
      unfolding concurrent_batch_take
      using append_take_drop_id [of 3 "drop offset rs"] by (metis add.commute drop_drop set_append)
    note b = concurrent_batch [OF True]
    have "\<forall>x\<in>set ?batch. \<exists>e. ask x = Inr (Inl e)" using b(1) "1.prems"(2) by blast
    then obtain qs where qs: "mapE ask ?batch = Inr qs" using mapE_Inr_exists [of ?batch ask] by blast
    note set_qs = mapE_set [OF qs]
    have fail: "\<exists>e. q = Inl e \<and> e \<noteq> PARSE \<and> e \<noteq> CONFIG" if "q \<in> set qs" for q
      using that set_qs b(1) "1.prems"(2) by fastforce
    have "qs \<noteq> []" using set_qs b(2) by auto
    then have "batch_run qs (run offset qs)" using "1.prems"(1) by (simp add: allowed_def)
    moreover have "\<forall>q\<in>set qs. isl q" "Inr [] \<notin> set qs" using fail by fastforce+
    ultimately obtain e where e: "run offset qs = Inl e" "e = NX_DOMAIN \<longleftrightarrow> Inl NX_DOMAIN \<in> set qs"
        "e = NODATA \<or> Inl e \<in> set qs"
      using batch_run_failed [OF _ \<open>qs \<noteq> []\<close>] batch_run_sound [OF _ \<open>qs \<noteq> []\<close>] by fastforce
    have nx: "Inl NX_DOMAIN \<in> set qs \<longleftrightarrow> (\<exists>x\<in>set ?batch. ask x = Inr (Inl NX_DOMAIN))"
      using set_qs by auto
    show ?thesis
    proof (cases "e = NX_DOMAIN")
      case True
      then have "concurrent_loop run ask rs offset le = Inr (Inl NX_DOMAIN)"
        using e(1) qs \<open>offset < length rs\<close> by (subst concurrent_loop.simps) (simp add: Let_def definitive_def)
      then show ?thesis using True e(2) nx split by auto
    next
      case False
      then have soft: "\<not> definitive e" using e(3) fail by (fastforce simp: definitive_def)
      then have "concurrent_loop run ask rs offset le = concurrent_loop run ask rs (offset + 3) e"
        using e(1) qs True by (subst concurrent_loop.simps) (simp add: Let_def)
      moreover note "1.IH"(1) [OF True refl refl qs e(1) soft "1.prems"(1,2) soft]
      moreover have "\<not> (\<exists>x\<in>set ?batch. ask x = Inr (Inl NX_DOMAIN))" using False e(2) nx by simp
      ultimately show ?thesis unfolding split by auto
    qed
  qed
qed

section \<open>Properties\<close>

lemma unflatten_flatten [simp]: "unflatten (flatten r) = r"
  by (auto simp: flatten_def unflatten_def split: sum.splits)

lemma single_run_last_attempt:
  assumes "unat max_retries < 2 ^ 32 - 1"
  shows "\<exists>k \<le> unat max_retries.
    single_run lib resolver host type max_retries backoff_ms = Some (try_resolve lib (resolver k host type)) \<and>
    (\<forall>j<k. \<exists>e. try_resolve lib (resolver j host type) = Inr (Inl e) \<and> is_retryable e)"
proof -
  let ?f = "\<lambda>k. flatten (try_resolve lib (resolver k host type))"
  let ?flt = "\<lambda>e. case e of Inl _ \<Rightarrow> False | Inr code \<Rightarrow> is_retryable code"
  obtain k where k: "k \<le> unat max_retries" "retry_on_error ?f max_retries ?flt backoff_ms =
      Some (?f k, of_nat k, map (\<lambda>i. backoff_ms * Suc i) [0..<k])" "\<forall>j<k. \<not> stops_at ?f ?flt j"
    using retry_loop_returns [OF assms, of 0 ?f ?flt backoff_ms 0 "[]"] by (auto simp: retry_on_error_def)
  have "\<exists>e. try_resolve lib (resolver j host type) = Inr (Inl e) \<and> is_retryable e" if "j < k" for j
    using k(3) [rule_format, OF that]
    by (cases "try_resolve lib (resolver j host type)") (auto simp: stops_at_def flatten_def split: sum.splits)
  with k(1,2) show ?thesis by (auto simp: single_run_def)
qed

text \<open>One query never lets an exception escape, and its outcome is the classification of the
  response: records are returned exactly when the resolver returned a packet that parses to NOERROR
  with at least one record, NXDOMAIN when the packet says so or the resolver does, and undefined
  behaviour arises only in the formatting of short MX, SOA or SRV data.\<close>

theorem try_resolve_outcome:
  assumes "query \<noteq> Inl OutOfBounds"
    "\<And>data m. query = Inr (Inr data) \<Longrightarrow> parse_message data False = Inr m \<Longrightarrow>
       \<forall>rr\<in>set (m_answers m). \<not> reads_past_rdata (rr_type rr)"
  shows "\<exists>r. try_resolve lib query = Inr r \<and>
    (\<forall>rs. r = Inr rs \<longleftrightarrow> (\<exists>data. query = Inr (Inr data) \<and>
       parse_strings lib data = Inr \<lparr>fmt_rcode = NOERROR, fmt_records = rs\<rparr> \<and> rs \<noteq> []))"
proof -
  have "parse_strings lib data \<noteq> Inl OutOfBounds" if "query = Inr (Inr data)" for data
    using parse_strings_ok [OF assms(2) [OF that]] ok_or_parse_errorD by blast
  then obtain r where r: "try_resolve lib query = Inr r"
    using assms(1) try_resolve_undefined [of lib query] by (cases "try_resolve lib query") auto
  then show ?thesis using try_resolve_success [of lib query] by auto
qed

theorem try_resolve_outcome_witness:
  "try_resolve sample_lib (Inr (Inr sample_response)) = Inr (Inr [''192.0.2.1''])"
proof -
  have "(case parse_message sample_response False of Inl _ \<Rightarrow> False
      | Inr m \<Rightarrow> list_all (\<lambda>rr. \<not> reads_past_rdata (rr_type rr)) (m_answers m))"
    by code_simp
  then have "\<And>m. parse_message sample_response False = Inr m \<Longrightarrow>
      \<forall>rr\<in>set (m_answers m). \<not> reads_past_rdata (rr_type rr)"
    by (simp add: list_all_iff)
  then obtain r where r: "try_resolve sample_lib (Inr (Inr sample_response)) = Inr r"
    "r = Inr [''192.0.2.1''] \<longleftrightarrow> parse_strings sample_lib sample_response = Inr \<lparr>fmt_rcode = NOERROR, fmt_records = [''192.0.2.1'']\<rparr>"
    using try_resolve_outcome [of "Inr (Inr sample_response)" sample_lib] by auto
  have "parse_strings sample_lib sample_response = Inr \<lparr>fmt_rcode = NOERROR, fmt_records = [''192.0.2.1'']\<rparr>"
    by code_simp
  with r show ?thesis by simp
qed

text \<open>C22. The fallback runner returns the first decisive answer in the order it was given: it queries
  the resolvers one after another, each at most once, until one returns records or a definitive
  error, whose result it returns; when every resolver fails softly it has queried all of them and
  returns the last error. In particular, whatever the shuffle, an answer is found when some resolver
  has one and none fails definitively.\<close>

theorem fallback_returns_first_decisive:
  fixes resolvers host type lib
  defines "ask \<equiv> \<lambda>i. try_resolve lib ((resolvers ! i) 0 host type)"
  assumes "mset indices = mset [0..<length resolvers]" "\<And>i. i < length resolvers \<Longrightarrow> ask i \<noteq> Inl OutOfBounds"
  shows "\<exists>r queried rest. fallback_run lib indices resolvers host type = Inr (r, queried) \<and>
    indices = queried @ rest \<and> distinct queried \<and>
    (if \<forall>i<length resolvers. soft_error (ask i)
     then rest = [] \<and> (if resolvers = [] then r = Inl NODATA else ask (last queried) = Inr r)
     else queried \<noteq> [] \<and> ask (last queried) = Inr r \<and> \<not> soft_error (Inr r) \<and>
          (\<forall>i\<in>set (butlast queried). soft_error (ask i)))"
proof -
  have dist: "distinct indices" using mset_eq_imp_distinct_iff [OF assms(2)] by simp
  have set: "set indices = {0..<length resolvers}" using mset_eq_setD [OF assms(2)] by simp
  show ?thesis
  proof (cases "\<forall>i\<in>set indices. soft_error (ask i)")
    case True
    then obtain e where e: "fallback_run lib indices resolvers host type = Inr (Inl e, indices)"
      "if indices = [] then e = NODATA else ask (last indices) = Inr (Inl e)"
      using fallback_loop_split [of indices ask "[]" NODATA "[]"] by (auto simp: fallback_run_def ask_def)
    have "indices = [] \<longleftrightarrow> resolvers = []" using set by auto
    with e True dist set show ?thesis by auto
  next
    case False
    then obtain pre k post where k: "indices = pre @ k # post" "\<forall>i\<in>set pre. soft_error (ask i)" "\<not> soft_error (ask k)"
      using first_not_soft [OF False] by blast
    have "k < length resolvers" using set k(1) by auto
    moreover have "ask k = Inl x \<Longrightarrow> x = OutOfBounds" for x by (simp add: ask_def try_resolve_undefined)
    ultimately obtain r where r: "ask k = Inr r" using assms(3) [of k] by (cases "ask k") auto
    from fallback_loop_first [OF k(2) r k(3)] k(1)
    have "fallback_run lib indices resolvers host type = Inr (r, pre @ [k])"
      by (simp add: fallback_run_def ask_def)
    moreover have "\<not> (\<forall>i<length resolvers. soft_error (ask i))" using \<open>k < length resolvers\<close> k(3) by blast
    moreover have "indices = (pre @ [k]) @ post" "distinct (pre @ [k])" using k(1) dist by auto
    moreover have "\<not> soft_error (Inr r)" "ask (last (pre @ [k])) = Inr r" using k(3) r by simp_all
    moreover have "\<forall>i\<in>set (butlast (pre @ [k])). soft_error (ask i)" using k(2) by simp
    ultimately show ?thesis by (metis snoc_eq_iff_butlast)
  qed
qed

theorem fallback_returns_first_decisive_witness:
  "\<exists>r queried. fallback_run sample_lib [1, 0] [\<lambda>_ _ _. Inr (Inr sample_response), \<lambda>_ _ _. Inr (Inl CONNECTION)] ''a.io'' Kind_A
     = Inr (r, queried) \<and> r = Inr [''192.0.2.1'']"
proof -
  let ?rs = "[\<lambda>_ _ _. Inr (Inr sample_response), \<lambda>_ _ _. Inr (Inl CONNECTION)] :: resolver list"
  let ?ask = "\<lambda>i. try_resolve sample_lib ((?rs ! i) 0 ''a.io'' Kind_A)"
  have "parse_strings sample_lib sample_response = Inr \<lparr>fmt_rcode = NOERROR, fmt_records = [''192.0.2.1'']\<rparr>"
    by code_simp
  then have ask: "?ask 0 = Inr (Inr [''192.0.2.1''])" "?ask 1 = Inr (Inl CONNECTION)"
    by (simp_all add: try_resolve_success) (simp add: try_resolve_def catch_lookup_def)
  have lt: "i < length ?rs \<Longrightarrow> i = 0 \<or> i = 1" for i by auto
  have "mset [1, 0] = mset [0..<length ?rs]" by (simp add: upt_rec)
  moreover have "?ask i \<noteq> Inl OutOfBounds" if "i < length ?rs" for i
    using lt [OF that] ask by (elim disjE) simp_all
  ultimately obtain r queried rest where q:
    "fallback_run sample_lib [1, 0] ?rs ''a.io'' Kind_A = Inr (r, queried)"
    "if \<forall>i<length ?rs. soft_error (?ask i) then rest = [] \<and> (if ?rs = [] then r = Inl NODATA else ?ask (last queried) = Inr r)
     else queried \<noteq> [] \<and> ?ask (last queried) = Inr r \<and> \<not> soft_error (Inr r) \<and>
          (\<forall>i\<in>set (butlast queried). soft_error (?ask i))" "[1, 0] = queried @ rest"
    using fallback_returns_first_decisive [of "[1, 0]" ?rs sample_lib "''a.io''" Kind_A] by blast
  have "\<not> soft_error (?ask 0)" unfolding ask by (simp add: soft_error_def)
  with q(2) have "?ask (last queried) = Inr r" "\<not> soft_error (Inr r)" "queried \<noteq> []" by (metis length_greater_0_conv list.discI)+
  moreover have "last queried \<in> {0, 1}" using q(3) \<open>queried \<noteq> []\<close> by (metis in_set_conv_decomp append_butlast_last_id append_Cons append_assoc
    empty_set insertE insert_commute list.simps(15) singletonD UnCI in_set_butlastD last_in_set set_append)
  ultimately have "r = Inr [''192.0.2.1'']" using ask by (auto simp: soft_error_def definitive_def)
  with q(1) show ?thesis by blast
qed

text \<open>C23. The concurrent runner invents nothing: for every interleaving of every batch, records it
  returns were returned by one of the resolvers, and an error it returns is NODATA or the error of
  one of them.\<close>

theorem concurrent_run_sound:
  assumes "allowed run" "concurrent_run lib run resolvers host type = Inr r"
  shows "case r of Inr rs \<Rightarrow> \<exists>x\<in>set resolvers. try_resolve lib (x 0 host type) = Inr (Inr rs)
         | Inl e \<Rightarrow> e = NODATA \<or> (\<exists>x\<in>set resolvers. try_resolve lib (x 0 host type) = Inr (Inl e))"
  using concurrent_loop_sound [OF assms(2) [unfolded concurrent_run_def] assms(1)]
  by (simp add: try_resolve_success)

text \<open>Over several batches NXDOMAIN is reported exactly when a resolver answers it: when every
  resolver fails, none with a PARSE or CONFIG error, the concurrent runner reports an error, and it
  is NXDOMAIN if and only if some resolver said NXDOMAIN; otherwise all resolvers have been asked.\<close>

theorem concurrent_run_reports_nxdomain:
  assumes "allowed run"
    "\<forall>x\<in>set resolvers. \<exists>e. try_resolve lib (x 0 host type) = Inr (Inl e) \<and> e \<noteq> PARSE \<and> e \<noteq> CONFIG"
  shows "\<exists>e. concurrent_run lib run resolvers host type = Inr (Inl e) \<and>
    (e = NX_DOMAIN \<longleftrightarrow> (\<exists>x\<in>set resolvers. try_resolve lib (x 0 host type) = Inr (Inl NX_DOMAIN)))"
  using concurrent_loop_failed [OF assms, of NODATA 0] by (auto simp: concurrent_run_def definitive_def)

theorem concurrent_run_reports_nxdomain_witness:
  "\<exists>run. concurrent_run sample_lib run
     [\<lambda>_ _ _. Inr (Inl RETRY), \<lambda>_ _ _. Inr (Inl NODATA), \<lambda>_ _ _. Inl SocketException, \<lambda>_ _ _. Inr (Inl NX_DOMAIN)]
     ''a.io'' Kind_A = Inr (Inl NX_DOMAIN)"
proof -
  obtain run where run: "allowed run" using allowed_exists by blast
  let ?rs = "[\<lambda>_ _ _. Inr (Inl RETRY), \<lambda>_ _ _. Inr (Inl NODATA), \<lambda>_ _ _. Inl SocketException,
    \<lambda>_ _ _. Inr (Inl NX_DOMAIN)] :: resolver list"
  have "\<exists>e. concurrent_run sample_lib run ?rs ''a.io'' Kind_A = Inr (Inl e) \<and> (e = NX_DOMAIN \<longleftrightarrow>
      (\<exists>x\<in>set ?rs. try_resolve sample_lib (x 0 ''a.io'' Kind_A) = Inr (Inl NX_DOMAIN)))"
    by (rule concurrent_run_reports_nxdomain [OF run]) (simp add: try_resolve_def catch_lookup_def)
  then show ?thesis by (auto simp: try_resolve_def catch_lookup_def intro!: exI [of _ run])
qed

theorem concurrent_run_sound_witness:
  "\<exists>run r. concurrent_run sample_lib run [\<lambda>_ _ _. Inr (Inr sample_response), \<lambda>_ _ _. Inr (Inr sample_response)]
     ''a.io'' Kind_A = Inr r \<and> r \<in> {Inr [''192.0.2.1''], Inl NODATA}"
proof -
  obtain run where run: "allowed run" using allowed_exists by blast
  let ?rs = "[\<lambda>_ _ _. Inr (Inr sample_response), \<lambda>_ _ _. Inr (Inr sample_response)] :: resolver list"
  have t: "try_resolve sample_lib (Inr (Inr sample_response)) = Inr (Inr [''192.0.2.1''])" by code_simp
  then obtain r where r: "concurrent_run sample_lib run ?rs ''a.io'' Kind_A = Inr r"
    using concurrent_loop_total [of ?rs "\<lambda>x. try_resolve sample_lib (x 0 ''a.io'' Kind_A)" run 0 NODATA]
    by (auto simp: concurrent_run_def)
  with concurrent_run_sound [OF run r] t show ?thesis by (auto split: sum.splits)
qed

text \<open>\<open>resolve\<close> returns, for every strategy, number of resolvers and retry limit below the largest
  unsigned value, and what it returns is genuine: records were parsed from a packet that one of the
  resolvers returned with RCODE NOERROR, never an empty list.\<close>

lemma resolve_genuine:
  assumes "unat max_retries < 2 ^ 32 - 1" "allowed run" "set indices \<subseteq> {..<length resolvers}"
  shows "\<exists>r. resolve lib indices run resolvers strategy host type max_retries backoff_ms = Some r \<and>
    (\<forall>rs. r = Inr (Inr rs) \<longrightarrow> rs \<noteq> [] \<and>
      (\<exists>x\<in>set resolvers. \<exists>k \<le> unat max_retries. \<exists>data. x k host type = Inr (Inr data) \<and>
        parse_strings lib data = Inr \<lparr>fmt_rcode = NOERROR, fmt_records = rs\<rparr>))"
proof (cases "length resolvers = 1")
  case True
  then have "resolvers ! 0 \<in> set resolvers" by simp
  with single_run_last_attempt [OF assms(1), of lib "resolvers ! 0" host type backoff_ms] True
  show ?thesis by (fastforce simp: resolve_def try_resolve_success)
next
  case False
  have "rs \<noteq> [] \<and> (\<exists>x\<in>set resolvers. \<exists>data. x 0 host type = Inr (Inr data) \<and>
      parse_strings lib data = Inr \<lparr>fmt_rcode = NOERROR, fmt_records = rs\<rparr>)"
    if "resolve_multi lib indices run resolvers strategy host type = Inr (Inr rs)" for rs
  proof -
    have "\<exists>x\<in>set resolvers. try_resolve lib (x 0 host type) = Inr (Inr rs)"
    proof (cases "strategy = FALLBACK")
      case True
      with that obtain q where "fallback_run lib indices resolvers host type = Inr (Inr rs, q)"
        by (cases "fallback_run lib indices resolvers host type") (auto simp: resolve_multi_def)
      then show ?thesis using fallback_loop_success assms(3) by (fastforce simp: fallback_run_def)
    next
      case False
      with that have "concurrent_run lib run resolvers host type = Inr (Inr rs)" by (simp add: resolve_multi_def)
      from concurrent_loop_sound [OF this [unfolded concurrent_run_def] assms(2)] show ?thesis
        by (simp add: try_resolve_success)
    qed
    then show ?thesis by (auto simp: try_resolve_success)
  qed
  then show ?thesis using False by (fastforce simp: resolve_def)
qed

end
