(* ===== verification/Updater.thy ===== *)
theory Updater
  imports Dispatcher
begin

text \<open>
  One update (\<^verbatim>\<open>src/core/updater.cpp\<close>). The effects of \<open>process\<close> are a list of events: the DNS
  lookup and the call of the driver. The IP source, the dispatcher, the driver and the JSON printer
  are arguments; a source and a driver may throw. \<open>updater_process\<close> is the noexcept boundary, which
  drops the exception and keeps what happened before it.
\<close>

record driver_update_params =
  p_ip_addr :: string
  p_rd_type :: string
  p_domain :: string
  p_subdomain :: string
  p_fqdn :: string

datatype event =
    Lookup string record_kind
  | Execute string driver_update_params

definition filter_ipv6_candidates :: "'json subdomain_config \<Rightarrow> inet_address list \<Rightarrow> inet_address list" where
  "filter_ipv6_candidates config candidates =
     (let candidates = (if \<not> allow_local_link config then filter (\<lambda>a. \<not> is_link_local a) candidates else candidates)
      in if \<not> allow_ula config then filter (\<lambda>a. \<not> is_ula a) candidates else candidates)"

text \<open>The enumerator names of \<^verbatim>\<open>RecordKind\<close>, as \<^verbatim>\<open>magic_enum::enum_name\<close> gives them.\<close>

fun kind_name :: "record_kind \<Rightarrow> string" where
  "kind_name Kind_A = ''A''"
| "kind_name Kind_AAAA = ''AAAA''"
| "kind_name Kind_TXT = ''TXT''"

definition resolve_local_address ::
  "('json subdomain_config \<Rightarrow> inet_address list result) \<Rightarrow> 'json subdomain_config \<Rightarrow> inet_address option result" where
  "resolve_local_address ip_source config =
     bindE (ip_source config) (\<lambda>candidates.
     if candidates = [] then Inr None
     else if sub_type config = Kind_AAAA then
       let candidates = filter_ipv6_candidates config candidates in
       if candidates = [] then Inr None else Inr (Some (hd candidates))
     else Inr (Some (hd candidates)))"

definition dns_lookup :: "(string \<Rightarrow> record_kind \<Rightarrow> lookup result) \<Rightarrow> string \<Rightarrow> record_kind \<Rightarrow> string list result" where
  "dns_lookup dispatcher host type = map_sum id (case_sum (\<lambda>_. []) id) (dispatcher host type)"

definition build_driver_parameters :: "('json \<Rightarrow> string option) \<Rightarrow> 'json update_task \<Rightarrow> string" where
  "build_driver_parameters dump task =
     (case dump (driver_param (task_config task)) of None \<Rightarrow> ''{}'' | Some s \<Rightarrow> s)"

definition build_update_context ::
  "inet_lib \<Rightarrow> 'json update_task \<Rightarrow> inet_address \<Rightarrow> string \<Rightarrow> driver_update_params" where
  "build_update_context lib task ip_addr rd_type =
     \<lparr>p_ip_addr = inet_to_string lib ip_addr, p_rd_type = rd_type, p_domain = task_domain_name task,
      p_subdomain = sub_name (task_config task), p_fqdn = task_fqdn task\<rparr>"

text \<open>The environment of an update.\<close>

record 'json update_env =
  env_lib :: inet_lib
  env_dump :: "'json \<Rightarrow> string option"
  env_ip_source :: "'json subdomain_config \<Rightarrow> inet_address list result"
  env_dispatcher :: "string \<Rightarrow> record_kind \<Rightarrow> lookup result"
  env_driver :: "string \<Rightarrow> driver_update_params \<Rightarrow> bool result"

text \<open>Steps 3 and 4 of \<open>process\<close>.\<close>

definition run_driver :: "'json update_env \<Rightarrow> 'json update_task \<Rightarrow> inet_address \<Rightarrow> event list \<times> unit result" where
  "run_driver env task local_ip =
     (let parameters = build_driver_parameters (env_dump env) task;
          ctx = build_update_context (env_lib env) task local_ip (kind_name (sub_type (task_config task)))
      in ([Execute parameters ctx], map_sum id (\<lambda>_. ()) (env_driver env parameters ctx)))"

definition process :: "'json update_env \<Rightarrow> 'json update_task \<Rightarrow> event list \<times> unit result" where
  "process env task =
     (case resolve_local_address (env_ip_source env) (task_config task) of
        Inl e \<Rightarrow> ([], Inl e)
      | Inr None \<Rightarrow> ([], Inr ())
      | Inr (Some local_ip) \<Rightarrow>
          if \<not> task_force_update task then
            let look = Lookup (task_fqdn task) (sub_type (task_config task)) in
            (case dns_lookup (env_dispatcher env) (task_fqdn task) (sub_type (task_config task)) of
               Inl e \<Rightarrow> ([look], Inl e)
             | Inr records \<Rightarrow>
                 if records \<noteq> [] \<and> hd records = inet_to_string (env_lib env) local_ip then ([look], Inr ())
                 else apfst ((#) look) (run_driver env task local_ip))
          else run_driver env task local_ip)"

text \<open>The catch-all of \<^verbatim>\<open>Updater::process\<close>; undefined behaviour is not an exception.\<close>

definition updater_process :: "'json update_env \<Rightarrow> 'json update_task \<Rightarrow> event list \<times> unit result" where
  "updater_process env task =
     (case process env task of
        (events, Inl OutOfBounds) \<Rightarrow> (events, Inl OutOfBounds)
      | (events, _) \<Rightarrow> (events, Inr ()))"

section \<open>Properties\<close>

definition executions :: "event list \<Rightarrow> (string \<times> driver_update_params) list" where
  "executions es = List.map_filter (\<lambda>e. case e of Execute p c \<Rightarrow> Some (p, c) | _ \<Rightarrow> None) es"

lemma executions_simps [simp]:
  "executions [] = []" "executions (Lookup h t # es) = executions es" "executions (Execute p c # es) = (p, c) # executions es"
  by (simp_all add: executions_def List.map_filter_def)

lemma fst_updater_process [simp]: "fst (updater_process env task) = fst (process env task)"
  by (auto simp: updater_process_def split: prod.splits sum.splits exn.splits)

lemma executions_process:
  "executions (fst (process env task)) =
     (case resolve_local_address (env_ip_source env) (task_config task) of
        Inr (Some ip) \<Rightarrow>
          if task_force_update task \<or>
             (\<exists>rs. dns_lookup (env_dispatcher env) (task_fqdn task) (sub_type (task_config task)) = Inr rs \<and>
                (rs = [] \<or> hd rs \<noteq> inet_to_string (env_lib env) ip))
          then [(build_driver_parameters (env_dump env) task,
                 build_update_context (env_lib env) task ip (kind_name (sub_type (task_config task))))]
          else []
      | _ \<Rightarrow> [])"
  by (auto simp: process_def run_driver_def Let_def split: sum.splits option.splits)

text \<open>C9. An update calls the driver exactly when it should, and then once, with the address, record
  type and names of the task: a local address was found, and either the task forces the update, or
  the DNS lookup failed or found no record, or its first record differs from that address. When the
  record already holds the address the driver is not called.\<close>

theorem process_calls_driver_iff_changed:
  assumes "env_ip_source env (task_config task) = Inr candidates"
    "env_dispatcher env (task_fqdn task) (sub_type (task_config task)) = Inr found"
  shows "executions (fst (updater_process env task)) =
    (case resolve_local_address (env_ip_source env) (task_config task) of
       Inr (Some ip) \<Rightarrow>
         if task_force_update task \<or> (\<forall>rs. found = Inr rs \<longrightarrow> rs = [] \<or> hd rs \<noteq> inet_to_string (env_lib env) ip)
         then [(build_driver_parameters (env_dump env) task,
                \<lparr>p_ip_addr = inet_to_string (env_lib env) ip, p_rd_type = kind_name (sub_type (task_config task)),
                 p_domain = task_domain_name task, p_subdomain = sub_name (task_config task), p_fqdn = task_fqdn task\<rparr>)]
         else []
     | _ \<Rightarrow> [])"
  using assms(2) unfolding fst_updater_process executions_process
  by (cases found) (auto simp: dns_lookup_def build_update_context_def split: sum.splits option.splits)

lemma local_address_AAAA:
  assumes "resolve_local_address src cfg = Inr (Some ip)" "sub_type cfg = Kind_AAAA" "src cfg = Inr candidates"
  shows "ip \<in> set candidates \<and> (is_link_local ip \<longrightarrow> allow_local_link cfg) \<and> (is_ula ip \<longrightarrow> allow_ula cfg)"
proof -
  let ?c = "filter_ipv6_candidates cfg candidates"
  from assms have "?c \<noteq> []" "ip = hd ?c" by (auto simp: resolve_local_address_def Let_def split: if_splits)
  then have "ip \<in> set ?c" by simp
  then show ?thesis by (auto simp: filter_ipv6_candidates_def Let_def split: if_splits)
qed

text \<open>C21. For an AAAA record the driver is never given a link-local or unique-local address the
  configuration does not allow: the address in the call is one of the candidates of the IP source
  that passes both filters.\<close>

theorem aaaa_update_respects_filters:
  assumes "(params, ctx) \<in> set (executions (fst (updater_process env task)))"
    "sub_type (task_config task) = Kind_AAAA" "env_ip_source env (task_config task) = Inr candidates"
  shows "\<exists>ip\<in>set candidates. p_ip_addr ctx = inet_to_string (env_lib env) ip \<and>
    (is_link_local ip \<longrightarrow> allow_local_link (task_config task)) \<and> (is_ula ip \<longrightarrow> allow_ula (task_config task))"
proof -
  note ex = assms(1) [unfolded fst_updater_process executions_process]
  then obtain ip where ip: "resolve_local_address (env_ip_source env) (task_config task) = Inr (Some ip)"
    by (cases "resolve_local_address (env_ip_source env) (task_config task)") (auto split: option.splits)
  with ex have ctx: "p_ip_addr ctx = inet_to_string (env_lib env) ip"
    by (simp add: build_update_context_def split: if_splits)
  from local_address_AAAA [OF ip assms(2,3)] ctx show ?thesis by blast
qed

text \<open>No exception of an IP source, a resolver or a driver leaves an update: \<open>updater_process\<close>
  always ends normally unless the dispatcher or one of the plug-ins runs into undefined behaviour,
  and an exception of the IP source means that neither a lookup nor a driver call was made.\<close>

theorem updater_process_noexcept:
  assumes "\<And>c. env_ip_source env c \<noteq> Inl OutOfBounds" "\<And>h t. env_dispatcher env h t \<noteq> Inl OutOfBounds"
    "\<And>p c. env_driver env p c \<noteq> Inl OutOfBounds"
  shows "snd (updater_process env task) = Inr () \<and>
    (isl (env_ip_source env (task_config task)) \<longrightarrow> fst (updater_process env task) = [])"
proof -
  have l: "resolve_local_address (env_ip_source env) c \<noteq> Inl OutOfBounds" for c
    using assms(1) [of c] by (cases "env_ip_source env c") (auto simp: resolve_local_address_def Let_def)
  have d: "dns_lookup (env_dispatcher env) h t \<noteq> Inl OutOfBounds" for h t
    using assms(2) [of h t] by (cases "env_dispatcher env h t") (auto simp: dns_lookup_def)
  have r: "snd (run_driver env task ip) \<noteq> Inl OutOfBounds" for ip
    using assms(3) by (auto simp: run_driver_def Let_def map_sum_def split: sum.splits)
  have "snd (process env task) \<noteq> Inl OutOfBounds"
    using l d r by (auto simp: process_def Let_def split: sum.splits option.splits)
  then have "snd (updater_process env task) = Inr ()"
    by (auto simp: updater_process_def split: prod.splits sum.splits exn.splits)
  moreover have "fst (process env task) = []" if "isl (env_ip_source env (task_config task))"
    using that by (auto simp: process_def resolve_local_address_def isl_def)
  ultimately show ?thesis by simp
qed

text \<open>A host with a link-local and a global IPv6 address whose record holds an old value.\<close>

definition sample_v6 :: "byte list \<Rightarrow> inet_address" where
  "sample_v6 prefix = V6 \<lparr>v6_addr = prefix @ replicate 13 0 @ [1], v6_scope_id = 0\<rparr>"

definition sample_subdomain :: "unit subdomain_config" where
  "sample_subdomain = \<lparr>sub_name = ''www'', sub_type = Kind_AAAA, sub_interface = ''eth0'', sub_ip_type = IPV6,
     sub_ip_source = INTERFACE, sub_ip_source_param = [], allow_ula = False, allow_local_link = False,
     sub_update_interval = 300, driver_param = ()\<rparr>"

definition sample_task :: "unit update_task" where
  "sample_task = \<lparr>task_config = sample_subdomain, task_domain_name = ''a.io'', task_driver_name = ''simple'',
     task_fqdn = ''www.a.io'', task_force_update = False\<rparr>"

definition sample_env :: "unit update_env" where
  "sample_env = \<lparr>env_lib = sample_lib, env_dump = \<lambda>_. None,
     env_ip_source = \<lambda>_. Inr [sample_v6 [0xfe, 0x80], sample_v6 [0x20, 0x01]],
     env_dispatcher = \<lambda>_ _. Inr (Inr [''old'']), env_driver = \<lambda>_ _. Inr True\<rparr>"

lemma sample_local: "resolve_local_address (env_ip_source sample_env) (task_config sample_task) =
    Inr (Some (sample_v6 [0x20, 0x01]))"
  by (simp add: resolve_local_address_def sample_env_def sample_task_def sample_subdomain_def
      filter_ipv6_candidates_def sample_v6_def v6_is_link_local_def v6_is_ula_def Let_def)

theorem process_calls_driver_iff_changed_witness:
  "length (executions (fst (updater_process sample_env sample_task))) = 1"
proof -
  have e: "env_ip_source sample_env (task_config sample_task) = Inr [sample_v6 [0xfe, 0x80], sample_v6 [0x20, 0x01]]"
    "env_dispatcher sample_env (task_fqdn sample_task) (sub_type (task_config sample_task)) = Inr (Inr [''old''])"
    by (simp_all add: sample_env_def)
  have "inet_to_string (env_lib sample_env) (sample_v6 [0x20, 0x01]) \<noteq> ''old''" by code_simp
  with process_calls_driver_iff_changed [OF e] show ?thesis unfolding sample_local by auto
qed

theorem aaaa_update_respects_filters_witness:
  "\<exists>params ctx. (params, ctx) \<in> set (executions (fst (updater_process sample_env sample_task))) \<and>
     p_ip_addr ctx = inet_to_string sample_lib (sample_v6 [0x20, 0x01])"
proof -
  have "executions (fst (updater_process sample_env sample_task)) \<noteq> []" by code_simp
  then obtain params ctx where in_ex: "(params, ctx) \<in> set (executions (fst (updater_process sample_env sample_task)))"
    by (metis list.set_intros(1) neq_Nil_conv surj_pair)
  have e: "sub_type (task_config sample_task) = Kind_AAAA"
    "env_ip_source sample_env (task_config sample_task) = Inr [sample_v6 [0xfe, 0x80], sample_v6 [0x20, 0x01]]"
    by (simp_all add: sample_env_def sample_task_def sample_subdomain_def)
  have no: "is_link_local (sample_v6 [0xfe, 0x80])" "\<not> allow_local_link (task_config sample_task)" by code_simp+
  from aaaa_update_respects_filters [OF in_ex e] no in_ex show ?thesis
    by (auto simp: sample_env_def)
qed

theorem updater_process_noexcept_witness: "snd (updater_process sample_env sample_task) = Inr ()"
  using updater_process_noexcept [of sample_env sample_task] by (simp add: sample_env_def)

end
