(* ===== verification/Syscalls.thy ===== *)
theory Syscalls
  imports Yad_Errors
begin

text \<open>
  The operating system as the network code sees it. A blocking call is answered from a script, the
  list of what the kernel will return to this and the later calls of its kind: an error number, or
  a value. Every \<^verbatim>\<open>do ... while (rc < 0 && errno == EINTR)\<close> loop of the sources is \<open>eintr_retry\<close>;
  it has no value when the script is used up, which is a call that does not return.
\<close>

datatype errno =
    EINTR | EAGAIN | ETIMEDOUT | ECONNREFUSED | ENETUNREACH | EHOSTUNREACH | ECANCELED | EINPROGRESS
  | ECONNRESET | ENOPROTOOPT | EOTHER nat

type_synonym 'a script = "(errno + 'a) list"

fun eintr_retry :: "'a script \<Rightarrow> ((errno + 'a) \<times> 'a script) option" where
  "eintr_retry [] = None"
| "eintr_retry (r # rs) = (if r = Inl EINTR then eintr_retry rs else Some (r, rs))"

datatype poll_flag = POLLIN | POLLOUT | POLLERR | POLLHUP | POLLNVAL

text \<open>The result of \<^verbatim>\<open>poll\<close>: a timeout, or the returned events of the socket and of the cancel pipe.\<close>

datatype poll_ret = PollTimeout | PollReady "poll_flag set" "poll_flag set"

lemma eintr_retry_not_EINTR: "eintr_retry s = Some (r, s') \<Longrightarrow> r \<noteq> Inl EINTR"
  by (induction s) (auto split: if_splits)

lemma eintr_retry_split:
  "eintr_retry s = Some (r, s') \<Longrightarrow> \<exists>k. s = replicate k (Inl EINTR) @ r # s'"
proof (induction s)
  case (Cons x s)
  show ?case
  proof (cases "x = Inl EINTR")
    case True
    with Cons obtain k where "s = replicate k (Inl EINTR) @ r # s'" by auto
    with True show ?thesis by (intro exI [of _ "Suc k"]) simp
  next
    case False
    with Cons.prems show ?thesis by (intro exI [of _ 0]) simp
  qed
qed simp

lemma eintr_retry_replicate [simp]: "eintr_retry (replicate k (Inl EINTR) @ s) = eintr_retry s"
  by (induction k) simp_all

lemma eintr_retry_None: "eintr_retry s = None \<longleftrightarrow> set s \<subseteq> {Inl EINTR}"
  by (induction s) auto

text \<open>The bytes a receive script holds, and a measure that every successful receive decreases.\<close>

definition incoming :: "byte list script \<Rightarrow> byte list" where
  "incoming s = concat (map (case_sum (\<lambda>_. []) id) s)"

definition script_size :: "byte list script \<Rightarrow> nat" where
  "script_size s = sum_list (map (case_sum (\<lambda>_. 1) (\<lambda>bs. Suc (length bs))) s)"

lemma incoming_simps [simp]:
  "incoming [] = []" "incoming (Inl e # s) = incoming s" "incoming (Inr bs # s) = bs @ incoming s"
  "incoming (s @ t) = incoming s @ incoming t" "incoming (replicate k (Inl e)) = []"
  by (simp_all add: incoming_def)

lemma script_size_simps [simp]:
  "script_size [] = 0" "script_size (Inl e # s) = Suc (script_size s)"
  "script_size (Inr bs # s) = Suc (length bs + script_size s)"
  "script_size (s @ t) = script_size s + script_size t"
  by (simp_all add: script_size_def)

lemma eintr_retry_incoming:
  assumes "eintr_retry s = Some (r, s')"
  shows "incoming s = (case r of Inl _ \<Rightarrow> incoming s' | Inr bs \<Rightarrow> bs @ incoming s') \<and>
    script_size (r # s') \<le> script_size s"
proof -
  obtain k where "s = replicate k (Inl EINTR) @ r # s'" using eintr_retry_split [OF assms] by blast
  then show ?thesis by (cases r) simp_all
qed

lemma eintr_retry_length: "eintr_retry s = Some (r, s') \<Longrightarrow> length s' < length s"
  using eintr_retry_split by fastforce

end
