(* ===== verification/Socket_Model.thy ===== *)
theory Socket_Model
  imports Syscalls
begin

unbundle bit_operations_syntax

text \<open>
  The socket wrapper (\<^verbatim>\<open>src/network/socket.{h,cpp}\<close>): the send and receive loops, the connection
  with a timeout and the wait with a cancellation pipe. The sockets differ in \<^verbatim>\<open>type_ == SOCK_STREAM\<close>
  only. A stream socket keeps what a short read left over, a datagram socket drops it. The overloads
  with and without flags are one function, the flags being passed to the kernel unread.
\<close>

datatype connect_error = TIMED_OUT | REFUSED_CONN | UNREACHABLE | CONN_CANCELLED | INTERNAL

fun to_connect_error :: "errno \<Rightarrow> connect_error" where
  "to_connect_error ETIMEDOUT = TIMED_OUT"
| "to_connect_error ECONNREFUSED = REFUSED_CONN"
| "to_connect_error ENETUNREACH = UNREACHABLE"
| "to_connect_error EHOSTUNREACH = UNREACHABLE"
| "to_connect_error ECANCELED = CONN_CANCELLED"
| "to_connect_error _ = INTERNAL"

section \<open>Sending\<close>

text \<open>The kernel takes at most the bytes it is given. The second component of the result is what it
  took over all calls.\<close>

function stream_send :: "byte list \<Rightarrow> nat \<Rightarrow> byte list \<Rightarrow> nat script \<Rightarrow> ((errno + nat) \<times> byte list \<times> nat script) option" where
  "stream_send data tot sent s =
     (if tot < length data then
        case eintr_retry s of
          None \<Rightarrow> None
        | Some (Inl e, s') \<Rightarrow> Some (Inl e, sent, s')
        | Some (Inr n, s') \<Rightarrow>
            let k = min n (length data - tot)
            in stream_send data (tot + k) (sent @ take k (drop tot data)) s'
      else Some (Inr (length data), sent, s))"
  by pat_completeness auto
termination
  by (relation "measure (\<lambda>(_, _, _, s). length s)") (auto dest: eintr_retry_length)

declare stream_send.simps [simp del]

definition send_loop :: "bool \<Rightarrow> byte list \<Rightarrow> nat script \<Rightarrow> ((errno + nat) \<times> byte list \<times> nat script) option" where
  "send_loop stream data s =
     (if \<not> stream then
        case eintr_retry s of
          None \<Rightarrow> None
        | Some (Inl e, s') \<Rightarrow> Some (Inl e, [], s')
        | Some (Inr n, s') \<Rightarrow> Some (Inr (min n (length data)), take n data, s')
      else stream_send data 0 [] s)"

section \<open>Receiving\<close>

definition recv :: "bool \<Rightarrow> nat \<Rightarrow> byte list script \<Rightarrow> ((errno + byte list) \<times> byte list script) option" where
  "recv stream cap s =
     (case eintr_retry s of
        None \<Rightarrow> None
      | Some (Inl e, s') \<Rightarrow> Some (Inl e, s')
      | Some (Inr bs, s') \<Rightarrow>
          Some (Inr (take cap bs), if stream \<and> cap < length bs then Inr (drop cap bs) # s' else s'))"

lemma recv_incoming:
  assumes "recv True cap s = Some (r, s')"
  shows "incoming s = (case r of Inl _ \<Rightarrow> incoming s' | Inr bs \<Rightarrow> bs @ incoming s')"
  using assms by (auto simp: recv_def dest!: eintr_retry_incoming split: option.splits sum.splits if_splits)

lemma recv_size:
  assumes "recv stream cap s = Some (Inr bs, s')" "bs \<noteq> []"
  shows "script_size s' < script_size s"
proof -
  from assms obtain b s1 where b: "eintr_retry s = Some (Inr b, s1)" "bs = take cap b"
    "s' = (if stream \<and> cap < length b then Inr (drop cap b) # s1 else s1)"
    by (auto simp: recv_def split: option.splits sum.splits)
  have "0 < cap" using b(2) assms(2) by (cases cap) auto
  with eintr_retry_incoming [OF b(1)] b(3) show ?thesis by auto
qed

lemma recv_cap: "recv stream cap s = Some (Inr bs, s') \<Longrightarrow> length bs \<le> cap"
  by (auto simp: recv_def split: option.splits sum.splits if_splits)

function stream_recv :: "nat \<Rightarrow> byte list \<Rightarrow> byte list script \<Rightarrow> ((errno + byte list) \<times> byte list script) option" where
  "stream_recv len got s =
     (if length got < len then
        case recv True (len - length got) s of
          None \<Rightarrow> None
        | Some (Inl e, s') \<Rightarrow> Some (Inl e, s')
        | Some (Inr bs, s') \<Rightarrow>
            if bs = [] then Some (Inr got, s') else stream_recv len (got @ bs) s'
      else Some (Inr got, s))"
  by pat_completeness auto
termination
  by (relation "measure (\<lambda>(_, _, s). script_size s)") (auto dest: recv_size)

declare stream_recv.simps [simp del]

definition recv_exact :: "bool \<Rightarrow> nat \<Rightarrow> byte list script \<Rightarrow> ((errno + byte list) \<times> byte list script) option" where
  "recv_exact stream len s = (if \<not> stream then recv False len s else stream_recv len [] s)"

section \<open>Waiting\<close>

text \<open>\<^verbatim>\<open>wait_for\<close>: \<open>cancel\<close> says whether the token is linked to a pipe; the result also says whether the
  pipe was drained.\<close>

definition wait_for :: "poll_flag set \<Rightarrow> bool \<Rightarrow> poll_ret script \<Rightarrow> ((errno + nat) \<times> bool) option" where
  "wait_for events cancel s =
     (case eintr_retry s of
        None \<Rightarrow> None
      | Some (Inl e, _) \<Rightarrow> Some (Inl e, False)
      | Some (Inr PollTimeout, _) \<Rightarrow> Some (Inr 0, False)
      | Some (Inr (PollReady revents cancel_revents), _) \<Rightarrow>
          if cancel \<and> POLLIN \<in> cancel_revents then Some (Inl ECANCELED, True)
          else Some (Inr (if revents \<inter> events \<noteq> {} then 1 else 0), False))"

section \<open>Connecting\<close>

text \<open>What the kernel answers during \<^verbatim>\<open>connect\<close>: the flags or an error, whether setting the flags
  succeeds each time, the calls of \<^verbatim>\<open>connect\<close> and \<^verbatim>\<open>poll\<close> (the number of ready descriptors), and the
  value of \<^verbatim>\<open>SO_ERROR\<close>. The file status flags of the descriptor are part of the result.\<close>

record connect_env =
  ce_getfl :: "errno + 32 word"
  ce_setfl :: bool
  ce_restore :: bool
  ce_connect :: "unit script"
  ce_poll :: "nat script"
  ce_so_error :: "errno + errno option"

abbreviation (input) O_NONBLOCK :: "32 word" where "O_NONBLOCK \<equiv> 0x800"

text \<open>\<^verbatim>\<open>FcntlGuard\<close>: the first restore puts the saved flags back if the kernel lets it.\<close>

definition guard_restore :: "connect_env \<Rightarrow> 32 word \<Rightarrow> 32 word \<Rightarrow> 32 word" where
  "guard_restore env saved current = (if ce_restore env then saved else current)"

definition connect_nonblocking :: "connect_env \<Rightarrow> (connect_error + unit) option" where
  "connect_nonblocking env =
     (case eintr_retry (ce_connect env) of
        None \<Rightarrow> None
      | Some (Inr _, _) \<Rightarrow> Some (if ce_restore env then Inr () else Inl INTERNAL)
      | Some (Inl e, _) \<Rightarrow>
          if e \<noteq> EINPROGRESS then Some (Inl (to_connect_error e))
          else
            (case eintr_retry (ce_poll env) of
               None \<Rightarrow> None
             | Some (Inl _, _) \<Rightarrow> Some (Inl INTERNAL)
             | Some (Inr 0, _) \<Rightarrow> Some (Inl TIMED_OUT)
             | Some (Inr _, _) \<Rightarrow>
                 (case ce_so_error env of
                    Inl _ \<Rightarrow> Some (Inl INTERNAL)
                  | Inr (Some e) \<Rightarrow> Some (Inl (to_connect_error e))
                  | Inr None \<Rightarrow> Some (if ce_restore env then Inr () else Inl INTERNAL))))"

definition connect :: "connect_env \<Rightarrow> int \<Rightarrow> 32 word \<Rightarrow> ((connect_error + unit) \<times> 32 word) option" where
  "connect env timeout_sec flags =
     (if timeout_sec < 0 then
        map_option (\<lambda>(r, _). (map_sum to_connect_error id r, flags)) (eintr_retry (ce_connect env))
      else
        case ce_getfl env of
          Inl _ \<Rightarrow> Some (Inl INTERNAL, flags)
        | Inr orig_flags \<Rightarrow>
            if \<not> ce_setfl env then Some (Inl INTERNAL, flags)
            else map_option (\<lambda>r. (r, guard_restore env orig_flags (orig_flags OR O_NONBLOCK)))
                   (connect_nonblocking env))"

section \<open>Lemmas\<close>

lemma stream_send_sent:
  assumes "stream_send data tot sent s = Some (r, out, s')" "sent = take tot data" "tot \<le> length data"
  shows "(case r of Inr n \<Rightarrow> n = length data \<and> out = data | Inl e \<Rightarrow> e \<noteq> EINTR \<and> (\<exists>k. out = take k data \<and> k < length data))"
  using assms
proof (induction data tot sent s rule: stream_send.induct)
  case (1 data tot sent s)
  show ?case
  proof (cases "tot < length data")
    case False
    with "1.prems" show ?thesis by (subst (asm) stream_send.simps) auto
  next
    case True
    with "1.prems"(1) obtain a s1 where a: "eintr_retry s = Some (a, s1)"
      by (subst (asm) stream_send.simps) (auto split: option.splits)
    show ?thesis
    proof (cases a)
      case (Inl e)
      with "1.prems" a True have "r = Inl e" "out = take tot data"
        by (subst (asm) stream_send.simps, simp)+
      then show ?thesis using True eintr_retry_not_EINTR [OF a] Inl by auto
    next
      case (Inr n)
      let ?k = "min n (length data - tot)"
      have "stream_send data (tot + ?k) (sent @ take ?k (drop tot data)) s1 = Some (r, out, s')"
        using "1.prems"(1) a True Inr by (subst (asm) stream_send.simps) (simp add: Let_def)
      moreover have "sent @ take ?k (drop tot data) = take (tot + ?k) data"
        using "1.prems"(2) by (simp add: take_add)
      moreover have "tot + ?k \<le> length data" using True by simp
      ultimately show ?thesis using "1.IH" [OF True a _ Inr refl] by blast
    qed
  qed
qed

lemma stream_recv_got:
  assumes "stream_recv len got s = Some (Inr out, s')"
  shows "got @ incoming s = out @ incoming s' \<and> (length got \<le> len \<longrightarrow> length out \<le> len)"
  using assms
proof (induction len got s rule: stream_recv.induct)
  case (1 len got s)
  show ?case
  proof (cases "length got < len")
    case False
    with "1.prems" show ?thesis by (subst (asm) stream_recv.simps) auto
  next
    case True
    with "1.prems" obtain bs s1 where a: "recv True (len - length got) s = Some (Inr bs, s1)"
      by (subst (asm) stream_recv.simps) (auto split: option.splits sum.splits)
    show ?thesis
    proof (cases "bs = []")
      case True
      with "1.prems" a \<open>length got < len\<close> have "out = got" "s' = s1"
        by (subst (asm) stream_recv.simps, simp)+
      with recv_incoming [OF a] True show ?thesis by simp
    next
      case False
      then have r: "stream_recv len (got @ bs) s1 = Some (Inr out, s')"
        using "1.prems" a True by (subst (asm) stream_recv.simps) simp
      have "length (got @ bs) \<le> len" using recv_cap [OF a] True by simp
      with "1.IH" [OF True a _ refl False r] recv_incoming [OF a] show ?thesis by simp
    qed
  qed
qed

lemma recv_Nil_origin:
  assumes "recv True cap s = Some (r, s')" "Inr [] \<in> set s'" shows "Inr [] \<in> set s"
  using assms by (auto simp: recv_def dest!: eintr_retry_split split: option.splits sum.splits if_splits)

lemma stream_recv_short:
  assumes "stream_recv len got s = Some (Inr out, s')" "length got \<le> len" "length out < len"
  shows "Inr [] \<in> set s"
  using assms
proof (induction len got s rule: stream_recv.induct)
  case (1 len got s)
  show ?case
  proof (cases "length got < len")
    case False
    with "1.prems" show ?thesis by (subst (asm) stream_recv.simps) auto
  next
    case True
    with "1.prems" obtain bs s1 where a: "recv True (len - length got) s = Some (Inr bs, s1)"
      by (subst (asm) stream_recv.simps) (auto split: option.splits sum.splits)
    show ?thesis
    proof (cases "bs = []")
      case True
      with a \<open>length got < len\<close> show ?thesis
        by (auto simp: recv_def dest!: eintr_retry_split split: option.splits sum.splits if_splits)
    next
      case False
      then have r: "stream_recv len (got @ bs) s1 = Some (Inr out, s')"
        using "1.prems" a True by (subst (asm) stream_recv.simps) simp
      have "length (got @ bs) \<le> len" using recv_cap [OF a] True by simp
      from "1.IH" [OF True a _ refl False r this "1.prems"(3)] show ?thesis using recv_Nil_origin [OF a] by blast
    qed
  qed
qed

text \<open>A script of interruptions and non-empty segments: a connection that neither fails nor closes.\<close>

definition open_script :: "byte list script \<Rightarrow> bool" where
  "open_script s \<longleftrightarrow> (\<forall>r\<in>set s. r = Inl EINTR \<or> (\<exists>b. r = Inr b \<and> b \<noteq> []))"

lemma open_script_recv:
  assumes "open_script s" "incoming s \<noteq> []" "0 < cap"
  shows "\<exists>bs s'. recv True cap s = Some (Inr bs, s') \<and> bs \<noteq> [] \<and> open_script s'"
proof -
  have "eintr_retry s \<noteq> None" using assms(1,2) by (induction s) (auto simp: open_script_def)
  then obtain r s1 where r: "eintr_retry s = Some (r, s1)" by auto
  then obtain k where k: "s = replicate k (Inl EINTR) @ r # s1" using eintr_retry_split by blast
  with assms(1) eintr_retry_not_EINTR [OF r] obtain b where b: "r = Inr b" "b \<noteq> []"
    by (auto simp: open_script_def)
  with r k assms show ?thesis by (auto simp: recv_def open_script_def)
qed

lemma stream_recv_complete:
  assumes "open_script s" "length got \<le> len" "len \<le> length got + length (incoming s)"
  shows "\<exists>s'. stream_recv len got s = Some (Inr (take len (got @ incoming s)), s') \<and> open_script s'"
  using assms
proof (induction len got s rule: stream_recv.induct)
  case (1 len got s)
  show ?case
  proof (cases "length got < len")
    case False
    with "1.prems" show ?thesis by (subst stream_recv.simps) simp
  next
    case True
    with "1.prems"(3) have "incoming s \<noteq> []" by auto
    with True open_script_recv [OF "1.prems"(1), of "len - length got"]
    obtain bs s1 where a: "recv True (len - length got) s = Some (Inr bs, s1)" "bs \<noteq> []" "open_script s1" by auto
    note inc = recv_incoming [OF a(1)]
    have "length (got @ bs) \<le> len" using recv_cap [OF a(1)] True by simp
    moreover have "len \<le> length (got @ bs) + length (incoming s1)" using "1.prems"(3) inc by simp
    ultimately obtain s' where "stream_recv len (got @ bs) s1 = Some (Inr (take len ((got @ bs) @ incoming s1)), s')"
      "open_script s'"
      using "1.IH" [OF True a(1) _ refl a(2,3)] by blast
    then show ?thesis using a True inc by (subst stream_recv.simps) simp
  qed
qed

section \<open>Properties\<close>

text \<open>C29. A stream socket transfers exactly the bytes it is given: a send that reports success has
  handed every byte to the kernel once and in order, whatever short writes and interruptions there
  were, and a failed one a proper prefix of them; and a receive of \<open>n\<close> bytes on a connection that stays
  open returns the next \<open>n\<close> bytes of the peer, however they are cut into segments.\<close>

theorem stream_transfer_exact:
  assumes "send_loop True data writes = Some (r, sent, writes')"
    "open_script segments" "incoming segments = sent @ later"
  shows "(case r of Inr n \<Rightarrow> n = length data \<and> sent = data | Inl _ \<Rightarrow> \<exists>k < length data. sent = take k data) \<and>
    (\<exists>rest. recv_exact True (length sent) segments = Some (Inr sent, rest) \<and> incoming rest = later)"
proof -
  from stream_send_sent [of data 0 "[]" writes r sent writes'] assms(1)
  have 1: "case r of Inr n \<Rightarrow> n = length data \<and> sent = data | Inl e \<Rightarrow> \<exists>k < length data. sent = take k data"
    by (auto simp: send_loop_def split: sum.splits)
  from stream_recv_complete [OF assms(2), of "[]" "length sent"] assms(3) obtain rest
    where r: "stream_recv (length sent) [] segments = Some (Inr sent, rest)" by auto
  with stream_recv_got [OF r] assms(3) have "recv_exact True (length sent) segments = Some (Inr sent, rest) \<and> incoming rest = later"
    by (simp add: recv_exact_def)
  with 1 show ?thesis by blast
qed

theorem stream_transfer_exact_witness:
  "\<exists>rest. recv_exact True 3 [Inr [1], Inl EINTR, Inr [2, 3, 4]] = Some (Inr [1, 2, 3], rest) \<and> incoming rest = [4]"
proof -
  have s: "send_loop True [1, 2, 3] [Inr 2, Inl EINTR, Inr 9] = Some (Inr 3, [1, 2, 3], [])" by code_simp
  have "open_script [Inr [1], Inl EINTR, Inr [2, 3, 4]]" by (simp add: open_script_def)
  with stream_transfer_exact [OF s, of "[Inr [1], Inl EINTR, Inr [2, 3, 4]]" "[4]"] show ?thesis by (simp add: numeral_3_eq_3)
qed

text \<open>C30. Connecting with a timeout leaves the descriptor as it was: on every path, success or any
  error, the file status flags after \<open>connect\<close> are those before, provided the kernel lets the saved
  flags be restored; and it reports success only after the kernel did.\<close>

theorem connect_restores_flags:
  assumes "connect env timeout_sec flags = Some (r, flags')" "ce_getfl env = Inr flags" "ce_restore env"
  shows "flags' = flags \<and>
    (r = Inr () \<longrightarrow> (\<exists>s'. eintr_retry (ce_connect env) = Some (Inr (), s')) \<or>
      (\<exists>s'. eintr_retry (ce_connect env) = Some (Inl EINPROGRESS, s')) \<and> ce_so_error env = Inr None)"
proof (cases "timeout_sec < 0")
  case True
  with assms(1) obtain a s' where "eintr_retry (ce_connect env) = Some (a, s')" "r = map_sum to_connect_error id a"
    "flags' = flags" by (auto simp: connect_def)
  then show ?thesis by (cases a) auto
next
  case False
  with assms show ?thesis
    by (auto simp: connect_def connect_nonblocking_def guard_restore_def
        split: if_splits sum.splits option.splits nat.splits)
qed

theorem connect_restores_flags_witness:
  "connect \<lparr>ce_getfl = Inr 2, ce_setfl = True, ce_restore = True, ce_connect = [Inl EINPROGRESS], ce_poll = [Inr 0],
     ce_so_error = Inr None\<rparr> 1 2 = Some (Inl TIMED_OUT, 2)"
proof -
  let ?e = "\<lparr>ce_getfl = Inr 2, ce_setfl = True, ce_restore = True, ce_connect = [Inl EINPROGRESS], ce_poll = [Inr 0],
     ce_so_error = Inr None\<rparr>"
  have "\<exists>f. connect ?e 1 2 = Some (Inl TIMED_OUT, f)" by (simp add: connect_def connect_nonblocking_def)
  then obtain f where "connect ?e 1 2 = Some (Inl TIMED_OUT, f)" ..
  with connect_restores_flags [OF this] show ?thesis by simp
qed

end
