(* ===== verification/Classic_Resolver.thy ===== *)
theory Classic_Resolver
  imports Dns_Validator Socket_Model Config_Types Uri_Model
begin

text \<open>
  The UDP and TCP resolver (\<^verbatim>\<open>src/dns/resolver/classic_native.cpp\<close>, \<^verbatim>\<open>src/network/socket_addr.cpp\<close>). What
  the kernel answers to the calls of one query is its environment; \<open>None\<close> is a query that is still
  waiting. The random engine is an argument, as for the builder.
\<close>

section \<open>Socket addresses\<close>

record socket_addr =
  sa_family :: address_family
  sa_port :: u16
  sa_addr :: "byte list"
  sa_scope_id :: u32

fun from_inet :: "inet_address \<Rightarrow> u16 \<Rightarrow> socket_addr" where
  "from_inet (V4 a) port = \<lparr>sa_family = IPV4, sa_port = port, sa_addr = v4_addr a, sa_scope_id = 0\<rparr>"
| "from_inet (V6 a) port = \<lparr>sa_family = IPV6, sa_port = port, sa_addr = v6_addr a, sa_scope_id = v6_scope_id a\<rparr>"

definition sockaddr_port :: "socket_addr \<Rightarrow> u16" where
  "sockaddr_port a = (case sa_family a of UNSPECIFIED \<Rightarrow> 0 | _ \<Rightarrow> sa_port a)"

definition sockaddr_address :: "socket_addr \<Rightarrow> inet_address option" where
  "sockaddr_address a =
     (case sa_family a of
        IPV4 \<Rightarrow> Some (V4 (inet4_from_bytes (sa_addr a)))
      | IPV6 \<Rightarrow>
          let v6 = inet6_from_bytes (sa_addr a)
          in Some (V6 (if sa_scope_id a \<noteq> 0 then set_scope_id (sa_scope_id a) v6 else v6))
      | UNSPECIFIED \<Rightarrow> None)"

definition sockaddr_to_string :: "inet_lib \<Rightarrow> socket_addr \<Rightarrow> string" where
  "sockaddr_to_string lib a =
     (case sockaddr_address a of
        None \<Rightarrow> ''<unspec>''
      | Some inet \<Rightarrow>
          let addr_str = inet_to_string lib inet; p = dec_string (unat (sockaddr_port a)) in
          if sa_family a = IPV6 then ''['' @ addr_str @ '']:'' @ p else addr_str @ '':'' @ p)"

definition make_addr :: "inet_lib \<Rightarrow> dns_server \<Rightarrow> socket_addr result" where
  "make_addr lib server =
     (case inet_parse lib (srv_address server) of
        None \<Rightarrow> Inl (DnsLookupException CONFIG)
      | Some parsed \<Rightarrow> Inr (from_inet parsed (srv_port server)))"

section \<open>One query\<close>

definition classify_socket_error :: "errno \<Rightarrow> dns_error" where
  "classify_socket_error errnum =
     (if errnum = ETIMEDOUT \<or> errnum = EAGAIN then RETRY
      else if errnum = ECANCELED then CANCELLED
      else CONNECTION)"

abbreviation (input) TCP_CONNECT_TIMEOUT_SEC :: int where "TCP_CONNECT_TIMEOUT_SEC \<equiv> 1"

abbreviation (input) MAX_DNS_PACKET_SIZE :: nat where "MAX_DNS_PACKET_SIZE \<equiv> 4096"

record udp_env =
  ue_socket :: bool
  ue_send :: "nat script"
  ue_poll :: "poll_ret script"
  ue_recv :: "byte list script"

definition query_udp :: "udp_env \<Rightarrow> bool \<Rightarrow> byte list \<Rightarrow> (dns_error + byte list) result option" where
  "query_udp env cancel query_packet =
     (if \<not> ue_socket env then Some (Inl SocketException)
      else case send_loop False query_packet (ue_send env) of
        None \<Rightarrow> None
      | Some (sent, _, _) \<Rightarrow>
          if sent \<noteq> Inr (length query_packet) then Some (Inr (Inl CONNECTION))
          else (case wait_for {POLLIN} cancel (ue_poll env) of
              None \<Rightarrow> None
            | Some (Inl e, _) \<Rightarrow> Some (Inr (Inl (classify_socket_error e)))
            | Some (Inr n, _) \<Rightarrow>
                if n = 0 then Some (Inr (Inl RETRY))
                else (case recv False MAX_DNS_PACKET_SIZE (ue_recv env) of
                    None \<Rightarrow> None
                  | Some (Inl _, _) \<Rightarrow> Some (Inr (Inl CONNECTION))
                  | Some (Inr response, _) \<Rightarrow> Some (Inr (Inr response)))))"

record tcp_env =
  te_socket :: bool
  te_connect :: connect_env
  te_nodelay :: bool
  te_send :: "nat script"
  te_polls :: "poll_ret script list"
  te_recv :: "byte list script"

text \<open>The two receive loops: one wait and one receive per round.\<close>

fun recv_all ::
  "bool \<Rightarrow> nat \<Rightarrow> byte list \<Rightarrow> poll_ret script list \<Rightarrow> byte list script \<Rightarrow>
   ((dns_error + byte list) \<times> poll_ret script list \<times> byte list script) option" where
  "recv_all cancel len got ps rs =
     (if length got < len then
        (case ps of
           [] \<Rightarrow> None
         | p # ps' \<Rightarrow>
             (case wait_for {POLLIN} cancel p of
                None \<Rightarrow> None
              | Some (Inl e, _) \<Rightarrow> Some (Inl (classify_socket_error e), ps', rs)
              | Some (Inr n, _) \<Rightarrow>
                  if n = 0 then Some (Inl RETRY, ps', rs)
                  else (case recv True (len - length got) rs of
                      None \<Rightarrow> None
                    | Some (Inl _, rs') \<Rightarrow> Some (Inl CONNECTION, ps', rs')
                    | Some (Inr bs, rs') \<Rightarrow>
                        if bs = [] then Some (Inl CONNECTION, ps', rs')
                        else recv_all cancel len (got @ bs) ps' rs')))
      else Some (Inr got, ps, rs))"

declare recv_all.simps [simp del]

fun connect_to_dns_error :: "connect_error \<Rightarrow> dns_error" where
  "connect_to_dns_error TIMED_OUT = RETRY"
| "connect_to_dns_error CONN_CANCELLED = CANCELLED"
| "connect_to_dns_error _ = CONNECTION"

definition tcp_frame :: "byte list \<Rightarrow> byte list" where
  "tcp_frame query_packet = be16 (of_nat (length query_packet)) @ query_packet"

definition tcp_receive :: "tcp_env \<Rightarrow> bool \<Rightarrow> (dns_error + byte list) result option" where
  "tcp_receive env cancel =
     (case recv_all cancel 2 [] (te_polls env) (te_recv env) of
        None \<Rightarrow> None
      | Some (Inl e, _) \<Rightarrow> Some (Inr (Inl e))
      | Some (Inr len_buf, ps, rs) \<Rightarrow>
          (case read_u16_be len_buf 0 of
             Inl x \<Rightarrow> Some (Inl x)
           | Inr be_len \<Rightarrow>
               let rsp_len = unat be_len in
               if rsp_len = 0 \<or> rsp_len > MAX_DNS_PACKET_SIZE then Some (Inr (Inl PARSE))
               else map_option (\<lambda>(r, _). Inr r) (recv_all cancel rsp_len [] ps rs)))"

definition query_tcp :: "tcp_env \<Rightarrow> bool \<Rightarrow> byte list \<Rightarrow> (dns_error + byte list) result option" where
  "query_tcp env cancel query_packet =
     (if \<not> te_socket env then Some (Inl SocketException)
      else case connect (te_connect env) TCP_CONNECT_TIMEOUT_SEC 0 of
        None \<Rightarrow> None
      | Some (Inl e, _) \<Rightarrow> Some (Inr (Inl (connect_to_dns_error e)))
      | Some (Inr _, _) \<Rightarrow>
          if \<not> te_nodelay env then Some (Inl RuntimeError)
          else (case send_loop True (tcp_frame query_packet) (te_send env) of
              None \<Rightarrow> None
            | Some (Inl _, _) \<Rightarrow> Some (Inr (Inl CONNECTION))
            | Some (Inr _, _) \<Rightarrow> tcp_receive env cancel))"

definition is_truncated :: "byte list \<Rightarrow> bool" where
  "is_truncated response = (HEADER_SIZE \<le> length response \<and> response ! 2 AND 0x02 \<noteq> 0)"

definition catch_classic :: "(dns_error + 'a) result \<Rightarrow> (dns_error + 'a) result" where
  "catch_classic r =
     (case r of
        Inl OutOfBounds \<Rightarrow> Inl OutOfBounds
      | Inl (DnsLookupException e) \<Rightarrow> Inr (Inl e)
      | Inl DnsPacketException \<Rightarrow> Inr (Inl PARSE)
      | Inl SocketException \<Rightarrow> Inr (Inl CONNECTION)
      | Inl _ \<Rightarrow> Inr (Inl UNKNOWN)
      | Inr x \<Rightarrow> Inr x)"

text \<open>\<^verbatim>\<open>auto valid = validate_response(...); if (!valid) return unexpected\<close>\<close>

definition validated :: "byte list \<Rightarrow> byte list \<Rightarrow> (dns_error + byte list) result" where
  "validated query_packet response =
     bindE (validate_response query_packet response) (\<lambda>v.
       Inr (case v of Inl e \<Rightarrow> Inl e | Inr _ \<Rightarrow> Inr response))"

definition classic_query_body ::
  "udp_env \<Rightarrow> tcp_env \<Rightarrow> bool \<Rightarrow> byte list \<Rightarrow> (dns_error + byte list) result option" where
  "classic_query_body udp tcp cancel query_packet =
     (case query_udp udp cancel query_packet of
        None \<Rightarrow> None
      | Some (Inl x) \<Rightarrow> Some (Inl x)
      | Some (Inr (Inl e)) \<Rightarrow> Some (Inr (Inl e))
      | Some (Inr (Inr resp_data)) \<Rightarrow>
          (case validated query_packet resp_data of
             Inr (Inr _) \<Rightarrow>
               if is_truncated resp_data then
                 (case query_tcp tcp cancel query_packet of
                    None \<Rightarrow> None
                  | Some (Inr (Inr tcp_data)) \<Rightarrow> Some (validated query_packet tcp_data)
                  | Some failure \<Rightarrow> Some failure)
               else Some (Inr (Inr resp_data))
           | failure \<Rightarrow> Some failure))"

definition classic_query ::
  "u32 \<Rightarrow> udp_env \<Rightarrow> tcp_env \<Rightarrow> bool \<Rightarrow> string \<Rightarrow> record_kind \<Rightarrow> (dns_error + byte list) result option" where
  "classic_query eng udp tcp cancel host type =
     (case build_query eng host (type_to_record_type type) of
        Inl x \<Rightarrow> Some (catch_classic (Inl x))
      | Inr query_packet \<Rightarrow> map_option catch_classic (classic_query_body udp tcp cancel query_packet))"

section \<open>Lemmas\<close>

lemma recv_all_got:
  assumes "recv_all cancel len got ps rs = Some (Inr out, ps', rs')" "length got \<le> len"
  shows "length out = len \<and> got @ incoming rs = out @ incoming rs'"
  using assms
proof (induction cancel len got ps rs rule: recv_all.induct)
  case (1 cancel len got ps rs)
  show ?case
  proof (cases "length got < len")
    case False
    with "1.prems" show ?thesis by (subst (asm) recv_all.simps) simp
  next
    case True
    with "1.prems"(1) obtain p ps1 n b bs rs1 where a: "ps = p # ps1" "wait_for {POLLIN} cancel p = Some (Inr n, b)" "n \<noteq> 0"
      "recv True (len - length got) rs = Some (Inr bs, rs1)" "bs \<noteq> []"
      "recv_all cancel len (got @ bs) ps1 rs1 = Some (Inr out, ps', rs')"
      by (subst (asm) recv_all.simps) (auto split: list.splits option.splits sum.splits if_splits)
    have "length (got @ bs) \<le> len" using recv_cap [OF a(4)] True by simp
    with "1.IH" [OF True a(1) a(2) _ refl _ a(4) _ refl a(5) a(6)] a(3) recv_incoming [OF a(4)]
    show ?thesis by simp
  qed
qed

lemma validated_ok: "validated q r = Inr (Inr d) \<longleftrightarrow> d = r \<and> validate_response q r = Inr (Inr ())"
proof (cases "validate_response q r")
  case (Inr v)
  then show ?thesis by (cases v) (auto simp: validated_def)
qed (simp add: validated_def)

lemma catch_classic_Inr_Inr [simp]: "catch_classic r = Inr (Inr x) \<longleftrightarrow> r = Inr (Inr x)"
  by (auto simp: catch_classic_def split: sum.splits exn.splits)

lemma catch_classic_Inl [simp]: "catch_classic r = Inl x \<longleftrightarrow> x = OutOfBounds \<and> r = Inl OutOfBounds"
  by (auto simp: catch_classic_def split: sum.splits exn.splits)

lemma validated_total:
  assumes "build b = Inr packet" shows "\<exists>v. validated packet d = Inr v"
  using validate_response_total [OF build_length [OF assms], of d] by (auto simp: validated_def)

lemma tcp_receive_ok:
  assumes "tcp_receive env cancel = Some (Inr (Inr data))"
  shows "\<exists>rest. incoming (te_recv env) = tcp_frame data @ rest \<and> 0 < length data \<and> length data \<le> 4096"
proof -
  from assms obtain len_buf ps rs be_len ps' rs' where
    a: "recv_all cancel 2 [] (te_polls env) (te_recv env) = Some (Inr len_buf, ps, rs)"
       "read_u16_be len_buf 0 = Inr be_len" "0 < unat be_len" "unat be_len \<le> 4096"
       "recv_all cancel (unat be_len) [] ps rs = Some (Inr data, ps', rs')"
    by (auto simp: tcp_receive_def Let_def split: option.splits sum.splits if_splits)
  from recv_all_got [OF a(1)] have l: "length len_buf = 2" "incoming (te_recv env) = len_buf @ incoming rs" by auto
  from recv_all_got [OF a(5)] have d: "length data = unat be_len" "incoming rs = data @ incoming rs'" by auto
  have "be16 be_len = len_buf" using l(1) a(2) by (rule u16.enc_dec)
  then have "tcp_frame data = len_buf @ data" using d(1) by (simp add: tcp_frame_def)
  with l d a(3,4) show ?thesis by auto
qed

lemma recv_all_complete:
  assumes "open_script s" "length got \<le> len" "len \<le> length got + length (incoming s)"
    "\<forall>p\<in>set ps. \<exists>b. wait_for {POLLIN} cancel p = Some (Inr 1, b)" "len - length got \<le> length ps"
  shows "\<exists>ps' s'. recv_all cancel len got ps s = Some (Inr (take len (got @ incoming s)), ps', s') \<and> open_script s' \<and>
    set ps' \<subseteq> set ps \<and> length ps \<le> length ps' + (len - length got)"
  using assms
proof (induction ps arbitrary: got s)
  case Nil
  then show ?case by (subst recv_all.simps) simp
next
  case (Cons p ps)
  show ?case
  proof (cases "length got < len")
    case False
    with Cons.prems show ?thesis by (subst recv_all.simps) simp
  next
    case True
    with Cons.prems(3) have "incoming s \<noteq> []" by auto
    with True open_script_recv [OF Cons.prems(1), of "len - length got"]
    obtain bs s1 where a: "recv True (len - length got) s = Some (Inr bs, s1)" "bs \<noteq> []" "open_script s1" by auto
    obtain b where b: "wait_for {POLLIN} cancel p = Some (Inr 1, b)" using Cons.prems(4) by auto
    note inc = recv_incoming [OF a(1)]
    have le: "length (got @ bs) \<le> len" "1 \<le> length bs" using recv_cap [OF a(1)] True a(2) by (auto simp: Suc_le_eq)
    have "len - length (got @ bs) \<le> length ps" "len \<le> length (got @ bs) + length (incoming s1)"
      using Cons.prems(3,5) inc le(2) by auto
    with Cons.IH [OF a(3) le(1)] Cons.prems(4)
    obtain ps' s' where "recv_all cancel len (got @ bs) ps s1 = Some (Inr (take len ((got @ bs) @ incoming s1)), ps', s')"
      "open_script s'" "set ps' \<subseteq> set ps" "length ps \<le> length ps' + (len - length (got @ bs))"
      by auto
    then show ?thesis using a b True inc le by (subst recv_all.simps) auto
  qed
qed

lemma classic_query_body_ok:
  assumes "classic_query_body udp tcp cancel packet = Some (Inr (Inr d))"
  shows "validate_response packet d = Inr (Inr ()) \<and>
    (query_udp udp cancel packet = Some (Inr (Inr d)) \<and> \<not> is_truncated d \<or>
     (\<exists>d0. query_udp udp cancel packet = Some (Inr (Inr d0)) \<and> is_truncated d0 \<and>
        query_tcp tcp cancel packet = Some (Inr (Inr d))))"
  using assms validated_ok
  by (auto simp: classic_query_body_def split: option.splits sum.splits if_splits)

lemma tcp_receive_no_ub: "tcp_receive env cancel \<noteq> Some (Inl x)"
  using u16.dec_in_bounds [of 0]
  by (auto simp: tcp_receive_def Let_def dest!: recv_all_got split: option.splits sum.splits if_splits)
     (metis Inl_Inr_False One_nat_def Suc_1 order_refl)

lemma query_tcp_Inl: "query_tcp env cancel packet = Some (Inl x) \<Longrightarrow> x = SocketException \<or> x = RuntimeError"
  using tcp_receive_no_ub by (auto simp: query_tcp_def split: option.splits sum.splits if_splits)

lemma query_udp_Inl: "query_udp env cancel packet = Some (Inl x) \<Longrightarrow> x = SocketException"
  by (auto simp: query_udp_def split: option.splits sum.splits if_splits)

lemma classic_query_body_defined:
  assumes "build b = Inr packet" shows "classic_query_body udp tcp cancel packet \<noteq> Some (Inl OutOfBounds)"
proof -
  have v: "validated packet d \<noteq> Inl x" for d x using validated_total [OF assms, of d] by auto
  show ?thesis
    using query_udp_Inl [of udp cancel packet OutOfBounds] query_tcp_Inl [of tcp cancel packet OutOfBounds] v
    by (auto simp: classic_query_body_def split: option.splits sum.splits if_splits)
qed

lemma classic_query_sound:
  assumes "classic_query eng udp tcp cancel host type = Some r"
  shows "(\<exists>e. r = Inr (Inl e)) \<or>
    (\<exists>packet data. r = Inr (Inr data) \<and> build_query eng host (type_to_record_type type) = Inr packet \<and>
       validate_response packet data = Inr (Inr ()) \<and>
       (query_udp udp cancel packet = Some (Inr (Inr data)) \<and> \<not> is_truncated data \<or>
        (\<exists>d0. query_udp udp cancel packet = Some (Inr (Inr d0)) \<and> is_truncated d0 \<and>
           query_tcp tcp cancel packet = Some (Inr (Inr data)))))"
proof (cases "build_query eng host (type_to_record_type type)")
  case (Inl x)
  then have "x = DnsPacketException" by (simp add: build_query_def build_spec split: if_splits)
  with Inl assms show ?thesis by (auto simp: classic_query_def catch_classic_def)
next
  case (Inr packet)
  with assms obtain b where b: "classic_query_body udp tcp cancel packet = Some b" "r = catch_classic b"
    by (auto simp: classic_query_def)
  have "\<nexists>x. r = Inl x"
    using b classic_query_body_defined [OF Inr [unfolded build_query_def], of udp tcp cancel] by auto
  then obtain v where v: "r = Inr v" by (cases r) auto
  show ?thesis
  proof (cases v)
    case (Inr d)
    with v b(2) have "catch_classic b = Inr (Inr d)" by simp
    with b(1) have "classic_query_body udp tcp cancel packet = Some (Inr (Inr d))" by simp
    from classic_query_body_ok [OF this] Inr v \<open>build_query eng host (type_to_record_type type) = Inr packet\<close>
    show ?thesis by blast
  qed (use v in auto)
qed

text \<open>A reachable server that answers over TCP with a message of two bytes.\<close>

definition sample_tcp :: tcp_env where
  "sample_tcp = \<lparr>te_socket = True,
     te_connect = \<lparr>ce_getfl = Inr 2, ce_setfl = True, ce_restore = True, ce_connect = [Inr ()], ce_poll = [],
       ce_so_error = Inr None\<rparr>,
     te_nodelay = True, te_send = [], te_polls = replicate 9 [Inr (PollReady {POLLIN} {})],
     te_recv = [Inr [0], Inl EINTR, Inr [2, 7], Inr [9]]\<rparr>"

section \<open>Properties\<close>

text \<open>The TCP fallback delivers exactly the message the peer framed. Whatever it returns was
  preceded on the connection by its own two-byte length and is between 1 and 4096 bytes long; and a
  framed message of such a length that arrives on a connection that stays open, in whatever segments,
  is returned as it was sent.\<close>

theorem tcp_message_exact:
  "(tcp_receive env cancel = Some (Inr (Inr data)) \<longrightarrow>
     (\<exists>rest. incoming (te_recv env) = tcp_frame data @ rest) \<and> 0 < length data \<and> length data \<le> 4096) \<and>
   (open_script (te_recv env) \<and> incoming (te_recv env) = tcp_frame data @ later \<and>
    0 < length data \<and> length data \<le> 4096 \<and> length data + 2 \<le> length (te_polls env) \<and>
    (\<forall>p\<in>set (te_polls env). \<exists>b. wait_for {POLLIN} cancel p = Some (Inr 1, b)) \<longrightarrow>
      tcp_receive env cancel = Some (Inr (Inr data)))"
proof (intro conjI impI, goal_cases)
  case 1 then show ?case using tcp_receive_ok by blast
next
  case 2 then show ?case using tcp_receive_ok by blast
next
  case 3 then show ?case using tcp_receive_ok by blast
next
  case 4
  let ?len = "of_nat (length data) :: u16"
  have un: "unat ?len = length data" using 4 by (simp add: unat_of_nat)
  from 4 recv_all_complete [of "te_recv env" "[]" 2 "te_polls env" cancel]
  obtain ps s where h: "recv_all cancel 2 [] (te_polls env) (te_recv env) = Some (Inr (be16 ?len), ps, s)"
    "open_script s" "set ps \<subseteq> set (te_polls env)" "length (te_polls env) \<le> length ps + 2"
    by (auto simp: tcp_frame_def)
  have inc: "incoming s = data @ later" using recv_all_got [OF h(1)] 4 by (simp add: tcp_frame_def)
  have "\<forall>p\<in>set ps. \<exists>b. wait_for {POLLIN} cancel p = Some (Inr 1, b)" using h(3) 4 by blast
  with h inc 4 recv_all_complete [of s "[]" "length data" ps cancel]
  obtain ps' s' where b: "recv_all cancel (length data) [] ps s = Some (Inr data, ps', s')" by auto
  show ?case using h b 4 un by (simp add: tcp_receive_def u16.dec_enc Let_def)
qed

theorem tcp_message_exact_witness: "tcp_receive sample_tcp False = Some (Inr (Inr [7, 9]))"
proof -
  have "open_script (te_recv sample_tcp)" "incoming (te_recv sample_tcp) = tcp_frame [7, 9] @ []"
    "length (te_polls sample_tcp) = 9"
    by (simp_all add: sample_tcp_def open_script_def tcp_frame_def be16_def)
  moreover have "\<forall>p\<in>set (te_polls sample_tcp). \<exists>b. wait_for {POLLIN} False p = Some (Inr 1, b)"
    by (auto simp: sample_tcp_def wait_for_def)
  ultimately show ?thesis
    using tcp_message_exact [of sample_tcp False "[7, 9]" "[]"] by simp
qed

text \<open>C15. A classic query that returns has an answer or a DNS error, never an exception and never a
  read outside a buffer, whatever the server sent; and the bytes of an answer passed the validation
  against the very query packet that was sent, and are either the datagram, which is not truncated, or
  the message of the TCP fallback after a truncated datagram.\<close>

theorem classic_query_returns_validated:
  assumes "classic_query eng udp tcp cancel host type = Some r"
  shows "(\<exists>e. r = Inr (Inl e)) \<or>
    (\<exists>packet data. r = Inr (Inr data) \<and> build_query eng host (type_to_record_type type) = Inr packet \<and>
       validate_response packet data = Inr (Inr ()) \<and>
       (query_udp udp cancel packet = Some (Inr (Inr data)) \<and> \<not> is_truncated data \<or>
        (\<exists>d0. query_udp udp cancel packet = Some (Inr (Inr d0)) \<and> is_truncated d0 \<and>
           query_tcp tcp cancel packet = Some (Inr (Inr data)))))"
  using assms by (rule classic_query_sound)

theorem classic_query_returns_validated_witness:
  "\<exists>packet data udp. classic_query 7 udp sample_tcp False ''a.bc'' Kind_A = Some (Inr (Inr data)) \<and>
     build_query 7 ''a.bc'' (type_to_record_type Kind_A) = Inr packet \<and> validate_response packet data = Inr (Inr ()) \<and>
     \<not> is_truncated data"
proof -
  let ?b = "set_qr True (add_question ''a.bc'' (type_to_record_type Kind_A) Class_IN (QueryBuilder 7))"
  have "(case build_query 7 ''a.bc'' (type_to_record_type Kind_A) of Inl _ \<Rightarrow> False | Inr packet \<Rightarrow>
      case build ?b of Inl _ \<Rightarrow> False | Inr data \<Rightarrow>
        validate_response packet data = Inr (Inr ()) \<and> \<not> is_truncated data \<and> length data = 22 \<and> length packet = 33)"
    by code_simp
  then obtain packet data where p: "build_query 7 ''a.bc'' (type_to_record_type Kind_A) = Inr packet"
    "validate_response packet data = Inr (Inr ())" "\<not> is_truncated data" "length data = 22" "length packet = 33"
    by (auto split: sum.splits)
  let ?udp = "\<lparr>ue_socket = True, ue_send = [Inr 33], ue_poll = [Inr (PollReady {POLLIN} {})], ue_recv = [Inr data]\<rparr>"
  have "query_udp ?udp False packet = Some (Inr (Inr data))"
    using p by (simp add: query_udp_def send_loop_def wait_for_def recv_def)
  then have "classic_query 7 ?udp sample_tcp False ''a.bc'' Kind_A = Some (Inr (Inr data))"
    using p by (simp add: classic_query_def classic_query_body_def validated_ok [THEN iffD2])
  from classic_query_returns_validated [OF this] this p show ?thesis by auto
qed

end
