(* ===== verification/Transport_Stream.thy ===== *)
theory Transport_Stream
  imports Syscalls
begin

text \<open>
  The transport interface of \<^verbatim>\<open>src/network/transport/stream.h\<close>: three operations on a connection
  state, and what its comments promise of the two reads. \<open>arriving\<close> is the abstract content of the
  stream: the bytes the peer has sent and nobody has read.
\<close>

datatype io_error = TIMEOUT | CANCELLED_IO | CONNECTION_FAILED

record 's stream =
  read_some :: "nat \<Rightarrow> 's \<Rightarrow> (io_error + byte list) \<times> 's"
  read_exact :: "nat \<Rightarrow> 's \<Rightarrow> (io_error + byte list) \<times> 's"
  send_all :: "byte list \<Rightarrow> 's \<Rightarrow> (io_error + unit) \<times> 's"

locale byte_stream =
  fixes io :: "'s stream" and arriving :: "'s \<Rightarrow> byte list"
  assumes read_some_takes:
      "read_some io cap s = (Inr bs, s') \<Longrightarrow> bs \<noteq> [] \<and> length bs \<le> cap \<and> arriving s = bs @ arriving s'"
    and read_exact_takes:
      "read_exact io n s = (Inr bs, s') \<Longrightarrow> length bs = n \<and> arriving s = bs @ arriving s'"
begin

lemma read_exact_prefix: "read_exact io n s = (Inr bs, s') \<Longrightarrow> bs = take n (arriving s) \<and> arriving s' = drop n (arriving s)"
  using read_exact_takes by fastforce

lemma read_some_shorter: "read_some io cap s = (Inr bs, s') \<Longrightarrow> length (arriving s') < length (arriving s)"
  using read_some_takes by fastforce

end

end
