(* ===== verification/Tls_Connection.thy ===== *)
theory Tls_Connection
  imports Transport_Stream
begin

text \<open>
  The TLS connection and the byte stream over it (\<^verbatim>\<open>src/network/tls_connection.{h,cpp}\<close>,
  \<^verbatim>\<open>src/network/transport\<close>). OpenSSL is a script: one round is what a \<^verbatim>\<open>poll\<close> and the \<^verbatim>\<open>BIO_read\<close> or
  \<^verbatim>\<open>BIO_write\<close> after it give. A round of decrypted bytes is consumed as far as the caller's buffer
  goes; the rest is what \<^verbatim>\<open>SSL_pending\<close> reports, and is read without another poll. All polls have a
  finite timeout, so a script that is used up is a silent peer: the next poll times out.
\<close>

datatype io_status = IO_OK | IO_TIMEOUT | IO_ERROR | IO_CANCELLED

datatype 'a bio_answer = BioDone 'a | BioRetry | BioFail

text \<open>The state of the BIO at a poll: its descriptor, the directions it asks for, and the kernel's
  answers to \<^verbatim>\<open>poll\<close>.\<close>

record poll_env =
  pe_fd :: int
  pe_should_read :: bool
  pe_should_write :: bool
  pe_poll :: "poll_ret script"

definition poll_events :: "poll_env \<Rightarrow> poll_flag \<Rightarrow> poll_flag set" where
  "poll_events env default_event =
     (let events = (if pe_should_read env then {POLLIN} else {}) \<union> (if pe_should_write env then {POLLOUT} else {})
      in if events = {} then {default_event} else events)"

definition poll_bio :: "poll_env \<Rightarrow> poll_flag \<Rightarrow> bool \<Rightarrow> io_status" where
  "poll_bio env default_event cancel =
     (if pe_fd env < 0 then IO_ERROR
      else case eintr_retry (pe_poll env) of
        None \<Rightarrow> IO_TIMEOUT
      | Some (Inl _, _) \<Rightarrow> IO_ERROR
      | Some (Inr PollTimeout, _) \<Rightarrow> IO_TIMEOUT
      | Some (Inr (PollReady revents cancel_revents), _) \<Rightarrow>
          if cancel \<and> POLLIN \<in> cancel_revents then IO_CANCELLED
          else if revents \<inter> poll_events env default_event \<noteq> {} then IO_OK
          else IO_ERROR)"

record 'a round =
  r_poll :: poll_env
  r_bio :: "'a bio_answer"

text \<open>\<open>c_pending\<close> is the decrypted data OpenSSL holds, \<open>c_reads\<close> and \<open>c_writes\<close> the scripts of the next reads
  and writes, \<open>c_sent\<close> the bytes written so far.\<close>

record tls_conn =
  c_connected :: bool
  c_pending :: "byte list"
  c_reads :: "byte list round list"
  c_writes :: "nat round list"
  c_sent :: "byte list"

section \<open>Sending\<close>

text \<open>\<^verbatim>\<open>BIO_write\<close> returns a positive count of at most the bytes it was given.\<close>

fun send_rounds :: "bool \<Rightarrow> byte list \<Rightarrow> byte list \<Rightarrow> nat round list \<Rightarrow> (io_status + unit) \<times> byte list \<times> nat round list" where
  "send_rounds cancel data sent ws =
     (if data = [] then (Inr (), sent, ws)
      else case ws of
        [] \<Rightarrow> (Inl IO_TIMEOUT, sent, [])
      | w # ws' \<Rightarrow>
          let status = poll_bio (r_poll w) POLLOUT cancel in
          if status \<noteq> IO_OK then (Inl status, sent, ws')
          else case r_bio w of
            BioDone n \<Rightarrow>
              let k = min (max 1 n) (length data)
              in send_rounds cancel (drop k data) (sent @ take k data) ws'
          | BioRetry \<Rightarrow> send_rounds cancel data sent ws'
          | BioFail \<Rightarrow> (Inl IO_ERROR, sent, ws'))"

declare send_rounds.simps [simp del]

definition tls_send_all :: "bool \<Rightarrow> byte list \<Rightarrow> tls_conn \<Rightarrow> (io_status + unit) \<times> tls_conn" where
  "tls_send_all cancel data c =
     (if \<not> c_connected c then (Inl IO_ERROR, c)
      else let (r, sent, ws) = send_rounds cancel data (c_sent c) (c_writes c)
           in (r, c\<lparr>c_sent := sent, c_writes := ws\<rparr>))"

section \<open>Reading\<close>

text \<open>One iteration of the read loops with a buffer of \<open>cap\<close> bytes: the bytes read, a retry, or an error.
  A read of no bytes is not a success of \<^verbatim>\<open>BIO_read\<close>, nor one to retry.\<close>

definition read_round :: "bool \<Rightarrow> nat \<Rightarrow> tls_conn \<Rightarrow> (io_status + byte list option) \<times> tls_conn" where
  "read_round cancel cap c =
     (if c_pending c \<noteq> [] then
        (if cap = 0 then Inl IO_ERROR else Inr (Some (take cap (c_pending c))), c\<lparr>c_pending := drop cap (c_pending c)\<rparr>)
      else case c_reads c of
        [] \<Rightarrow> (Inl IO_TIMEOUT, c)
      | w # ws \<Rightarrow>
          let status = poll_bio (r_poll w) POLLIN cancel; c' = c\<lparr>c_reads := ws\<rparr> in
          if status \<noteq> IO_OK then (Inl status, c')
          else case r_bio w of
            BioDone bs \<Rightarrow>
              if cap = 0 \<or> bs = [] then (Inl IO_ERROR, c'\<lparr>c_pending := bs\<rparr>)
              else (Inr (Some (take cap bs)), c'\<lparr>c_pending := drop cap bs\<rparr>)
          | BioRetry \<Rightarrow> (Inr None, c')
          | BioFail \<Rightarrow> (Inl IO_ERROR, c'))"

definition conn_size :: "tls_conn \<Rightarrow> nat" where
  "conn_size c = length (c_pending c) +
     sum_list (map (\<lambda>w. case r_bio w of BioDone bs \<Rightarrow> Suc (length bs) | _ \<Rightarrow> 1) (c_reads c))"

lemma read_round_size: "read_round cancel cap c = (Inr r, c') \<Longrightarrow> conn_size c' < conn_size c"
  by (auto simp: read_round_def conn_size_def Let_def split: if_splits list.splits bio_answer.splits)

lemma read_round_cap: "read_round cancel cap c = (Inr (Some bs), c') \<Longrightarrow> bs \<noteq> [] \<and> length bs \<le> cap"
  by (auto simp: read_round_def Let_def split: if_splits list.splits bio_answer.splits)

function read_some_loop :: "bool \<Rightarrow> nat \<Rightarrow> tls_conn \<Rightarrow> (io_status + byte list) \<times> tls_conn" where
  "read_some_loop cancel cap c =
     (case read_round cancel cap c of
        (Inl e, c') \<Rightarrow> (Inl e, c')
      | (Inr (Some bs), c') \<Rightarrow> (Inr bs, c')
      | (Inr None, c') \<Rightarrow> read_some_loop cancel cap c')"
  by pat_completeness auto
termination
  by (relation "measure (\<lambda>(_, _, c). conn_size c)") (auto dest: read_round_size [OF sym])

declare read_some_loop.simps [simp del]

definition tls_read_some :: "bool \<Rightarrow> nat \<Rightarrow> tls_conn \<Rightarrow> (io_status + byte list) \<times> tls_conn" where
  "tls_read_some cancel cap c = (if \<not> c_connected c then (Inl IO_ERROR, c) else read_some_loop cancel cap c)"

function read_exact_loop :: "bool \<Rightarrow> nat \<Rightarrow> byte list \<Rightarrow> tls_conn \<Rightarrow> (io_status + byte list) \<times> tls_conn" where
  "read_exact_loop cancel need got c =
     (if need = 0 then (Inr got, c)
      else case read_round cancel need c of
        (Inl e, c') \<Rightarrow> (Inl e, c')
      | (Inr (Some bs), c') \<Rightarrow> read_exact_loop cancel (need - length bs) (got @ bs) c'
      | (Inr None, c') \<Rightarrow> read_exact_loop cancel need got c')"
  by pat_completeness auto
termination
  by (relation "measure (\<lambda>(_, _, _, c). conn_size c)") (auto dest: read_round_size [OF sym])

declare read_exact_loop.simps [simp del]

definition tls_read_exact :: "bool \<Rightarrow> nat \<Rightarrow> tls_conn \<Rightarrow> (io_status + byte list) \<times> tls_conn" where
  "tls_read_exact cancel n c = (if \<not> c_connected c then (Inl IO_ERROR, c) else read_exact_loop cancel n [] c)"

section \<open>Lifecycle\<close>

text \<open>\<^verbatim>\<open>connect\<close>: the handshake rounds, each an answer of \<^verbatim>\<open>BIO_do_connect\<close>, the time it was made and the
  poll that follows a retry. The new connection starts with the scripts \<open>fresh\<close>.\<close>

record handshake =
  h_connect :: "unit bio_answer"
  h_now :: int
  h_poll :: poll_env

fun handshake_loop :: "int \<Rightarrow> handshake list \<Rightarrow> io_status + unit" where
  "handshake_loop deadline [] = Inl IO_TIMEOUT"
| "handshake_loop deadline (h # hs) =
     (case h_connect h of
        BioDone _ \<Rightarrow> Inr ()
      | BioFail \<Rightarrow> Inl IO_ERROR
      | BioRetry \<Rightarrow>
          if h_now h \<ge> deadline then Inl IO_TIMEOUT
          else let pstatus = poll_bio (h_poll h) POLLOUT False in
            if pstatus = IO_TIMEOUT then Inl IO_TIMEOUT
            else if pstatus \<noteq> IO_OK then Inl IO_ERROR
            else handshake_loop deadline hs)"

definition tls_close :: "tls_conn \<Rightarrow> tls_conn" where
  "tls_close c = c\<lparr>c_connected := False, c_pending := [], c_reads := [], c_writes := []\<rparr>"

text \<open>\<open>ready\<close>: the SSL context, the BIO and its options could be set up; \<open>now\<close> plus the timeout is the
  deadline.\<close>

definition tls_connect ::
  "bool \<Rightarrow> int \<Rightarrow> int \<Rightarrow> handshake list \<Rightarrow> tls_conn \<Rightarrow> tls_conn \<Rightarrow> (io_status + unit) \<times> tls_conn" where
  "tls_connect ready now connect_timeout hs fresh c =
     (let c = tls_close c in
      if \<not> ready then (Inl IO_ERROR, c)
      else case handshake_loop (now + connect_timeout) hs of
        Inl e \<Rightarrow> (Inl e, c)
      | Inr _ \<Rightarrow> (Inr (), fresh\<lparr>c_connected := True, c_sent := c_sent c\<rparr>))"

text \<open>\<^verbatim>\<open>is_healthy\<close>: pending data, or nothing to read, or a peeked byte. \<open>peek\<close> is the result of the
  non-blocking peek when the descriptor is readable.\<close>

definition is_healthy :: "int \<Rightarrow> (errno + nat) option \<Rightarrow> tls_conn \<Rightarrow> bool" where
  "is_healthy fd peek c =
     (if \<not> c_connected c then False
      else if c_pending c \<noteq> [] then True
      else if fd < 0 then False
      else case peek of
        None \<Rightarrow> True
      | Some (Inl e) \<Rightarrow> e = EAGAIN
      | Some (Inr n) \<Rightarrow> n > 0)"

section \<open>TlsStream\<close>

fun to_io_error :: "io_status \<Rightarrow> io_error" where
  "to_io_error IO_TIMEOUT = TIMEOUT"
| "to_io_error IO_CANCELLED = CANCELLED_IO"
| "to_io_error _ = CONNECTION_FAILED"

definition tls_stream :: "bool \<Rightarrow> tls_conn stream" where
  "tls_stream cancel =
     \<lparr>read_some = \<lambda>cap c. apfst (map_sum to_io_error id) (tls_read_some cancel cap c),
      read_exact = \<lambda>n c. apfst (map_sum to_io_error id) (tls_read_exact cancel n c),
      send_all = \<lambda>data c. apfst (map_sum to_io_error id) (tls_send_all cancel data c)\<rparr>"

section \<open>The stream keeps its contract\<close>

definition arriving :: "tls_conn \<Rightarrow> byte list" where
  "arriving c = c_pending c @ concat (map (\<lambda>w. case r_bio w of BioDone bs \<Rightarrow> bs | _ \<Rightarrow> []) (c_reads c))"

lemma read_round_arriving:
  "read_round cancel cap c = (Inr r, c') \<Longrightarrow> arriving c = (case r of None \<Rightarrow> [] | Some bs \<Rightarrow> bs) @ arriving c'"
  by (auto simp: read_round_def arriving_def Let_def split: if_splits list.splits bio_answer.splits)

lemma read_round_connected: "read_round cancel cap c = (r, c') \<Longrightarrow> c_connected c' = c_connected c"
  by (auto simp: read_round_def Let_def split: if_splits list.splits bio_answer.splits)

lemma read_some_loop_takes:
  "read_some_loop cancel cap c = (Inr bs, c') \<Longrightarrow> bs \<noteq> [] \<and> length bs \<le> cap \<and> arriving c = bs @ arriving c'"
proof (induction cancel cap c rule: read_some_loop.induct)
  case (1 cancel cap c)
  obtain r c1 where r: "read_round cancel cap c = (Inr r, c1)"
    using "1.prems" by (subst (asm) read_some_loop.simps) (auto split: prod.splits sum.splits)
  show ?case
  proof (cases r)
    case None
    with r "1.prems" have "read_some_loop cancel cap c1 = (Inr bs, c')"
      by (subst (asm) read_some_loop.simps) simp
    with "1.IH" [OF r [symmetric] refl None] read_round_arriving [OF r] None show ?thesis by simp
  next
    case (Some b)
    with r "1.prems" have "b = bs" "c1 = c'" by (subst (asm) read_some_loop.simps, simp)+
    with read_round_arriving [OF r] read_round_cap [OF r [unfolded Some]] Some show ?thesis by simp
  qed
qed

lemma read_exact_loop_takes:
  "read_exact_loop cancel need got c = (Inr bs, c') \<Longrightarrow>
   length bs = length got + need \<and> got @ arriving c = bs @ arriving c'"
proof (induction cancel need got c rule: read_exact_loop.induct)
  case (1 cancel need got c)
  show ?case
  proof (cases "need = 0")
    case True
    with "1.prems" show ?thesis by (subst (asm) read_exact_loop.simps) simp
  next
    case False
    obtain r c1 where r: "read_round cancel need c = (Inr r, c1)"
      using "1.prems" False by (subst (asm) read_exact_loop.simps) (auto split: prod.splits sum.splits)
    show ?thesis
    proof (cases r)
      case None
      with r False "1.prems" have "read_exact_loop cancel need got c1 = (Inr bs, c')"
        by (subst (asm) read_exact_loop.simps) simp
      with "1.IH"(1) [OF False r [symmetric] refl None] read_round_arriving [OF r] None show ?thesis by simp
    next
      case (Some b)
      with r False "1.prems" have "read_exact_loop cancel (need - length b) (got @ b) c1 = (Inr bs, c')"
        by (subst (asm) read_exact_loop.simps) simp
      with "1.IH"(2) [OF False r [symmetric] refl Some] read_round_arriving [OF r]
        read_round_cap [OF r [unfolded Some]] Some show ?thesis by simp
    qed
  qed
qed

lemma tls_read_some_takes:
  "tls_read_some cancel cap c = (Inr bs, c') \<Longrightarrow> bs \<noteq> [] \<and> length bs \<le> cap \<and> arriving c = bs @ arriving c'"
  using read_some_loop_takes by (simp add: tls_read_some_def split: if_splits)

lemma tls_read_exact_takes:
  "tls_read_exact cancel n c = (Inr bs, c') \<Longrightarrow> length bs = n \<and> arriving c = bs @ arriving c'"
  using read_exact_loop_takes [of cancel n "[]"] by (simp add: tls_read_exact_def split: if_splits)

interpretation tls: byte_stream "tls_stream cancel" arriving
proof
  fix cap s bs s'
  assume "read_some (tls_stream cancel) cap s = (Inr bs, s')"
  then have "tls_read_some cancel cap s = (Inr bs, s')"
    by (cases "tls_read_some cancel cap s") (auto simp: tls_stream_def map_sum_def split: sum.splits)
  then show "bs \<noteq> [] \<and> length bs \<le> cap \<and> arriving s = bs @ arriving s'" by (rule tls_read_some_takes)
next
  fix n s bs s'
  assume "read_exact (tls_stream cancel) n s = (Inr bs, s')"
  then have "tls_read_exact cancel n s = (Inr bs, s')"
    by (cases "tls_read_exact cancel n s") (auto simp: tls_stream_def map_sum_def split: sum.splits)
  then show "length bs = n \<and> arriving s = bs @ arriving s'" by (rule tls_read_exact_takes)
qed

lemma send_rounds_sent:
  assumes "send_rounds cancel data sent ws = (r, out, ws')"
  shows "\<exists>k. out = sent @ take k data \<and> (r = Inr () \<longrightarrow> k = length data) \<and> (r \<noteq> Inr () \<longrightarrow> k < length data)"
  using assms
proof (induction ws arbitrary: data sent)
  case Nil
  then show ?case by (subst (asm) send_rounds.simps) (auto split: if_splits intro: exI [of _ 0])
next
  case (Cons w ws)
  consider "data = []" | "data \<noteq> []" "poll_bio (r_poll w) POLLOUT cancel \<noteq> IO_OK"
    | "data \<noteq> []" "poll_bio (r_poll w) POLLOUT cancel = IO_OK" by blast
  then show ?case
  proof cases
    case 1
    with Cons.prems show ?thesis by (subst (asm) send_rounds.simps) auto
  next
    case 2
    with Cons.prems show ?thesis by (subst (asm) send_rounds.simps) (auto simp: Let_def intro: exI [of _ 0])
  next
    case 3
    show ?thesis
    proof (cases "r_bio w")
      case (BioDone n)
      let ?k = "min (max 1 n) (length data)"
      from 3 BioDone Cons.prems have "send_rounds cancel (drop ?k data) (sent @ take ?k data) ws = (r, out, ws')"
        by (subst (asm) send_rounds.simps) (simp add: Let_def)
      from Cons.IH [OF this] obtain j where "out = (sent @ take ?k data) @ take j (drop ?k data)"
        "r = Inr () \<longrightarrow> j = length (drop ?k data)" "r \<noteq> Inr () \<longrightarrow> j < length (drop ?k data)" by blast
      then show ?thesis by (intro exI [of _ "?k + j"]) (auto simp: take_add)
    next
      case BioRetry
      with 3 Cons show ?thesis by (subst (asm) (2) send_rounds.simps) (simp add: Let_def)
    next
      case BioFail
      with 3 Cons.prems show ?thesis by (subst (asm) send_rounds.simps) (auto simp: Let_def intro: exI [of _ 0])
    qed
  qed
qed

section \<open>Properties\<close>

text \<open>A TLS send that succeeds has written the whole message once and in order over any number of
  partial writes and retries; one that fails has written a proper prefix of it. A poll error, timeout
  or cancellation is reported as such.\<close>

theorem tls_send_all_exact:
  assumes "tls_send_all cancel data c = (r, c')" "c_connected c"
  shows "\<exists>k. c_sent c' = c_sent c @ take k data \<and> (r = Inr () \<longrightarrow> k = length data) \<and> (r \<noteq> Inr () \<longrightarrow> k < length data)"
  using assms send_rounds_sent [of cancel data "c_sent c" "c_writes c"]
  by (auto simp: tls_send_all_def split: prod.splits)

end
