(* ===== verification/Persistent_Conn.thy ===== *)
theory Persistent_Conn
  imports Dns_Validator Tls_Connection
begin

text \<open>
  The persistent TLS connection that \<^verbatim>\<open>DotResolver\<close> and \<^verbatim>\<open>DohResolver\<close> keep between queries: their two
  \<^verbatim>\<open>ensure_connection\<close> functions, which differ in the ALPN warning only. A visit is what the clock, the
  socket and OpenSSL answer while one of them runs; \<open>v_others\<close> is what other threads did to the shared
  state since this thread last held the mutex. Times are in milliseconds.
\<close>

record persistent =
  p_conn :: "tls_conn option"
  p_last_use :: int
  p_alpn_warned :: bool

record visit =
  v_others :: "persistent \<Rightarrow> persistent"
  v_now :: int
  v_fd :: int
  v_peek :: "(errno + nat) option"
  v_ready :: bool
  v_handshake :: "handshake list"
  v_fresh :: tls_conn
  v_alpn :: string
  v_done :: int

abbreviation (input) IDLE_TIMEOUT :: int where "IDLE_TIMEOUT \<equiv> 30"
abbreviation (input) CONNECT_TIMEOUT :: int where "CONNECT_TIMEOUT \<equiv> 1000"

definition new_conn :: tls_conn where
  "new_conn = \<lparr>c_connected = False, c_pending = [], c_reads = [], c_writes = [], c_sent = []\<rparr>"

text \<open>The object behind the pointer, or the one \<^verbatim>\<open>make_unique\<close> creates.\<close>

definition conn_of :: "persistent \<Rightarrow> tls_conn" where
  "conn_of st = (case p_conn st of Some c \<Rightarrow> c | None \<Rightarrow> new_conn)"

definition reusable :: "visit \<Rightarrow> persistent \<Rightarrow> bool" where
  "reusable v st =
     (case p_conn st of
        None \<Rightarrow> False
      | Some c \<Rightarrow>
          c_connected c \<and> (v_now v - p_last_use st) div 1000 < IDLE_TIMEOUT \<and> is_healthy (v_fd v) (v_peek v) c)"

text \<open>A connection that cannot be reused is closed, which \<^verbatim>\<open>connect\<close> does again.\<close>

definition reconnect :: "visit \<Rightarrow> persistent \<Rightarrow> (dns_error + unit) \<times> persistent" where
  "reconnect v st =
     (case tls_connect (v_ready v) (v_now v) CONNECT_TIMEOUT (v_handshake v) (v_fresh v) (tls_close (conn_of st)) of
        (Inl e, c) \<Rightarrow> (Inl (if e = IO_TIMEOUT then RETRY else CONNECTION), st\<lparr>p_conn := Some c\<rparr>)
      | (Inr _, c) \<Rightarrow> (Inr (), st\<lparr>p_conn := Some c, p_last_use := v_now v\<rparr>))"

definition doh_ensure_connection :: "visit \<Rightarrow> persistent \<Rightarrow> (dns_error + unit) \<times> persistent" where
  "doh_ensure_connection v st = (if reusable v st then (Inr (), st) else reconnect v st)"

definition check_alpn :: "visit \<Rightarrow> persistent \<Rightarrow> persistent" where
  "check_alpn v st = (if \<not> p_alpn_warned st \<and> v_alpn v \<noteq> ''dot'' then st\<lparr>p_alpn_warned := True\<rparr> else st)"

definition dot_ensure_connection :: "visit \<Rightarrow> persistent \<Rightarrow> (dns_error + unit) \<times> persistent" where
  "dot_ensure_connection v st =
     (if reusable v st then (Inr (), st)
      else case reconnect v st of
        (Inl e, st') \<Rightarrow> (Inl e, st')
      | (Inr _, st') \<Rightarrow> (Inr (), check_alpn v st'))"

definition close_conn :: "persistent \<Rightarrow> persistent" where
  "close_conn st = st\<lparr>p_conn := Some (tls_close (conn_of st))\<rparr>"

section \<open>Lemmas\<close>

lemma conn_of_simps [simp]:
  "conn_of (st\<lparr>p_conn := Some c\<rparr>) = c" "conn_of (st\<lparr>p_last_use := t\<rparr>) = conn_of st"
  "conn_of (st\<lparr>p_alpn_warned := b\<rparr>) = conn_of st"
  by (simp_all add: conn_of_def)

lemma check_alpn_simps [simp]:
  "p_conn (check_alpn v st) = p_conn st" "p_last_use (check_alpn v st) = p_last_use st" "conn_of (check_alpn v st) = conn_of st"
  by (simp_all add: check_alpn_def conn_of_def)

lemma close_conn_simps [simp]:
  "conn_of (close_conn st) = tls_close (conn_of st)" "p_conn (close_conn st) = Some (tls_close (conn_of st))"
  by (simp_all add: close_conn_def)

lemma tls_close_simps [simp]: "\<not> c_connected (tls_close c)" "arriving (tls_close c) = []" "tls_close (tls_close c) = tls_close c"
  by (simp_all add: tls_close_def arriving_def)

lemma reconnect_cases:
  assumes "reconnect v st = (r, st')"
  shows "(r = Inr () \<and> p_conn st' = Some ((v_fresh v)\<lparr>c_connected := True, c_sent := c_sent (conn_of st)\<rparr>) \<and> p_last_use st' = v_now v) \<or>
    (r \<in> {Inl RETRY, Inl CONNECTION} \<and> p_conn st' = Some (tls_close (conn_of st)) \<and> p_last_use st' = p_last_use st)"
  using assms
  by (auto simp: reconnect_def tls_connect_def Let_def split: prod.splits sum.splits if_splits)
     (auto simp: tls_close_def)

lemma reusable_connected: "reusable v st \<Longrightarrow> p_conn st \<noteq> None \<and> c_connected (conn_of st)"
  by (auto simp: reusable_def conn_of_def split: option.splits)

text \<open>Whatever the visit, the result is a connected connection, or an error and a closed one.\<close>

lemma doh_ensure_connection_cases:
  assumes "doh_ensure_connection v st = (r, st')"
  shows "p_conn st' \<noteq> None \<and> (r = Inr () \<and> c_connected (conn_of st') \<or>
    r \<in> {Inl RETRY, Inl CONNECTION} \<and> \<not> c_connected (conn_of st'))"
  using assms reconnect_cases [of v st r st'] reusable_connected [of v st]
  by (auto simp: doh_ensure_connection_def conn_of_def split: if_splits)

lemma dot_ensure_connection_eq:
  "dot_ensure_connection v st = (fst (doh_ensure_connection v st),
     if reusable v st \<or> fst (doh_ensure_connection v st) \<noteq> Inr () then snd (doh_ensure_connection v st)
     else check_alpn v (snd (doh_ensure_connection v st)))"
  by (auto simp: dot_ensure_connection_def doh_ensure_connection_def split: prod.splits sum.splits)

lemma dot_ensure_connection_cases:
  assumes "dot_ensure_connection v st = (r, st')"
  shows "p_conn st' \<noteq> None \<and> (r = Inr () \<and> c_connected (conn_of st') \<or>
    r \<in> {Inl RETRY, Inl CONNECTION} \<and> \<not> c_connected (conn_of st'))"
  using assms doh_ensure_connection_cases [of v st]
  by (cases "doh_ensure_connection v st") (auto simp: dot_ensure_connection_eq split: if_splits)

section \<open>Properties\<close>

text \<open>Both resolvers leave \<open>ensure_connection\<close> with a connection object; it is connected on success,
  and on failure it is closed, so nothing of a broken connection is ever used again. A connection that was
  idle for thirty seconds or more, or that the health check rejects, is never reused: success then means a
  new connection whose clock was restarted.\<close>

theorem ensure_connection_outcome:
  assumes "dot_ensure_connection v st = (r, st')"
  shows "p_conn st' \<noteq> None \<and> (r = Inr () \<longleftrightarrow> c_connected (conn_of st')) \<and>
    (r = Inr () \<and> (v_now v - p_last_use st \<ge> 30000 \<or> \<not> is_healthy (v_fd v) (v_peek v) (conn_of st)) \<longrightarrow>
       p_last_use st' = v_now v \<and> arriving (conn_of st') = arriving (v_fresh v))"
proof -
  have old: "\<not> reusable v st" if "v_now v - p_last_use st \<ge> 30000 \<or> \<not> is_healthy (v_fd v) (v_peek v) (conn_of st)"
    using that by (auto simp: reusable_def conn_of_def split: option.splits)
  have new: "p_last_use st' = v_now v \<and> arriving (conn_of st') = arriving (v_fresh v)"
    if "\<not> reusable v st" "r = Inr ()"
    using assms that reconnect_cases [of v st r]
    by (auto simp: dot_ensure_connection_def arriving_def conn_of_def split: prod.splits sum.splits)
  show ?thesis using dot_ensure_connection_cases [OF assms] old new by auto
qed

end
