(* ===== verification/Dot_Resolver.thy ===== *)
theory Dot_Resolver
  imports Persistent_Conn
begin

text \<open>
  The DNS-over-TLS resolver (\<^verbatim>\<open>src/dns/resolver/dot.cpp\<close>). The random engine is an argument: the
  transaction ids of the two builders and the padding bytes. The loop of two attempts takes the mutex in
  each attempt, so every attempt has a visit of its own.
\<close>

section \<open>The query\<close>

abbreviation (input) PAD_BLOCK :: nat where "PAD_BLOCK \<equiv> 128"
abbreviation (input) EDNS_PAD_OVERHEAD :: nat where "EDNS_PAD_OVERHEAD \<equiv> 15"

definition pad_length :: "nat \<Rightarrow> nat" where
  "pad_length raw_size = (if raw_size mod PAD_BLOCK = 0 then PAD_BLOCK else PAD_BLOCK - raw_size mod PAD_BLOCK)"

definition padded_builder :: "u32 \<Rightarrow> byte list \<Rightarrow> string \<Rightarrow> record_type \<Rightarrow> query_builder" where
  "padded_builder eng padding host type =
     add_edns 512 0 False [\<lparr>opt_code = 12, opt_data = padding\<rparr>] (add_question host type Class_IN (QueryBuilder eng))"

definition build_padded_query :: "u32 \<Rightarrow> u32 \<Rightarrow> (nat \<Rightarrow> byte) \<Rightarrow> string \<Rightarrow> record_type \<Rightarrow> byte list result" where
  "build_padded_query eng0 eng rnd host type =
     bindE (build (add_question host type Class_IN (QueryBuilder eng0))) (\<lambda>base.
       let raw_size = length base + EDNS_PAD_OVERHEAD;
           padding_data = map rnd [0..<pad_length raw_size]
       in build (padded_builder eng padding_data host type))"

definition build_wire_format :: "byte list \<Rightarrow> byte list result" where
  "build_wire_format query_bytes =
     bindE (write_u16_be (replicate (2 + length query_bytes) 0) 0 (of_nat (length query_bytes))) (\<lambda>wire.
       Inr (take 2 wire @ query_bytes))"

section \<open>Sending and reading\<close>

definition dot_send_query :: "visit \<Rightarrow> bool \<Rightarrow> byte list \<Rightarrow> persistent \<Rightarrow> (dns_error + unit) \<times> persistent" where
  "dot_send_query v cancel wire st =
     (case dot_ensure_connection v st of
        (Inl e, st) \<Rightarrow> (Inl e, st)
      | (Inr _, st) \<Rightarrow>
          (case tls_send_all cancel wire (conn_of st) of
             (Inl status, c) \<Rightarrow>
               (Inl (if status = IO_CANCELLED then CANCELLED else CONNECTION), st\<lparr>p_conn := Some (tls_close c)\<rparr>)
           | (Inr _, c) \<Rightarrow> (Inr (), st\<lparr>p_conn := Some c\<rparr>)))"

fun read_failure :: "io_status \<Rightarrow> dns_error" where
  "read_failure IO_CANCELLED = CANCELLED"
| "read_failure _ = CONNECTION"

definition dot_read_response :: "bool \<Rightarrow> persistent \<Rightarrow> (dns_error + byte list) result \<times> persistent" where
  "dot_read_response cancel st =
     (case tls_read_exact cancel 2 (conn_of st) of
        (Inl status, c) \<Rightarrow> (Inr (Inl (read_failure status)), st\<lparr>p_conn := Some c\<rparr>)
      | (Inr length_buffer, c) \<Rightarrow>
          let st = st\<lparr>p_conn := Some c\<rparr> in
          (case read_u16_be length_buffer 0 of
             Inl x \<Rightarrow> (Inl x, st)
           | Inr resp_len \<Rightarrow>
               if resp_len = 0 then (Inr (Inl PARSE), st)
               else if unat resp_len > 65535 then (Inr (Inl PARSE), st)
               else
                 (case tls_read_exact cancel (unat resp_len) (conn_of st) of
                    (Inl status, c) \<Rightarrow> (Inr (Inl (read_failure status)), st\<lparr>p_conn := Some c\<rparr>)
                  | (Inr response, c) \<Rightarrow> (Inr (Inr response), st\<lparr>p_conn := Some c\<rparr>))))"

section \<open>The query loop\<close>

abbreviation (input) MAX_ATTEMPTS :: nat where "MAX_ATTEMPTS \<equiv> 2"

text \<open>One attempt, under the mutex: a failure that the loop may retry, or the value of the \<^verbatim>\<open>return\<close>.\<close>

definition dot_attempt ::
  "visit \<Rightarrow> nat \<Rightarrow> bool \<Rightarrow> byte list \<Rightarrow> byte list \<Rightarrow> persistent \<Rightarrow>
   (dns_error + (dns_error + byte list) result) \<times> persistent" where
  "dot_attempt v attempt cancel query_bytes wire st0 =
     (let st = v_others v st0;
          st = (if attempt = 1 then close_conn st else st);
          failed = (\<lambda>e. if e = CANCELLED then Inr (Inr (Inl e)) else Inl e)
      in case dot_send_query v cancel wire st of
           (Inl e, st) \<Rightarrow> (failed e, st)
         | (Inr _, st) \<Rightarrow>
             (case dot_read_response cancel st of
                (Inl x, st) \<Rightarrow> (Inr (Inl x), st)
              | (Inr (Inl e), st) \<Rightarrow> (failed e, st)
              | (Inr (Inr response), st) \<Rightarrow>
                  (case validate_response query_bytes response of
                     Inl x \<Rightarrow> (Inr (Inl x), st)
                   | Inr (Inl e) \<Rightarrow> (Inr (Inr (Inl e)), st)
                   | Inr (Inr _) \<Rightarrow> (Inr (Inr (Inr response)), st\<lparr>p_last_use := v_done v\<rparr>))))"

text \<open>Leaving the loop is \<^verbatim>\<open>std::unreachable()\<close>, which is undefined.\<close>

function dot_attempts ::
  "(nat \<Rightarrow> visit) \<Rightarrow> bool \<Rightarrow> byte list \<Rightarrow> byte list \<Rightarrow> nat \<Rightarrow> persistent \<Rightarrow> (dns_error + byte list) result \<times> persistent" where
  "dot_attempts vs cancel query_bytes wire attempt st =
     (if attempt < MAX_ATTEMPTS then
        case dot_attempt (vs attempt) attempt cancel query_bytes wire st of
          (Inl e, st) \<Rightarrow>
            if attempt < MAX_ATTEMPTS - 1 then dot_attempts vs cancel query_bytes wire (Suc attempt) st
            else (Inr (Inl e), st)
        | (Inr r, st) \<Rightarrow> (r, st)
      else (Inl OutOfBounds, st))"
  by pat_completeness auto
termination by (relation "measure (\<lambda>(_, _, _, _, attempt, _). 2 - attempt)") auto

declare dot_attempts.simps [simp del]

definition catch_dot :: "(dns_error + 'a) result \<Rightarrow> (dns_error + 'a) result" where
  "catch_dot r =
     (case r of
        Inl OutOfBounds \<Rightarrow> Inl OutOfBounds
      | Inl DnsPacketException \<Rightarrow> Inr (Inl PARSE)
      | Inl (DnsLookupException e) \<Rightarrow> Inr (Inl e)
      | Inl _ \<Rightarrow> Inr (Inl UNKNOWN)
      | Inr x \<Rightarrow> Inr x)"

definition dot_query ::
  "u32 \<Rightarrow> u32 \<Rightarrow> (nat \<Rightarrow> byte) \<Rightarrow> (nat \<Rightarrow> visit) \<Rightarrow> bool \<Rightarrow> string \<Rightarrow> record_kind \<Rightarrow> persistent \<Rightarrow>
   (dns_error + byte list) result \<times> persistent" where
  "dot_query eng0 eng rnd vs cancel host type st =
     (case build_padded_query eng0 eng rnd host (type_to_record_type type) of
        Inl x \<Rightarrow> (catch_dot (Inl x), st)
      | Inr query_bytes \<Rightarrow>
          (case build_wire_format query_bytes of
             Inl x \<Rightarrow> (catch_dot (Inl x), st)
           | Inr wire \<Rightarrow> apfst catch_dot (dot_attempts vs cancel query_bytes wire 0 st)))"

section \<open>Lemmas\<close>

lemma pad_length_block: "0 < pad_length n \<and> pad_length n \<le> 128 \<and> (n + pad_length n) mod 128 = 0"
proof -
  define k r where "k = n div 128" and "r = n mod 128"
  have r: "r < 128" "n = 128 * k + r" by (simp_all add: k_def r_def)
  then have "n + (128 - r) = 128 * (k + 1)" by simp
  then have "(n + (128 - r)) mod 128 = 0" by (simp only: mod_mult_self1_is_0)
  with r(1) show ?thesis by (auto simp: pad_length_def r_def)
qed

lemma build_wire_format_eq: "build_wire_format q = Inr (be16 (of_nat (length q)) @ q)"
  by (simp add: build_wire_format_def write_u16_be_def be16_def numeral_2_eq_2)

lemma padded_packet:
  assumes "build_padded_query eng0 eng rnd host type = Inr p"
  shows "\<exists>padding. build (padded_builder eng padding host type) = Inr p \<and> length padding \<le> 128 \<and>
    padding \<noteq> [] \<and> length p mod 128 = 0"
proof -
  let ?b0 = "add_question host type Class_IN (QueryBuilder eng0)"
  from assms obtain base where base: "build ?b0 = Inr base" by (auto simp: build_padded_query_def)
  define padding where "padding = map rnd [0..<pad_length (length base + 15)]"
  have p: "build (padded_builder eng padding host type) = Inr p"
    using assms base by (simp add: build_padded_query_def padding_def Let_def)
  have w: "base = wire_packet ?b0" "p = wire_packet (padded_builder eng padding host type)"
    using base p by (simp_all add: build_spec split: if_splits)
  have "length p = length base + 15 + length padding"
    unfolding w by (simp add: wire_packet_def wire_header_def wire_edns_def wire_options_def
        padded_builder_def add_edns_def add_question_def QueryBuilder_def)
  then show ?thesis using p pad_length_block [of "length base + 15"]
    by (intro exI [of _ padding]) (auto simp: padding_def)
qed

lemma padded_query_length:
  assumes "build_padded_query eng0 eng rnd host type = Inr p"
  shows "length p \<in> {128, 256, 384}"
proof -
  obtain padding where b: "build (padded_builder eng padding host type) = Inr p" "length padding \<le> 128" "length p mod 128 = 0"
    using padded_packet [OF assms] by (elim exE conjE) (rule that)
  let ?b = "padded_builder eng padding host type"
  have bd: "buildable ?b" "p = wire_packet ?b" using b(1) by (simp_all add: build_spec split: if_splits)
  have q: "qb_questions ?b = [\<lparr>pq_qname = host, pq_qtype = type, pq_qclass = record_class_val Class_IN\<rparr>]"
    "\<exists>ed. qb_edns ?b = Some ed \<and> length (wire_edns ed) = 15 + length padding"
    by (simp_all add: padded_builder_def add_edns_def add_question_def QueryBuilder_def wire_edns_def wire_options_def)
  have e: "encodable host" using bd(1) q(1) by (simp add: buildable_def)
  have l: "length p = 12 + (length (wire_labels (name_labels host)) + 4) + 15 + length padding"
    using bd(2) q by (auto simp: wire_packet_def wire_header_def wire_question_def)
  have "12 < length p" "length p < 512" using l wire_name_length [OF e] b(2) by auto
  with b(3) show ?thesis by auto
qed

lemma dot_read_response_ok:
  assumes "dot_read_response cancel st = (Inr (Inr d), st')"
  shows "arriving (conn_of st) = be16 (of_nat (length d)) @ d @ arriving (conn_of st') \<and> d \<noteq> []"
proof -
  from assms obtain lb c n c' where
    a: "tls_read_exact cancel 2 (conn_of st) = (Inr lb, c)" "read_u16_be lb 0 = Inr n" "n \<noteq> 0"
       "tls_read_exact cancel (unat n) c = (Inr d, c')" "st' = st\<lparr>p_conn := Some c'\<rparr>"
    by (auto simp: dot_read_response_def Let_def split: prod.splits sum.splits if_splits)
  have "be16 n = lb" using tls_read_exact_takes [OF a(1)] a(2) by (auto intro: u16.enc_dec)
  moreover have "length d = unat n" using tls_read_exact_takes [OF a(4)] by simp
  ultimately show ?thesis
    using tls_read_exact_takes [OF a(1)] tls_read_exact_takes [OF a(4)] a(3,5) by (auto simp: unat_eq_0)
qed

lemma dot_read_response_no_ub: "dot_read_response cancel st \<noteq> (Inl x, st')"
proof
  assume "dot_read_response cancel st = (Inl x, st')"
  then obtain lb c where "tls_read_exact cancel 2 (conn_of st) = (Inr lb, c)" "read_u16_be lb 0 = Inl x"
    by (auto simp: dot_read_response_def Let_def split: prod.splits sum.splits if_splits)
  with tls_read_exact_takes [of cancel 2 "conn_of st" lb c] u16.dec_in_bounds [of 0 lb] show False by auto
qed

lemma dot_attempt_sound:
  assumes "dot_attempt v attempt cancel q wire st = (Inr r, st')" "12 \<le> length q"
  shows "(\<exists>e. r = Inr (Inl e)) \<or> (\<exists>d. r = Inr (Inr d) \<and> validate_response q d = Inr (Inr ()))"
proof -
  have v: "validate_response q d \<noteq> Inl x" for d x using validate_response_total [OF assms(2), of d] by auto
  show ?thesis using assms(1)
    by (auto simp: dot_attempt_def Let_def v dot_read_response_no_ub split: prod.splits sum.splits if_splits)
qed

lemma dot_attempts_sound:
  assumes "dot_attempts vs cancel q wire attempt st = (r, st')" "12 \<le> length q" "attempt < 2"
  shows "(\<exists>e. r = Inr (Inl e)) \<or> (\<exists>d. r = Inr (Inr d) \<and> validate_response q d = Inr (Inr ()))"
  using assms
proof (induction vs cancel q wire attempt st rule: dot_attempts.induct)
  case (1 vs cancel q wire attempt st)
  obtain a st1 where a: "dot_attempt (vs attempt) attempt cancel q wire st = (a, st1)" by fastforce
  show ?case
  proof (cases a)
    case (Inl e)
    with 1 a show ?thesis by (subst (asm) (2) dot_attempts.simps) (auto split: if_splits)
  next
    case (Inr r')
    with "1.prems" a have "r' = r" by (subst (asm) dot_attempts.simps) simp
    with dot_attempt_sound [OF a [unfolded Inr] "1.prems"(2)] show ?thesis by simp
  qed
qed

lemma dot_query_sound:
  assumes "dot_query eng0 eng rnd vs cancel host type st = (r, st')"
  shows "(\<exists>e. r = Inr (Inl e)) \<or>
    (\<exists>q d. r = Inr (Inr d) \<and> build_padded_query eng0 eng rnd host (type_to_record_type type) = Inr q \<and>
       validate_response q d = Inr (Inr ()))"
proof (cases "build_padded_query eng0 eng rnd host (type_to_record_type type)")
  case (Inl x)
  then have "x = DnsPacketException" by (auto simp: build_padded_query_def build_spec bindE_def Let_def split: if_splits)
  with Inl assms show ?thesis by (auto simp: dot_query_def catch_dot_def)
next
  case (Inr q)
  let ?run = "dot_attempts vs cancel q (be16 (of_nat (length q)) @ q) 0 st"
  obtain a st1 where a: "?run = (a, st1)" by fastforce
  have "12 \<le> length q" using padded_query_length [OF Inr] by auto
  from dot_attempts_sound [OF a this] a Inr assms show ?thesis
    by (auto simp: dot_query_def build_wire_format_eq catch_dot_def)
qed

section \<open>A connection with an unread response\<close>

definition ready_poll :: poll_env where
  "ready_poll = \<lparr>pe_fd = 5, pe_should_read = False, pe_should_write = False, pe_poll = [Inr (PollReady {POLLIN, POLLOUT} {})]\<rparr>"

definition cancelled_poll :: poll_env where
  "cancelled_poll = \<lparr>pe_fd = 5, pe_should_read = False, pe_should_write = False, pe_poll = [Inr (PollReady {} {POLLIN})]\<rparr>"

definition ready_rounds :: "'a list \<Rightarrow> 'a round list" where
  "ready_rounds xs = map (\<lambda>x. \<lparr>r_poll = ready_poll, r_bio = BioDone x\<rparr>) xs"

definition frame :: "byte list \<Rightarrow> byte list" where
  "frame m = be16 (of_nat (length m)) @ m"

text \<open>A server that answers both of two queries, the first of which is cancelled while it waits.\<close>

definition busy_conn :: "byte list \<Rightarrow> byte list \<Rightarrow> tls_conn" where
  "busy_conn resp1 resp2 = \<lparr>c_connected = True, c_pending = [],
     c_reads = \<lparr>r_poll = cancelled_poll, r_bio = BioRetry\<rparr> # ready_rounds [frame resp1, frame resp2],
     c_writes = ready_rounds [512, 512], c_sent = []\<rparr>"

definition busy_visit :: visit where
  "busy_visit = \<lparr>v_others = id, v_now = 0, v_fd = 5, v_peek = Some (Inr 1), v_ready = True, v_handshake = [],
     v_fresh = new_conn, v_alpn = ''dot'', v_done = 0\<rparr>"

definition busy_state :: "tls_conn \<Rightarrow> persistent" where
  "busy_state c = \<lparr>p_conn = Some c, p_last_use = 0, p_alpn_warned = False\<rparr>"

lemma poll_samples [simp]:
  "poll_bio ready_poll POLLIN cancel = IO_OK" "poll_bio ready_poll POLLOUT cancel = IO_OK"
  "poll_bio cancelled_poll POLLIN True = IO_CANCELLED"
  by (auto simp: poll_bio_def ready_poll_def cancelled_poll_def poll_events_def)

lemma busy_ensure [simp]:
  "c_connected c \<Longrightarrow> dot_ensure_connection busy_visit (busy_state c) = (Inr (), busy_state c)"
  by (simp add: dot_ensure_connection_def reusable_def busy_visit_def busy_state_def is_healthy_def)

lemma busy_state_simps [simp]:
  "conn_of (busy_state c) = c" "(busy_state c)\<lparr>p_conn := Some c'\<rparr> = busy_state c'"
  by (simp_all add: busy_state_def conn_of_def)

lemma busy_send:
  assumes "c_connected c" "c_writes c = ready_rounds (512 # ns)" "length wire \<le> 512" "wire \<noteq> []"
  shows "dot_send_query busy_visit cancel wire (busy_state c) =
    (Inr (), busy_state (c\<lparr>c_sent := c_sent c @ wire, c_writes := ready_rounds ns\<rparr>))"
proof -
  have "send_rounds cancel wire s (ready_rounds (512 # ns)) = (Inr (), s @ wire, ready_rounds ns)" for s
    using assms(3,4) by (subst send_rounds.simps, subst send_rounds.simps) (simp add: ready_rounds_def)
  with assms show ?thesis by (simp add: dot_send_query_def tls_send_all_def)
qed

lemma read_exact_one:
  assumes "c_connected c" "read_round cancel n c = (Inr (Some bs), c')" "length bs = n"
  shows "tls_read_exact cancel n c = (Inr bs, c')"
  using assms read_round_cap [OF assms(2)]
  by (simp add: tls_read_exact_def) (subst read_exact_loop.simps, subst read_exact_loop.simps, auto)

lemma busy_read:
  assumes "c_connected c" "c_pending c = []" "c_reads c = ready_rounds (frame m # ms)" "m \<noteq> []" "length m < 65536"
  shows "dot_read_response cancel (busy_state c) = (Inr (Inr m), busy_state (c\<lparr>c_reads := ready_rounds ms\<rparr>))"
proof -
  have l: "unat (of_nat (length m) :: u16) = length m" using assms(5) by (simp add: unat_of_nat)
  have "tls_read_exact cancel 2 c = (Inr (be16 (of_nat (length m))), c\<lparr>c_reads := ready_rounds ms, c_pending := m\<rparr>)"
    using assms by (intro read_exact_one) (simp_all add: read_round_def ready_rounds_def frame_def be16_def)
  moreover have "tls_read_exact cancel (length m) (c\<lparr>c_reads := ready_rounds ms, c_pending := m\<rparr>) =
      (Inr m, c\<lparr>c_reads := ready_rounds ms\<rparr>)"
    using assms by (intro read_exact_one) (simp_all add: read_round_def)
  moreover have "(of_nat (length m) :: u16) \<noteq> 0" using l assms(4) by auto
  ultimately show ?thesis using l assms(5)
    by (simp add: dot_read_response_def u16.dec_enc Let_def)
qed

lemma padded_query_exists: "encodable host \<Longrightarrow> \<exists>q. build_padded_query eng0 eng rnd host type = Inr q"
  by (auto simp: build_padded_query_def build_spec buildable_def edns_acceptable_def padded_builder_def
      add_edns_def add_question_def QueryBuilder_def Let_def)

lemma padded_answer:
  assumes "build_padded_query eng0 eng rnd host type = Inr q" "decodable host"
  shows "read_u16_be q 0 = Inr (ucast (eng AND 0xFFFF)) \<and> (\<exists>resp. validate_response q resp = Inr (Inr ()) \<and> length resp < 65536)"
proof -
  obtain padding where b: "build (padded_builder eng padding host type) = Inr q" "length padding \<le> 128"
    using padded_packet [OF assms(1)] by (elim exE conjE) (rule that)
  let ?b = "padded_builder eng padding host type"
  let ?q = "\<lparr>pq_qname = host, pq_qtype = type, pq_qclass = record_class_val Class_IN\<rparr>"
  have f: "qb_questions ?b = [?q]" "qb_id ?b = ucast (eng AND 0xFFFF)"
    "\<exists>ed. qb_edns ?b = Some ed \<and> length (wire_options (ec_options ed)) = 4 + length padding"
    by (simp_all add: padded_builder_def add_edns_def add_question_def QueryBuilder_def wire_options_def)
  have bd: "buildable ?b" "q = wire_packet ?b" using b(1) by (simp_all add: build_spec split: if_splits)
  have rec: "recoverable ?b" using bd(1) f b(2) assms(2) by (auto simp: recoverable_def)
  have a: "build (set_qr True ?b) = Inr (wire_packet (set_qr True ?b))"
    using bd(1) by (simp add: build_spec buildable_def set_qr_def)
  have "validate_response q (wire_packet (set_qr True ?b) @ []) = Inr (Inr ())"
    by (rule honest_validates [OF rec f(1) b(1) a]) (simp_all add: set_qr_def f(1))
  moreover have "length (wire_packet (set_qr True ?b)) = length q"
    by (simp add: bd(2) wire_packet_def wire_header_def set_qr_def)
  moreover have "read_u16_be q 0 = Inr (ucast (eng AND 0xFFFF))"
    by (simp add: bd(2) wire_packet_def parse_wire_header f(2))
  ultimately show ?thesis using padded_query_length [OF assms(1)] by force
qed

definition answering_conn :: "byte list \<Rightarrow> tls_conn" where
  "answering_conn resp = \<lparr>c_connected = True, c_pending = [], c_reads = ready_rounds [frame resp],
     c_writes = ready_rounds [512], c_sent = []\<rparr>"

lemma dot_answered:
  assumes "build_padded_query eng0 eng rnd host (type_to_record_type type) = Inr q"
    "validate_response q resp = Inr (Inr ())" "length resp < 65536"
  shows "\<exists>st. dot_query eng0 eng rnd (\<lambda>_. busy_visit) cancel host type (busy_state (answering_conn resp)) = (Inr (Inr resp), st)"
proof -
  let ?w = "be16 (of_nat (length q)) @ q" and ?c = "answering_conn resp"
  have l: "length ?w \<le> 512" "resp \<noteq> []" using padded_query_length [OF assms(1)] assms(2) by (auto simp: validate_response_iff)
  have c: "c_connected ?c" "c_pending ?c = []" "c_reads ?c = ready_rounds [frame resp]" "c_writes ?c = ready_rounds [512]"
    by (simp_all add: answering_conn_def)
  have s: "dot_send_query busy_visit cancel ?w (busy_state ?c) =
      (Inr (), busy_state (?c\<lparr>c_sent := c_sent ?c @ ?w, c_writes := ready_rounds []\<rparr>))"
    using c l by (intro busy_send) (auto simp: be16_def)
  obtain st where "dot_read_response cancel (busy_state (?c\<lparr>c_sent := c_sent ?c @ ?w, c_writes := ready_rounds []\<rparr>)) = (Inr (Inr resp), st)"
    using busy_read [of "?c\<lparr>c_sent := c_sent ?c @ ?w, c_writes := ready_rounds []\<rparr>" resp "[]" cancel] c l assms(3) by auto
  with s assms(1,2) show ?thesis
    by (subst dot_query_def, subst dot_attempts.simps) (auto simp: dot_attempt_def build_wire_format_eq busy_visit_def catch_dot_def)
qed

section \<open>Properties\<close>

text \<open>Every query the DoT resolver sends is padded to a multiple of 128 bytes, for every name that
  can be encoded: it is 128, 256 or 384 bytes long, it carries a padding option with at least one byte,
  and the two-byte length before it on the wire is its length.\<close>

theorem dot_query_padded:
  assumes "encodable host"
  shows "\<exists>q padding. build_padded_query eng0 eng rnd host type = Inr q \<and> length q \<in> {128, 256, 384} \<and>
    build (padded_builder eng padding host type) = Inr q \<and> padding \<noteq> [] \<and>
    build_wire_format q = Inr (be16 (of_nat (length q)) @ q) \<and> unat (of_nat (length q) :: u16) = length q"
proof -
  have "\<exists>q. build_padded_query eng0 eng rnd host type = Inr q" using assms by (rule padded_query_exists)
  then obtain q where q: "build_padded_query eng0 eng rnd host type = Inr q" ..
  obtain padding where "build (padded_builder eng padding host type) = Inr q" "padding \<noteq> []"
    using padded_packet [OF q] by (elim exE conjE) (rule that)
  moreover have "unat (of_nat (length q) :: u16) = length q"
    using padded_query_length [OF q] by (auto simp: unat_of_nat)
  ultimately show ?thesis using q padded_query_length [OF q] build_wire_format_eq by blast
qed

theorem dot_query_padded_witness:
  "\<exists>q. build_padded_query 1 2 (\<lambda>_. 0) ''a.bc'' Type_A = Inr q \<and> length q \<in> {128, 256, 384}"
proof -
  have "encodable ''a.bc''" by code_simp
  from dot_query_padded [OF this, of 1 2 "\<lambda>_. 0" Type_A] show ?thesis by blast
qed

text \<open>C16. Whatever the server, the network and the other threads that share the connection do, a DoT
  query ends with a DNS error or with a response that the validator accepted for the very query that was
  sent; no exception escapes and no buffer is read out of bounds.\<close>

theorem dot_query_returns_validated:
  assumes "dot_query eng0 eng rnd vs cancel host type st = (r, st')"
  shows "(\<exists>e. r = Inr (Inl e)) \<or>
    (\<exists>q d. r = Inr (Inr d) \<and> build_padded_query eng0 eng rnd host (type_to_record_type type) = Inr q \<and>
       validate_response q d = Inr (Inr ()))"
  using assms by (rule dot_query_sound)

theorem dot_query_returns_validated_witness:
  "\<exists>resp st q. dot_query 0 1 (\<lambda>_. 0) (\<lambda>_. busy_visit) False ''a.bc'' Kind_A (busy_state (answering_conn resp)) = (Inr (Inr resp), st) \<and>
     build_padded_query 0 1 (\<lambda>_. 0) ''a.bc'' Type_A = Inr q \<and> validate_response q resp = Inr (Inr ())"
proof -
  have d: "encodable ''a.bc''" "decodable ''a.bc''" by code_simp+
  have "\<exists>q. build_padded_query 0 1 (\<lambda>_. 0) ''a.bc'' Type_A = Inr q" using d(1) by (rule padded_query_exists)
  then obtain q where q: "build_padded_query 0 1 (\<lambda>_. 0) ''a.bc'' (type_to_record_type Kind_A) = Inr q" by auto
  obtain resp where r: "validate_response q resp = Inr (Inr ())" "length resp < 65536" using padded_answer [OF q d(2)] by blast
  obtain st where st: "dot_query 0 1 (\<lambda>_. 0) (\<lambda>_. busy_visit) False ''a.bc'' Kind_A (busy_state (answering_conn resp)) = (Inr (Inr resp), st)"
    using dot_answered [OF q r] by blast
  from dot_query_returns_validated [OF st] st show ?thesis by auto
qed

text \<open>A DoT query that is cancelled while it waits for its response leaves the connection open with
  the response still to come. The health check accepts the connection, so the next query reads that
  response, whose id is not its own, and fails with a parse error although the server answered it; its own
  answer stays on the connection for the query after it.\<close>

theorem dot_cancelled_read_poisons_connection:
  assumes "build_padded_query a0 a rnd host1 (type_to_record_type t1) = Inr q1" "validate_response q1 resp1 = Inr (Inr ())"
    and "build_padded_query b0 b rnd host2 (type_to_record_type t2) = Inr q2" "validate_response q2 resp2 = Inr (Inr ())"
    and "read_u16_be q1 0 \<noteq> read_u16_be q2 0" "length resp1 < 65536"
  shows "\<exists>st1 st2. dot_query a0 a rnd (\<lambda>_. busy_visit) True host1 t1 (busy_state (busy_conn resp1 resp2)) = (Inr (Inl CANCELLED), st1) \<and>
    dot_query b0 b rnd (\<lambda>_. busy_visit) True host2 t2 st1 = (Inr (Inl PARSE), st2) \<and>
    arriving (conn_of st2) = frame resp2 \<and> reusable busy_visit st2"
proof -
  let ?w1 = "be16 (of_nat (length q1)) @ q1" and ?w2 = "be16 (of_nat (length q2)) @ q2"
  have l: "length ?w1 \<le> 512" "length ?w2 \<le> 512"
    using padded_query_length [OF assms(1)] padded_query_length [OF assms(3)] by auto
  have v: "12 \<le> length resp1" "read_u16_be resp1 0 = read_u16_be q1 0" using assms(2) by (auto simp: validate_response_iff)
  have b: "c_connected (busy_conn resp1 resp2)" "c_writes (busy_conn resp1 resp2) = ready_rounds (512 # [512])"
    "c_pending (busy_conn resp1 resp2) = []" "c_reads (busy_conn resp1 resp2) =
      \<lparr>r_poll = cancelled_poll, r_bio = BioRetry\<rparr> # ready_rounds [frame resp1, frame resp2]"
    by (simp_all add: busy_conn_def)
  define c0 where "c0 = (busy_conn resp1 resp2)\<lparr>c_sent := c_sent (busy_conn resp1 resp2) @ ?w1, c_writes := ready_rounds [512]\<rparr>"
  have s1: "dot_send_query busy_visit True ?w1 (busy_state (busy_conn resp1 resp2)) = (Inr (), busy_state c0)"
    unfolding c0_def using b l by (intro busy_send) (auto simp: be16_def)
  define c1 where "c1 = c0\<lparr>c_reads := ready_rounds [frame resp1, frame resp2]\<rparr>"
  have c1: "c_connected c1" "c_pending c1 = []" "c_reads c1 = ready_rounds [frame resp1, frame resp2]" "c_writes c1 = ready_rounds [512]"
    using b by (simp_all add: c1_def c0_def)
  have "dot_read_response True (busy_state c0) = (Inr (Inl CANCELLED), busy_state c1)"
    using b by (simp add: dot_read_response_def tls_read_exact_def read_exact_loop.simps [of True 2] read_round_def c0_def c1_def)
  with s1 have q1: "dot_query a0 a rnd (\<lambda>_. busy_visit) True host1 t1 (busy_state (busy_conn resp1 resp2)) = (Inr (Inl CANCELLED), busy_state c1)"
    using assms(1) by (subst dot_query_def, subst dot_attempts.simps) (simp add: dot_attempt_def build_wire_format_eq busy_visit_def catch_dot_def)
  define c2 where "c2 = c1\<lparr>c_sent := c_sent c1 @ ?w2, c_writes := ready_rounds []\<rparr>"
  have s2: "dot_send_query busy_visit True ?w2 (busy_state c1) = (Inr (), busy_state c2)"
    unfolding c2_def using c1 l by (intro busy_send) (auto simp: be16_def)
  define c3 where "c3 = c2\<lparr>c_reads := ready_rounds [frame resp2]\<rparr>"
  have c2: "c_connected c2" "c_pending c2 = []" "c_reads c2 = ready_rounds [frame resp1, frame resp2]"
    using c1 by (simp_all add: c2_def)
  have r2: "dot_read_response True (busy_state c2) = (Inr (Inr resp1), busy_state c3)"
    unfolding c3_def using c2 v assms(6) by (intro busy_read) auto
  have "validate_response q2 resp1 = Inr (Inl PARSE)"
    using padded_query_length [OF assms(3)] v assms(5) by (intro other_id_rejected) auto
  with s2 r2 have "dot_query b0 b rnd (\<lambda>_. busy_visit) True host2 t2 (busy_state c1) = (Inr (Inl PARSE), busy_state c3)"
    using assms(3) by (subst dot_query_def, subst dot_attempts.simps) (simp add: dot_attempt_def build_wire_format_eq busy_visit_def catch_dot_def)
  moreover have "arriving (conn_of (busy_state c3)) = frame resp2"
    using c2 by (simp add: c3_def arriving_def ready_rounds_def)
  moreover have "reusable busy_visit (busy_state c3)"
    using c2 by (simp add: c3_def ready_rounds_def reusable_def busy_visit_def busy_state_def is_healthy_def)
  ultimately show ?thesis using q1 by blast
qed

theorem dot_cancelled_read_poisons_connection_witness:
  "\<exists>resp1 resp2 st1 st2.
    dot_query 0 1 (\<lambda>_. 0) (\<lambda>_. busy_visit) True ''a.bc'' Kind_A (busy_state (busy_conn resp1 resp2)) = (Inr (Inl CANCELLED), st1) \<and>
    dot_query 0 2 (\<lambda>_. 0) (\<lambda>_. busy_visit) True ''a.bc'' Kind_A st1 = (Inr (Inl PARSE), st2) \<and>
    arriving (conn_of st2) = frame resp2"
proof -
  have d: "encodable ''a.bc''" "decodable ''a.bc''" by code_simp+
  have "\<exists>q. build_padded_query 0 n (\<lambda>_. 0) ''a.bc'' Type_A = Inr q" for n using d(1) by (rule padded_query_exists)
  then obtain q1 q2 where q: "build_padded_query 0 1 (\<lambda>_. 0) ''a.bc'' (type_to_record_type Kind_A) = Inr q1"
    "build_padded_query 0 2 (\<lambda>_. 0) ''a.bc'' (type_to_record_type Kind_A) = Inr q2" by (metis type_to_record_type.simps(1))
  obtain resp1 resp2 where r: "validate_response q1 resp1 = Inr (Inr ())" "length resp1 < 65536"
    "validate_response q2 resp2 = Inr (Inr ())"
    using padded_answer [OF q(1) d(2)] padded_answer [OF q(2) d(2)] by blast
  have "read_u16_be q1 0 \<noteq> read_u16_be q2 0"
    using padded_answer [OF q(1) d(2)] padded_answer [OF q(2) d(2)] by simp
  from dot_cancelled_read_poisons_connection [OF q(1) r(1) q(2) r(3) this r(2)] show ?thesis by blast
qed

end
