(* ===== verification/Http_Model.thy ===== *)
theory Http_Model
  imports String_Util Tls_Connection
begin

text \<open>
  HTTP/1.1 over a transport stream (\<^verbatim>\<open>src/http\<close>, \<^verbatim>\<open>include/http_type.h\<close>): building a request, reading the
  header and the body, and the exchange. \<^verbatim>\<open>picohttpparser\<close> is a library the sources only call: its two
  functions are the arguments \<open>phr\<close>, the outcome of parsing a header, and \<open>dec\<close>, a step of the chunked
  decoder on some input. A multimap is the list of its pairs in iteration order.
\<close>

datatype http_method = GET | POST | PUT | DEL | PATCH | HEAD | OPTIONS

record http_request =
  content_type :: string
  req_method :: http_method
  req_headers :: "(string \<times> string) list"
  req_body :: "string option"

record http_response =
  status_code :: int
  resp_body :: "byte list"

datatype http_error =
    H_TIMEOUT | H_CANCELLED | H_CONNECTION_FAILED | HEADER_PARSE_FAILED | INCOMPLETE
  | CONTENT_TYPE_MISMATCH | HEADERS_TOO_LARGE | BODY_TOO_LARGE | CHUNK_PARSE_FAILED

fun error_name :: "http_error \<Rightarrow> string" where
  "error_name H_TIMEOUT = ''TIMEOUT''"
| "error_name H_CANCELLED = ''CANCELLED''"
| "error_name H_CONNECTION_FAILED = ''CONNECTION_FAILED''"
| "error_name HEADER_PARSE_FAILED = ''HEADER_PARSE_FAILED''"
| "error_name INCOMPLETE = ''INCOMPLETE''"
| "error_name CONTENT_TYPE_MISMATCH = ''CONTENT_TYPE_MISMATCH''"
| "error_name HEADERS_TOO_LARGE = ''HEADERS_TOO_LARGE''"
| "error_name BODY_TOO_LARGE = ''BODY_TOO_LARGE''"
| "error_name CHUNK_PARSE_FAILED = ''CHUNK_PARSE_FAILED''"

section \<open>Building a request\<close>

abbreviation (input) CRLF :: string where "CRLF \<equiv> [CHR 0x0D, CHR 0x0A]"

definition is_host_key :: "string \<Rightarrow> bool" where
  "is_host_key key = iequals key ''Host''"

definition sanitize_crlf :: "string \<Rightarrow> string" where
  "sanitize_crlf s =
     (if \<not> contains s [CHR 0x0D] \<and> \<not> contains s [CHR 0x0A] then s
      else replace_all (replace_all s [CHR 0x0D] []) [CHR 0x0A] [])"

fun method_name :: "http_method \<Rightarrow> string" where
  "method_name GET = ''GET''"
| "method_name POST = ''POST''"
| "method_name PUT = ''PUT''"
| "method_name DEL = ''DELETE''"
| "method_name PATCH = ''PATCH''"
| "method_name HEAD = ''HEAD''"
| "method_name OPTIONS = ''OPTIONS''"

fun custom_headers :: "bool \<Rightarrow> (string \<times> string) list \<Rightarrow> string" where
  "custom_headers has_host [] = []"
| "custom_headers has_host ((k, v) # kvs) =
     (let safe_key = sanitize_crlf k in
      if \<not> has_host \<and> is_host_key safe_key then custom_headers has_host kvs
      else safe_key @ '': '' @ sanitize_crlf v @ CRLF @ custom_headers has_host kvs)"

definition has_body :: "http_request \<Rightarrow> bool" where
  "has_body req = (case req_body req of None \<Rightarrow> False | Some b \<Rightarrow> b \<noteq> [])"

definition header_block :: "http_request \<Rightarrow> string \<Rightarrow> string \<Rightarrow> string \<Rightarrow> string" where
  "header_block req path host_header user_agent =
     (let safe_path = sanitize_crlf path; safe_host = sanitize_crlf host_header;
          safe_ua = sanitize_crlf user_agent; safe_ct = sanitize_crlf (content_type req);
          has_host = list_ex (\<lambda>(k, _). is_host_key (sanitize_crlf k)) (req_headers req)
      in method_name (req_method req) @ '' '' @ safe_path @ '' HTTP/1.1'' @ CRLF @
         (if \<not> has_host then ''Host: '' @ safe_host @ CRLF else []) @
         ''User-Agent: '' @ safe_ua @ CRLF @
         (if has_body req \<and> safe_ct \<noteq> [] then ''Content-Type: '' @ safe_ct @ CRLF else []) @
         (if has_body req then ''Content-Length: '' @ dec_string (length (the (req_body req))) @ CRLF else []) @
         custom_headers has_host (req_headers req) @ CRLF)"

definition build_request :: "http_request \<Rightarrow> string \<Rightarrow> string \<Rightarrow> string \<Rightarrow> byte list" where
  "build_request req path host_header user_agent =
     map byte_of_char (header_block req path host_header user_agent) @
     (if has_body req then map byte_of_char (the (req_body req)) else [])"

section \<open>Parsing the header\<close>

datatype phr_result = PhrIncomplete | PhrFailed | PhrOk nat int "(string \<times> string) list"

record response_headers =
  h_status_code :: int
  h_content_length :: nat
  h_header_end :: nat
  h_has_content_length :: bool
  h_is_chunked :: bool

text \<open>The loop over the headers; the state is the length, whether one was seen, and the two flags.\<close>

fun scan_headers ::
  "string \<Rightarrow> (string \<times> string) list \<Rightarrow> nat \<times> bool \<times> bool \<times> bool \<Rightarrow> http_error + nat \<times> bool \<times> bool \<times> bool" where
  "scan_headers expected [] st = Inr st"
| "scan_headers expected ((hname, hvalue) # hs) (cl, has_cl, valid_ct, chunked) =
     (if iequals hname ''content-length'' \<and> \<not> has_cl then
        (case from_chars_nat (2 ^ 64) hvalue of
           None \<Rightarrow> Inl HEADER_PARSE_FAILED
         | Some (v, _) \<Rightarrow> scan_headers expected hs (v, True, valid_ct, chunked))
      else if iequals hname ''content-type'' then
        scan_headers expected hs (cl, has_cl, valid_ct \<or> icontains hvalue expected, chunked)
      else if iequals hname ''transfer-encoding'' then
        scan_headers expected hs (cl, has_cl, valid_ct, chunked \<or> icontains hvalue ''chunked'')
      else scan_headers expected hs (cl, has_cl, valid_ct, chunked))"

definition parse_http_response ::
  "(byte list \<Rightarrow> phr_result) \<Rightarrow> byte list \<Rightarrow> string \<Rightarrow> nat \<Rightarrow> http_error + response_headers" where
  "parse_http_response phr buf expected_content_type max_body_size =
     (case phr buf of
        PhrIncomplete \<Rightarrow> Inl INCOMPLETE
      | PhrFailed \<Rightarrow> Inl HEADER_PARSE_FAILED
      | PhrOk header_end status hs \<Rightarrow>
          bindE (scan_headers expected_content_type hs (0, False, False, False)) (\<lambda>(cl, has_cl, valid_ct, chunked).
            if \<not> valid_ct \<and> expected_content_type \<noteq> [] then Inl CONTENT_TYPE_MISMATCH
            else if has_cl \<and> cl > max_body_size then Inl BODY_TOO_LARGE
            else Inr \<lparr>h_status_code = status, h_content_length = cl, h_header_end = header_end,
                      h_has_content_length = has_cl, h_is_chunked = chunked\<rparr>))"

section \<open>Reading the body\<close>

fun map_io_error :: "io_error \<Rightarrow> http_error" where
  "map_io_error TIMEOUT = H_TIMEOUT"
| "map_io_error CANCELLED_IO = H_CANCELLED"
| "map_io_error CONNECTION_FAILED = H_CONNECTION_FAILED"

datatype chunk_ret = ChunkError | ChunkMore | ChunkDone

text \<open>The loop of chunked decoding. A decoder step consumes its input and gives the decoded bytes and
  the decoder's next state. A server that keeps sending chunks of nothing keeps the loop going, hence
  a partial function.\<close>

partial_function (option) chunk_loop ::
  "'s stream \<Rightarrow> ('d \<Rightarrow> byte list \<Rightarrow> chunk_ret \<times> byte list \<times> 'd) \<Rightarrow> nat \<Rightarrow> 'd \<Rightarrow> byte list \<Rightarrow> byte list \<Rightarrow> 's \<Rightarrow>
   ((http_error + byte list) \<times> 's) option" where
  "chunk_loop io dec max_body_size d raw body s =
     (case dec d raw of
        (ret, out, d') \<Rightarrow>
          if ret = ChunkError then Some (Inl CHUNK_PARSE_FAILED, s)
          else if out \<noteq> [] \<and> length body + length out > max_body_size then Some (Inl BODY_TOO_LARGE, s)
          else if ret = ChunkDone then Some (Inr (body @ out), s)
          else
            (case read_some io 4096 s of
               (Inl e, s') \<Rightarrow> Some (Inl (map_io_error e), s')
             | (Inr bs, s') \<Rightarrow>
                 if bs = [] then Some (Inl H_CONNECTION_FAILED, s')
                 else chunk_loop io dec max_body_size d' bs (body @ out) s'))"

definition read_body ::
  "'s stream \<Rightarrow> ('d \<Rightarrow> byte list \<Rightarrow> chunk_ret \<times> byte list \<times> 'd) \<Rightarrow> 'd \<Rightarrow> response_headers \<Rightarrow> byte list \<Rightarrow> nat \<Rightarrow> 's \<Rightarrow>
   ((http_error + byte list) \<times> 's) option" where
  "read_body io dec d0 headers header_buf max_body_size s =
     (let buffered = drop (h_header_end headers) header_buf in
      if h_has_content_length headers then
        (if length buffered < h_content_length headers then
           (case read_exact io (h_content_length headers - length buffered) s of
              (Inl e, s') \<Rightarrow> Some (Inl (map_io_error e), s')
            | (Inr rest, s') \<Rightarrow> Some (Inr (buffered @ rest), s'))
         else Some (Inr (take (h_content_length headers) buffered), s))
      else if \<not> h_is_chunked headers then Some (Inr [], s)
      else chunk_loop io dec max_body_size d0 buffered [] s)"

section \<open>The exchange\<close>

abbreviation (input) MAX_HEADER_SIZE :: nat where "MAX_HEADER_SIZE \<equiv> 8192"
abbreviation (input) MAX_BODY_SIZE :: nat where "MAX_BODY_SIZE \<equiv> 65536"

function read_response_loop ::
  "(byte list \<Rightarrow> phr_result) \<Rightarrow> ('d \<Rightarrow> byte list \<Rightarrow> chunk_ret \<times> byte list \<times> 'd) \<Rightarrow> 'd \<Rightarrow> 's stream \<Rightarrow> byte list \<Rightarrow> nat \<Rightarrow> 's \<Rightarrow>
   ((http_error + http_response) \<times> 's) option" where
  "read_response_loop phr dec d0 io buf buf_size s =
     (case parse_http_response phr buf [] MAX_BODY_SIZE of
        Inr headers \<Rightarrow>
          map_option (apfst (map_sum id (\<lambda>body. \<lparr>status_code = h_status_code headers, resp_body = body\<rparr>)))
            (read_body io dec d0 headers buf MAX_BODY_SIZE s)
      | Inl err \<Rightarrow>
          if err \<noteq> INCOMPLETE then Some (Inl err, s)
          else if length buf \<ge> MAX_HEADER_SIZE then Some (Inl HEADERS_TOO_LARGE, s)
          else
            let buf_size = (if length buf = buf_size then min (buf_size * 2) MAX_HEADER_SIZE else buf_size) in
            (case read_some io (buf_size - length buf) s of
               (Inl e, s') \<Rightarrow> Some (Inl (map_io_error e), s')
             | (Inr bs, s') \<Rightarrow>
                 if bs = [] then Some (Inl H_CONNECTION_FAILED, s')
                 else read_response_loop phr dec d0 io (buf @ bs) buf_size s'))"
  by pat_completeness auto
termination
  by (relation "measure (\<lambda>(_, _, _, _, buf, _, _). MAX_HEADER_SIZE - length buf)") (auto simp: neq_Nil_conv)

declare read_response_loop.simps [simp del]

definition read_response ::
  "(byte list \<Rightarrow> phr_result) \<Rightarrow> ('d \<Rightarrow> byte list \<Rightarrow> chunk_ret \<times> byte list \<times> 'd) \<Rightarrow> 'd \<Rightarrow> 's stream \<Rightarrow> 's \<Rightarrow>
   ((http_error + http_response) \<times> 's) option" where
  "read_response phr dec d0 io s = read_response_loop phr dec d0 io [] (min 4096 MAX_HEADER_SIZE) s"

definition exchange ::
  "(byte list \<Rightarrow> phr_result) \<Rightarrow> ('d \<Rightarrow> byte list \<Rightarrow> chunk_ret \<times> byte list \<times> 'd) \<Rightarrow> 'd \<Rightarrow> 's stream \<Rightarrow>
   string \<Rightarrow> http_request \<Rightarrow> string \<Rightarrow> string \<Rightarrow> 's \<Rightarrow> ((http_error + http_response) \<times> 's) option" where
  "exchange phr dec d0 io path req host_header user_agent s =
     (case send_all io (build_request req path host_header user_agent) s of
        (Inl e, s') \<Rightarrow> Some (Inl (map_io_error e), s')
      | (Inr _, s') \<Rightarrow> read_response phr dec d0 io s')"

section \<open>Requests cannot be split\<close>

lemma contains_single: "contains s [c] \<longleftrightarrow> c \<in> set s"
  by (simp add: contains_def find_sub_single find_elem_None_iff)

lemma remove_char: "subst_all [c] [] s = filter (\<lambda>x. x \<noteq> c) s"
proof (induction "[c]" "[] :: string" s rule: subst_all.induct)
  case (1 s)
  show ?case
  proof (cases "find_elem c s")
    case None
    then have "c \<notin> set s" by (simp add: find_elem_None_iff)
    then have "filter (\<lambda>x. x \<noteq> c) s = s" by (auto intro!: filter_True)
    with None show ?thesis by (subst subst_all.simps) (simp add: find_sub_single)
  next
    case (Some p)
    have eq: "s = take p s @ c # drop (p + 1) s"
      using find_elem_SomeD [OF Some] by (metis Suc_eq_plus1 id_take_nth_drop)
    have "subst_all [c] [] s = take p s @ filter (\<lambda>x. x \<noteq> c) (drop (p + 1) s)"
      using 1 Some by (subst subst_all.simps) (simp add: find_sub_single)
    moreover have "filter (\<lambda>x. x \<noteq> c) (take p s) = take p s"
      using find_elem_SomeD [OF Some] by (auto intro!: filter_True)
    ultimately show ?thesis by (subst (2) eq) simp
  qed
qed

lemma sanitize_crlf_filter: "sanitize_crlf s = filter (\<lambda>c. c \<noteq> CHR 0x0D \<and> c \<noteq> CHR 0x0A) s"
proof (cases "CHR 0x0D \<in> set s \<or> CHR 0x0A \<in> set s")
  case True
  then show ?thesis
    by (auto simp: sanitize_crlf_def contains_single replace_all_subst remove_char conj_commute)
next
  case False
  then have "filter (\<lambda>c. c \<noteq> CHR 0x0D \<and> c \<noteq> CHR 0x0A) s = s" by (auto intro!: filter_True)
  with False show ?thesis by (simp add: sanitize_crlf_def contains_single)
qed

definition plain :: "string \<Rightarrow> bool" where
  "plain l \<longleftrightarrow> CHR 0x0D \<notin> set l \<and> CHR 0x0A \<notin> set l"

lemma plain_sanitize [simp]: "plain (sanitize_crlf s)"
  by (simp add: plain_def sanitize_crlf_filter)

lemma plain_append [simp]: "plain (a @ b) \<longleftrightarrow> plain a \<and> plain b"
  by (auto simp: plain_def)

lemma plain_Cons [simp]: "plain (c # l) \<longleftrightarrow> c \<noteq> CHR 0x0D \<and> c \<noteq> CHR 0x0A \<and> plain l" "plain []"
  by (auto simp: plain_def)

lemma plain_dec_string [simp]: "plain (dec_string n)"
  by (auto simp: plain_def dest!: dec_string_digits simp: is_digit_def)

lemma plain_method [simp]: "plain (method_name m)"
  by (cases m) (simp_all add: plain_def)

text \<open>The lines of the header, as the sender means them.\<close>

definition header_lines :: "http_request \<Rightarrow> string \<Rightarrow> string \<Rightarrow> string \<Rightarrow> string list" where
  "header_lines req path host_header user_agent =
     (let has_host = list_ex (\<lambda>(k, _). is_host_key (sanitize_crlf k)) (req_headers req) in
      [method_name (req_method req) @ '' '' @ sanitize_crlf path @ '' HTTP/1.1''] @
      (if has_host then [] else [''Host: '' @ sanitize_crlf host_header]) @
      [''User-Agent: '' @ sanitize_crlf user_agent] @
      (if has_body req \<and> sanitize_crlf (content_type req) \<noteq> [] then [''Content-Type: '' @ sanitize_crlf (content_type req)] else []) @
      (if has_body req then [''Content-Length: '' @ dec_string (length (the (req_body req)))] else []) @
      map (\<lambda>(k, v). sanitize_crlf k @ '': '' @ sanitize_crlf v) (req_headers req))"

definition on_lines :: "string list \<Rightarrow> string" where
  "on_lines ls = concat (map (\<lambda>l. l @ CRLF) ls)"

lemma on_lines_simps [simp]: "on_lines [] = []" "on_lines (l # ls) = l @ CRLF @ on_lines ls"
  "on_lines (ks @ ls) = on_lines ks @ on_lines ls"
  by (simp_all add: on_lines_def)

lemma custom_headers_lines:
  assumes "has_host \<or> \<not> list_ex (\<lambda>(k, _). is_host_key (sanitize_crlf k)) kvs"
  shows "custom_headers has_host kvs = on_lines (map (\<lambda>(k, v). sanitize_crlf k @ '': '' @ sanitize_crlf v) kvs)"
  using assms by (induction has_host kvs rule: custom_headers.induct) (auto simp: Let_def)

lemma header_block_lines:
  "header_block req path host ua = on_lines (header_lines req path host ua) @ CRLF"
  by (simp add: header_block_def header_lines_def Let_def custom_headers_lines)

lemma header_lines_plain: "l \<in> set (header_lines req path host ua) \<Longrightarrow> plain l \<and> l \<noteq> []"
  by (auto simp: header_lines_def Let_def split: if_splits)

text \<open>What a reader of the wire sees: the lines up to the first empty one.\<close>

fun read_lines :: "string \<Rightarrow> string \<Rightarrow> string list \<times> string" where
  "read_lines acc (c # d # r) =
     (if c = CHR 0x0D \<and> d = CHR 0x0A then
        (if acc = [] then ([], r) else (let (ls, rest) = read_lines [] r in (acc # ls, rest)))
      else read_lines (acc @ [c]) (d # r))"
| "read_lines acc r = ([acc @ r], [])"

lemma read_lines_plain:
  "plain l \<Longrightarrow> acc @ l \<noteq> [] \<Longrightarrow>
   read_lines acc (l @ CRLF @ r) = (let (ls, rest) = read_lines [] r in ((acc @ l) # ls, rest))"
proof (induction l arbitrary: acc)
  case (Cons c l)
  have "read_lines acc ((c # l) @ CRLF @ r) = read_lines (acc @ [c]) (l @ CRLF @ r)"
    using Cons.prems by (cases l) auto
  with Cons show ?case by simp
qed simp

lemma read_lines_on_lines:
  "\<forall>l\<in>set ls. plain l \<and> l \<noteq> [] \<Longrightarrow> read_lines [] (on_lines ls @ CRLF @ body) = (ls, body)"
proof (induction ls)
  case (Cons l ls)
  have "read_lines [] (l @ CRLF @ (on_lines ls @ CRLF @ body)) = (l # ls, body)"
    using read_lines_plain [of l "[]" "on_lines ls @ CRLF @ body"] Cons by auto
  then show ?case by simp
qed simp

lemma chars_of_request:
  "map char_of_byte (build_request req path host ua) =
     header_block req path host ua @ (if has_body req then the (req_body req) else [])"
  by (simp add: build_request_def comp_def)

section \<open>Responses\<close>

lemma parse_http_response_limits:
  "parse_http_response phr buf ct mx = Inr h \<Longrightarrow>
   (\<exists>hs. phr buf = PhrOk (h_header_end h) (h_status_code h) hs) \<and> (h_has_content_length h \<longrightarrow> h_content_length h \<le> mx)"
  by (auto simp: parse_http_response_def split: phr_result.splits if_splits prod.splits)

context byte_stream
begin

lemma chunk_loop_bounded:
  assumes "length body \<le> mx"
  shows "\<exists>r s'. chunk_loop io dec mx d raw body s = Some (r, s') \<and> (\<forall>b. r = Inr b \<longrightarrow> length b \<le> mx)"
  using assms
proof (induction "length (arriving s)" arbitrary: d raw body s rule: less_induct)
  case less
  obtain ret out d' where d: "dec d raw = (ret, out, d')" by (metis prod_cases3)
  obtain q s1 where q: "read_some io 4096 s = (q, s1)" by force
  show ?case
  proof (cases "ret = ChunkError \<or> out \<noteq> [] \<and> length body + length out > mx \<or> ret = ChunkDone")
    case True
    with d less.prems show ?thesis by (subst chunk_loop.simps) (auto simp: not_less)
  next
    case go: False
    then have len: "length (body @ out) \<le> mx" using less.prems by (cases "out = []") auto
    show ?thesis
    proof (cases q)
      case (Inl e)
      with d go q show ?thesis by (subst chunk_loop.simps) auto
    next
      case (Inr bs)
      note q' = q [unfolded Inr]
      have "chunk_loop io dec mx d raw body s = chunk_loop io dec mx d' bs (body @ out) s1"
        using go d q' read_some_takes [OF q'] by (subst chunk_loop.simps) auto
      with less.hyps [OF read_some_shorter [OF q'] len] show ?thesis by simp
    qed
  qed
qed

text \<open>The body by the framing the header announces, cut out of all bytes that arrive.\<close>

lemma read_body_framed:
  assumes "h_has_content_length h \<longrightarrow> h_content_length h \<le> mx" "h_header_end h \<le> length buf"
  shows "\<exists>r s'. read_body io dec d0 h buf mx s = Some (r, s') \<and>
    (\<forall>b. r = Inr b \<longrightarrow> length b \<le> mx \<and>
      (h_has_content_length h \<longrightarrow> length b = h_content_length h \<and>
         b = take (h_content_length h) (drop (h_header_end h) (buf @ arriving s))))"
proof -
  consider "h_has_content_length h" "length (drop (h_header_end h) buf) < h_content_length h"
    | "h_has_content_length h" "\<not> length (drop (h_header_end h) buf) < h_content_length h"
    | "\<not> h_has_content_length h" "\<not> h_is_chunked h" | "\<not> h_has_content_length h" "h_is_chunked h" by blast
  then show ?thesis
  proof cases
    case 1
    obtain q s1 where q: "read_exact io (h_content_length h - length (drop (h_header_end h) buf)) s = (q, s1)" by force
    show ?thesis
    proof (cases q)
      case (Inl e)
      with 1 q show ?thesis by (auto simp: read_body_def Let_def)
    next
      case (Inr rest)
      from read_exact_prefix [OF q [unfolded Inr]] read_exact_takes [OF q [unfolded Inr]] 1 assms q Inr
      show ?thesis by (auto simp: read_body_def Let_def)
    qed
  next
    case 2
    with assms show ?thesis by (auto simp: read_body_def Let_def)
  next
    case 3
    then show ?thesis by (auto simp: read_body_def Let_def)
  next
    case 4
    with chunk_loop_bounded [of "[]" mx dec d0 "drop (h_header_end h) buf" s] show ?thesis
      by (auto simp: read_body_def Let_def)
  qed
qed

lemma read_response_loop_framed:
  assumes "\<And>b e st hs. phr b = PhrOk e st hs \<Longrightarrow> e \<le> length b"
    and "length buf \<le> buf_size" "0 < buf_size" "buf_size \<le> MAX_HEADER_SIZE"
  shows "\<exists>r s'. read_response_loop phr dec d0 io buf buf_size s = Some (r, s') \<and>
    (\<forall>resp. r = Inr resp \<longrightarrow> length (resp_body resp) \<le> MAX_BODY_SIZE \<and>
      (\<exists>n h. n \<le> MAX_HEADER_SIZE \<and> parse_http_response phr (take n (buf @ arriving s)) [] MAX_BODY_SIZE = Inr h \<and>
         status_code resp = h_status_code h \<and>
         (h_has_content_length h \<longrightarrow>
            resp_body resp = take (h_content_length h) (drop (h_header_end h) (buf @ arriving s)) \<and>
            length (resp_body resp) = h_content_length h)))"
  using assms(2-4)
proof (induction "MAX_HEADER_SIZE - length buf" arbitrary: buf buf_size s rule: less_induct)
  case less
  show ?case
  proof (cases "parse_http_response phr buf [] MAX_BODY_SIZE")
    case (Inr h)
    note lim = parse_http_response_limits [OF Inr]
    then have "h_header_end h \<le> length buf" using assms(1) by blast
    with lim read_body_framed [of h MAX_BODY_SIZE buf dec d0 s] obtain r s' where
      r: "read_body io dec d0 h buf MAX_BODY_SIZE s = Some (r, s')"
      "\<forall>b. r = Inr b \<longrightarrow> length b \<le> MAX_BODY_SIZE \<and> (h_has_content_length h \<longrightarrow> length b = h_content_length h \<and>
         b = take (h_content_length h) (drop (h_header_end h) (buf @ arriving s)))" by blast
    have "take (length buf) (buf @ arriving s) = buf" "length buf \<le> MAX_HEADER_SIZE" using less.prems by simp_all
    with Inr r show ?thesis
      by (subst read_response_loop.simps) (auto simp: map_sum_def split: sum.splits intro!: exI [of _ "length buf"])
  next
    case (Inl err)
    show ?thesis
    proof (cases "err \<noteq> INCOMPLETE \<or> MAX_HEADER_SIZE \<le> length buf")
      case True
      with Inl show ?thesis by (subst read_response_loop.simps) auto
    next
      case go: False
      let ?sz = "if length buf = buf_size then min (buf_size * 2) MAX_HEADER_SIZE else buf_size"
      have sz: "length buf < ?sz" "?sz \<le> MAX_HEADER_SIZE" "0 < ?sz" using less.prems go by auto
      obtain q s1 where q: "read_some io (?sz - length buf) s = (q, s1)" by force
      show ?thesis
      proof (cases q)
        case (Inl e)
        with \<open>parse_http_response phr buf [] MAX_BODY_SIZE = Inl err\<close> go q show ?thesis
          by (subst read_response_loop.simps) (simp add: Let_def)
      next
        case (Inr bs)
        note t = read_some_takes [OF q [unfolded Inr]]
        have step: "read_response_loop phr dec d0 io buf buf_size s =
            read_response_loop phr dec d0 io (buf @ bs) ?sz s1"
          using \<open>parse_http_response phr buf [] MAX_BODY_SIZE = Inl err\<close> go q Inr t
          by (subst read_response_loop.simps) (simp add: Let_def)
        have "MAX_HEADER_SIZE - length (buf @ bs) < MAX_HEADER_SIZE - length buf" using t go by (cases bs) auto
        moreover have "length (buf @ bs) \<le> ?sz" unfolding length_append using t sz(1) by linarith
        moreover have "(buf @ bs) @ arriving s1 = buf @ arriving s" using t by simp
        ultimately show ?thesis using less.hyps [of "buf @ bs" ?sz s1] sz step by metis
      qed
    qed
  qed
qed

end

section \<open>Properties\<close>

text \<open>C32. No value can add a line to a request: whatever path, host, user agent, content type and header
  names and values are given, a reader that takes the lines up to the first empty one gets exactly the
  request line, the Host line unless the caller supplies one, the User-Agent line, the two content lines
  when there is a body, and one line per custom header, followed by the body byte for byte.\<close>

theorem build_request_lines_round_trip:
  "read_lines [] (map char_of_byte (build_request req path host_header user_agent)) =
     (header_lines req path host_header user_agent, if has_body req then the (req_body req) else [])"
  unfolding chars_of_request header_block_lines append_assoc
  by (rule read_lines_on_lines) (use header_lines_plain in blast)

text \<open>C31. Reading a response over TLS ends within the limits and follows the framing of the header,
  however the bytes are cut into records: it always returns, looks at no more than 8192 bytes for the
  header, returns a body of at most 65536 bytes, and with a Content-Length returns exactly that many
  bytes, the ones that follow the header. The header parser is assumed to stay inside its buffer.\<close>

theorem http_response_framed:
  assumes "\<And>b e st hs. phr b = PhrOk e st hs \<Longrightarrow> e \<le> length b"
  shows "\<exists>r c'. read_response phr dec d0 (tls_stream cancel) c = Some (r, c') \<and>
    (\<forall>resp. r = Inr resp \<longrightarrow> length (resp_body resp) \<le> 65536 \<and>
      (\<exists>n h. n \<le> 8192 \<and> parse_http_response phr (take n (arriving c)) [] 65536 = Inr h \<and>
         status_code resp = h_status_code h \<and>
         (h_has_content_length h \<longrightarrow>
            resp_body resp = take (h_content_length h) (drop (h_header_end h) (arriving c)) \<and>
            length (resp_body resp) = h_content_length h)))"
  using tls.read_response_loop_framed [of phr "[]" 4096 dec d0 cancel c] assms by (simp add: read_response_def)

text \<open>A server that answers in three TLS records, and a header parser for it.\<close>

definition sample_poll :: poll_env where
  "sample_poll = \<lparr>pe_fd = 5, pe_should_read = False, pe_should_write = False, pe_poll = [Inr (PollReady {POLLIN, POLLOUT} {})]\<rparr>"

definition sample_conn :: "byte list list \<Rightarrow> tls_conn" where
  "sample_conn segs = \<lparr>c_connected = True, c_pending = [],
     c_reads = map (\<lambda>b. \<lparr>r_poll = sample_poll, r_bio = BioDone b\<rparr>) segs,
     c_writes = replicate 9 \<lparr>r_poll = sample_poll, r_bio = BioDone 7\<rparr>, c_sent = []\<rparr>"

definition sample_phr :: "byte list \<Rightarrow> phr_result" where
  "sample_phr b = (if length b < 4 then PhrIncomplete else PhrOk 4 200 [(''Content-Length'', ''3'')])"

definition no_chunks :: "unit \<Rightarrow> byte list \<Rightarrow> chunk_ret \<times> byte list \<times> unit" where
  "no_chunks d b = (ChunkError, [], ())"

theorem http_response_framed_witness:
  "\<exists>r c'. read_response sample_phr no_chunks () (tls_stream False) (sample_conn [[1, 2], [3, 4, 5], [6, 7, 8]]) =
     Some (r, c') \<and> (\<forall>resp. r = Inr resp \<longrightarrow> resp_body resp = [5, 6, 7])"
proof -
  let ?c = "sample_conn [[1, 2], [3, 4, 5], [6, 7, 8]]"
  have "\<exists>r c'. read_response sample_phr no_chunks () (tls_stream False) ?c = Some (r, c') \<and>
    (\<forall>resp. r = Inr resp \<longrightarrow> length (resp_body resp) \<le> 65536 \<and>
      (\<exists>n h. n \<le> 8192 \<and> parse_http_response sample_phr (take n (arriving ?c)) [] 65536 = Inr h \<and>
         status_code resp = h_status_code h \<and>
         (h_has_content_length h \<longrightarrow>
            resp_body resp = take (h_content_length h) (drop (h_header_end h) (arriving ?c)) \<and>
            length (resp_body resp) = h_content_length h)))"
    by (rule http_response_framed) (simp add: sample_phr_def split: if_splits)
  then
  obtain r c' where r: "read_response sample_phr no_chunks () (tls_stream False) ?c = Some (r, c')" and
    framed: "\<forall>resp. r = Inr resp \<longrightarrow> length (resp_body resp) \<le> 65536 \<and>
      (\<exists>n h. n \<le> 8192 \<and> parse_http_response sample_phr (take n (arriving ?c)) [] 65536 = Inr h \<and>
         status_code resp = h_status_code h \<and>
         (h_has_content_length h \<longrightarrow>
            resp_body resp = take (h_content_length h) (drop (h_header_end h) (arriving ?c)) \<and>
            length (resp_body resp) = h_content_length h))"
    by blast
  have hd: "parse_http_response sample_phr b [] 65536 = Inr h \<Longrightarrow>
      h_has_content_length h \<and> h_content_length h = 3 \<and> h_header_end h = 4" for b h
  proof -
    have "dec_string 3 = ''3''" by code_simp
    then have "from_chars_nat (2 ^ 64) ''3'' = Some (3, [])"
      using from_chars_dec_string [of 3 "2 ^ 64" "[]"] by simp
    moreover have "iequals ''Content-Length'' ''content-length''" by code_simp
    ultimately have "scan_headers [] [(''Content-Length'', ''3'')] (0, False, False, False) = Inr (3, True, False, False)"
      by simp
    then show "parse_http_response sample_phr b [] 65536 = Inr h \<Longrightarrow> ?thesis"
      by (auto simp: parse_http_response_def sample_phr_def split: if_splits)
  qed
  have "arriving ?c = [1, 2, 3, 4, 5, 6, 7, 8]" by (simp add: arriving_def sample_conn_def)
  with framed hd have "\<forall>resp. r = Inr resp \<longrightarrow> resp_body resp = [5, 6, 7]" by fastforce
  with r show ?thesis by blast
qed

end
