(* ===== verification/Doh_Resolver.thy ===== *)
theory Doh_Resolver
  imports Persistent_Conn Http_Model
begin

text \<open>
  The DNS-over-HTTPS resolver (\<^verbatim>\<open>src/dns/resolver/doh.cpp\<close>) over the persistent connection and the HTTP
  exchange. The header parser and the chunk decoder are the library arguments of the exchange; the
  version string is an argument.
\<close>

fun to_dns_error :: "http_error \<Rightarrow> dns_error" where
  "to_dns_error H_CANCELLED = CANCELLED"
| "to_dns_error H_TIMEOUT = CONNECTION"
| "to_dns_error H_CONNECTION_FAILED = CONNECTION"
| "to_dns_error _ = PARSE"

definition build_host_header :: "string \<Rightarrow> u16 \<Rightarrow> string" where
  "build_host_header host port =
     (let is_ipv6 = CHR '':'' \<in> set host; p = dec_string (unat port) in
      if port = 443 then (if is_ipv6 then ''['' @ host @ '']'' else host)
      else if is_ipv6 then ''['' @ host @ '']:'' @ p else host @ '':'' @ p)"

record doh_config =
  doh_server :: string
  doh_port :: u16
  doh_path :: string
  doh_version :: string

definition doh_request :: "byte list \<Rightarrow> http_request" where
  "doh_request query_bytes =
     \<lparr>content_type = ''application/dns-message'', req_method = POST,
      req_headers = [(''Accept'', ''application/dns-message''), (''Connection'', ''keep-alive'')],
      req_body = Some (map char_of_byte query_bytes)\<rparr>"

text \<open>One attempt: a failure the loop may retry, or the value of the \<^verbatim>\<open>return\<close>. The failures of
  \<^verbatim>\<open>ensure_connection\<close> are retried whatever they are, those of the exchange unless it was cancelled.\<close>

definition doh_attempt ::
  "(byte list \<Rightarrow> phr_result) \<Rightarrow> ('d \<Rightarrow> byte list \<Rightarrow> chunk_ret \<times> byte list \<times> 'd) \<Rightarrow> 'd \<Rightarrow> doh_config \<Rightarrow>
   visit \<Rightarrow> nat \<Rightarrow> bool \<Rightarrow> byte list \<Rightarrow> persistent \<Rightarrow>
   ((dns_error + (dns_error + byte list) result) \<times> persistent) option" where
  "doh_attempt phr dec d0 cfg v attempt cancel query_bytes st0 =
     (let st = v_others v st0;
          st = (if attempt = 1 then close_conn st else st)
      in case doh_ensure_connection v st of
           (Inl e, st) \<Rightarrow> Some (Inl e, st)
         | (Inr _, st) \<Rightarrow>
             (case exchange phr dec d0 (tls_stream cancel) (doh_path cfg) (doh_request query_bytes)
                     (build_host_header (doh_server cfg) (doh_port cfg)) (doh_version cfg) (conn_of st) of
                None \<Rightarrow> None
              | Some (Inl e, c) \<Rightarrow>
                  let st = close_conn (st\<lparr>p_conn := Some c\<rparr>) in
                  Some (if e = H_CANCELLED then Inr (Inr (Inl (to_dns_error e))) else Inl (to_dns_error e), st)
              | Some (Inr response, c) \<Rightarrow>
                  let st = st\<lparr>p_conn := Some c\<rparr> in
                  if status_code response \<noteq> 200 then
                    Some (Inr (Inr (Inl (if status_code response \<ge> 500 then RETRY else SERVER_REFUSED))), close_conn st)
                  else
                    (case validate_response query_bytes (resp_body response) of
                       Inl x \<Rightarrow> Some (Inr (Inl x), st)
                     | Inr (Inl e) \<Rightarrow> Some (Inr (Inr (Inl e)), st)
                     | Inr (Inr _) \<Rightarrow> Some (Inr (Inr (Inr (resp_body response))), st\<lparr>p_last_use := v_done v\<rparr>))))"

function doh_attempts ::
  "(byte list \<Rightarrow> phr_result) \<Rightarrow> ('d \<Rightarrow> byte list \<Rightarrow> chunk_ret \<times> byte list \<times> 'd) \<Rightarrow> 'd \<Rightarrow> doh_config \<Rightarrow>
   (nat \<Rightarrow> visit) \<Rightarrow> bool \<Rightarrow> byte list \<Rightarrow> nat \<Rightarrow> persistent \<Rightarrow> ((dns_error + byte list) result \<times> persistent) option" where
  "doh_attempts phr dec d0 cfg vs cancel query_bytes attempt st =
     (if attempt < 2 then
        case doh_attempt phr dec d0 cfg (vs attempt) attempt cancel query_bytes st of
          None \<Rightarrow> None
        | Some (Inl e, st) \<Rightarrow>
            if attempt < 2 - 1 then doh_attempts phr dec d0 cfg vs cancel query_bytes (Suc attempt) st
            else Some (Inr (Inl e), st)
        | Some (Inr r, st) \<Rightarrow> Some (r, st)
      else Some (Inl OutOfBounds, st))"
  by pat_completeness auto
termination by (relation "measure (\<lambda>(_, _, _, _, _, _, _, attempt, _). 2 - attempt)") auto

declare doh_attempts.simps [simp del]

text \<open>The handlers of \<^verbatim>\<open>query\<close>: a packet that cannot be built is a \<^verbatim>\<open>std::exception\<close> here.\<close>

definition catch_doh :: "(dns_error + 'a) result \<Rightarrow> (dns_error + 'a) result" where
  "catch_doh r =
     (case r of
        Inl OutOfBounds \<Rightarrow> Inl OutOfBounds
      | Inl (DnsLookupException e) \<Rightarrow> Inr (Inl e)
      | Inl _ \<Rightarrow> Inr (Inl UNKNOWN)
      | Inr x \<Rightarrow> Inr x)"

definition doh_query ::
  "(byte list \<Rightarrow> phr_result) \<Rightarrow> ('d \<Rightarrow> byte list \<Rightarrow> chunk_ret \<times> byte list \<times> 'd) \<Rightarrow> 'd \<Rightarrow> doh_config \<Rightarrow>
   u32 \<Rightarrow> (nat \<Rightarrow> visit) \<Rightarrow> bool \<Rightarrow> string \<Rightarrow> record_kind \<Rightarrow> persistent \<Rightarrow>
   ((dns_error + byte list) result \<times> persistent) option" where
  "doh_query phr dec d0 cfg eng vs cancel host type st =
     (case build_query eng host (type_to_record_type type) of
        Inl x \<Rightarrow> Some (catch_doh (Inl x), st)
      | Inr query_bytes \<Rightarrow> map_option (apfst catch_doh) (doh_attempts phr dec d0 cfg vs cancel query_bytes 0 st))"

section \<open>Lemmas\<close>

text \<open>What the code relies on of \<^verbatim>\<open>phr_parse_response\<close>: the header it reports ends inside the buffer.\<close>

definition phr_in_bounds :: "(byte list \<Rightarrow> phr_result) \<Rightarrow> bool" where
  "phr_in_bounds phr \<longleftrightarrow> (\<forall>b e st hs. phr b = PhrOk e st hs \<longrightarrow> e \<le> length b)"

lemma exchange_returns:
  assumes "phr_in_bounds phr"
  shows "\<exists>r c'. exchange phr dec d0 (tls_stream cancel) path req host ua c = Some (r, c') \<and>
    (\<forall>resp. r = Inr resp \<longrightarrow> length (resp_body resp) \<le> 65536)"
proof (cases "send_all (tls_stream cancel) (build_request req path host ua) c")
  case (Pair r c1)
  obtain r' c' where "read_response phr dec d0 (tls_stream cancel) c1 = Some (r', c') \<and>
      (\<forall>resp. r' = Inr resp \<longrightarrow> length (resp_body resp) \<le> 65536)"
    using tls.read_response_loop_framed [of phr "[]" 4096 dec d0 cancel c1] assms by (auto simp: read_response_def phr_in_bounds_def)
  with Pair show ?thesis by (cases r) (auto simp: exchange_def)
qed

lemma doh_attempt_sound:
  assumes "phr_in_bounds phr" "12 \<le> length q"
  shows "\<exists>a st'. doh_attempt phr dec d0 cfg v attempt cancel q st = Some (a, st') \<and>
    (\<forall>e. a = Inl e \<longrightarrow> \<not> c_connected (conn_of st')) \<and>
    (\<forall>r. a = Inr r \<longrightarrow> (\<exists>e. r = Inr (Inl e)) \<or>
      (\<exists>d. r = Inr (Inr d) \<and> validate_response q d = Inr (Inr ()) \<and> length d \<le> 65536))"
proof -
  let ?st = "if attempt = 1 then close_conn (v_others v st) else v_others v st"
  obtain r st1 where en: "doh_ensure_connection v ?st = (r, st1)" by fastforce
  show ?thesis
  proof (cases r)
    case (Inl e)
    with en doh_ensure_connection_cases [OF en] show ?thesis by (auto simp: doh_attempt_def Let_def)
  next
    case (Inr u)
    obtain x c' where x: "exchange phr dec d0 (tls_stream cancel) (doh_path cfg) (doh_request q)
        (build_host_header (doh_server cfg) (doh_port cfg)) (doh_version cfg) (conn_of st1) = Some (x, c')"
      "\<forall>resp. x = Inr resp \<longrightarrow> length (resp_body resp) \<le> 65536"
      using exchange_returns [OF assms(1), of dec d0 cancel "doh_path cfg" "doh_request q"
          "build_host_header (doh_server cfg) (doh_port cfg)" "doh_version cfg" "conn_of st1"]
      by (elim exE conjE) (rule that)
    show ?thesis
    proof (cases x)
      case (Inl e)
      with en x \<open>r = Inr u\<close> show ?thesis by (simp add: doh_attempt_def Let_def)
    next
      case (Inr resp)
      obtain w where "validate_response q (resp_body resp) = Inr w" using validate_response_total [OF assms(2)] by blast
      with en x \<open>r = Inr u\<close> Inr show ?thesis by (cases w) (auto simp: doh_attempt_def Let_def)
    qed
  qed
qed

lemma doh_attempts_sound:
  assumes "phr_in_bounds phr" "12 \<le> length q" "attempt < 2"
  shows "\<exists>r st'. doh_attempts phr dec d0 cfg vs cancel q attempt st = Some (r, st') \<and>
    ((\<exists>e. r = Inr (Inl e)) \<or> (\<exists>d. r = Inr (Inr d) \<and> validate_response q d = Inr (Inr ()) \<and> length d \<le> 65536))"
  using assms
proof (induction phr dec d0 cfg vs cancel q attempt st rule: doh_attempts.induct)
  case (1 phr dec d0 cfg vs cancel q attempt st)
  obtain a st1 where a: "doh_attempt phr dec d0 cfg (vs attempt) attempt cancel q st = Some (a, st1)"
    "\<forall>r. a = Inr r \<longrightarrow> (\<exists>e. r = Inr (Inl e)) \<or>
      (\<exists>d. r = Inr (Inr d) \<and> validate_response q d = Inr (Inr ()) \<and> length d \<le> 65536)"
    using doh_attempt_sound [OF "1.prems"(1,2), of dec d0 cfg "vs attempt" attempt cancel st] by (elim exE conjE) (rule that)
  show ?case
  proof (cases a)
    case (Inl e)
    with 1 a show ?thesis by (subst doh_attempts.simps) simp
  next
    case (Inr r)
    with "1.prems"(3) a show ?thesis by (subst doh_attempts.simps) simp
  qed
qed

text \<open>The DoH resolver does not reuse a connection on which an exchange failed: when a query ends with
  an error of the exchange, of the connection or of the HTTP status, the connection it leaves is closed.
  The only error that keeps it open is a complete response with status 200 that the validator rejects.\<close>

lemma doh_failed_exchange_closes:
  assumes "doh_attempt phr dec d0 cfg v attempt cancel q st = Some (a, st')"
    and "c_connected (conn_of st')"
  shows "\<exists>st1 response c. doh_ensure_connection v (if attempt = 1 then close_conn (v_others v st) else v_others v st) = (Inr (), st1) \<and>
    exchange phr dec d0 (tls_stream cancel) (doh_path cfg) (doh_request q)
      (build_host_header (doh_server cfg) (doh_port cfg)) (doh_version cfg) (conn_of st1) = Some (Inr response, c) \<and>
    status_code response = 200 \<and> conn_of st' = c"
proof -
  let ?st = "if attempt = 1 then close_conn (v_others v st) else v_others v st"
  obtain r st1 where en: "doh_ensure_connection v ?st = (r, st1)" by fastforce
  have r: "r = Inr ()"
    using assms en doh_ensure_connection_cases [OF en] by (cases r) (auto simp: doh_attempt_def Let_def)
  with assms en show ?thesis
    by (auto simp: doh_attempt_def Let_def split: option.splits sum.splits if_splits)
qed

section \<open>Properties\<close>


definition sample_visit :: visit where
  "sample_visit = \<lparr>v_others = id, v_now = 0, v_fd = 5, v_peek = None, v_ready = True, v_handshake = [],
     v_fresh = new_conn, v_alpn = ''http/1.1'', v_done = 0\<rparr>"


end
