(* ===== verification/Ttl_Cache.thy ===== *)
theory Ttl_Cache
  imports Yad_Errors
begin

text \<open>
  The cache with a time to live (\<^verbatim>\<open>src/util/cache.hpp\<close>). The operations under the mutex are functions of
  the clock and the map; \<^verbatim>\<open>get_or_compute\<close> releases the mutex while the factory runs, so it is a step
  relation over the positions of any number of threads. A promise is a number; what it holds is \<open>None\<close>
  until it is set, then the value or the exception of the factory.
\<close>

section \<open>Operations under the mutex\<close>

record 'v entry =
  e_timestamp :: int
  e_value :: 'v

type_synonym ('k, 'v) store = "'k \<Rightarrow> 'v entry option"

definition expired :: "int \<Rightarrow> int \<Rightarrow> 'v entry \<Rightarrow> bool" where
  "expired ttl now e = (now - e_timestamp e \<ge> ttl)"

definition do_get :: "int \<Rightarrow> int \<Rightarrow> 'k \<Rightarrow> ('k, 'v) store \<Rightarrow> 'v option \<times> ('k, 'v) store" where
  "do_get ttl now key m =
     (case m key of
        None \<Rightarrow> (None, m)
      | Some e \<Rightarrow> if expired ttl now e then (None, m(key := None)) else (Some (e_value e), m))"

definition cache_set :: "int \<Rightarrow> 'k \<Rightarrow> 'v \<Rightarrow> ('k, 'v) store \<Rightarrow> ('k, 'v) store" where
  "cache_set now key v m = m(key := Some \<lparr>e_timestamp = now, e_value = v\<rparr>)"

definition cache_contains :: "int \<Rightarrow> int \<Rightarrow> 'k \<Rightarrow> ('k, 'v) store \<Rightarrow> bool \<times> ('k, 'v) store" where
  "cache_contains ttl now key m = (let (r, m') = do_get ttl now key m in (r \<noteq> None, m'))"

definition cache_remove :: "'k \<Rightarrow> ('k, 'v) store \<Rightarrow> ('k, 'v) store" where
  "cache_remove key m = m(key := None)"

definition cache_clear :: "('k, 'v) store \<Rightarrow> ('k, 'v) store" where
  "cache_clear m = (\<lambda>_. None)"

definition invalidate_if :: "('k \<Rightarrow> 'v \<Rightarrow> bool) \<Rightarrow> ('k, 'v) store \<Rightarrow> ('k, 'v) store" where
  "invalidate_if pred m = (\<lambda>k. case m k of None \<Rightarrow> None | Some e \<Rightarrow> if pred k (e_value e) then None else Some e)"

section \<open>Threads in \<open>get_or_compute\<close>\<close>

text \<open>Where a thread is: computing for the promise it created, with the promise set but the cache not yet
  updated, waiting for the promise of another thread, or returned.\<close>

datatype ('k, 'v) position =
    Computing 'k nat
  | Settling 'k nat "exn + 'v"
  | Waiting 'k nat
  | Returned 'k "exn + 'v"

record ('k, 'v) cache =
  cache_map :: "('k, 'v) store"
  cache_pending :: "'k \<Rightarrow> nat option"
  promises :: "(exn + 'v) option list"
  threads :: "('k, 'v) position list"

text \<open>The first critical section. The new thread is appended to the list.\<close>

definition enter :: "int \<Rightarrow> int \<Rightarrow> 'k \<Rightarrow> ('k, 'v) cache \<Rightarrow> ('k, 'v) cache" where
  "enter ttl now key c =
     (let (cached, m) = do_get ttl now key (cache_map c); c = c\<lparr>cache_map := m\<rparr> in
      case cached of
        Some v \<Rightarrow> c\<lparr>threads := threads c @ [Returned key (Inr v)]\<rparr>
      | None \<Rightarrow>
          (case cache_pending c key of
             Some p \<Rightarrow> c\<lparr>threads := threads c @ [Waiting key p]\<rparr>
           | None \<Rightarrow>
               let p = length (promises c)
               in c\<lparr>promises := promises c @ [None], cache_pending := (cache_pending c)(key := Some p),
                    threads := threads c @ [Computing key p]\<rparr>))"

text \<open>The factory returns or throws, and the promise is set.\<close>

definition finish :: "nat \<Rightarrow> 'k \<Rightarrow> nat \<Rightarrow> exn + 'v \<Rightarrow> ('k, 'v) cache \<Rightarrow> ('k, 'v) cache" where
  "finish t key p r c = c\<lparr>promises := (promises c)[p := Some r], threads := (threads c)[t := Settling key p r]\<rparr>"

text \<open>The second critical section.\<close>

definition settle :: "int \<Rightarrow> nat \<Rightarrow> 'k \<Rightarrow> exn + 'v \<Rightarrow> ('k, 'v) cache \<Rightarrow> ('k, 'v) cache" where
  "settle now t key r c =
     c\<lparr>cache_pending := (cache_pending c)(key := None),
       cache_map := (case r of Inl _ \<Rightarrow> cache_map c | Inr v \<Rightarrow> cache_set now key v (cache_map c)),
       threads := (threads c)[t := Returned key r]\<rparr>"

inductive cache_step :: "int \<Rightarrow> ('k, 'v) cache \<Rightarrow> ('k, 'v) cache \<Rightarrow> bool" for ttl where
  enter: "cache_step ttl c (enter ttl now key c)"
| finish: "t < length (threads c) \<Longrightarrow> threads c ! t = Computing key p \<Longrightarrow> cache_step ttl c (finish t key p r c)"
| settle: "t < length (threads c) \<Longrightarrow> threads c ! t = Settling key p r \<Longrightarrow> cache_step ttl c (settle now t key r c)"
| wake: "t < length (threads c) \<Longrightarrow> threads c ! t = Waiting key p \<Longrightarrow> promises c ! p = Some r \<Longrightarrow>
    cache_step ttl c (c\<lparr>threads := (threads c)[t := Returned key r]\<rparr>)"
| set: "cache_step ttl c (c\<lparr>cache_map := cache_set now key v (cache_map c)\<rparr>)"
| get: "cache_step ttl c (c\<lparr>cache_map := snd (do_get ttl now key (cache_map c))\<rparr>)"
| remove: "cache_step ttl c (c\<lparr>cache_map := cache_remove key (cache_map c)\<rparr>)"
| clear: "cache_step ttl c (c\<lparr>cache_map := cache_clear (cache_map c)\<rparr>)"
| invalidate: "cache_step ttl c (c\<lparr>cache_map := invalidate_if pred (cache_map c)\<rparr>)"

definition empty_cache :: "('k, 'v) cache" where
  "empty_cache = \<lparr>cache_map = (\<lambda>_. None), cache_pending = (\<lambda>_. None), promises = [], threads = []\<rparr>"

inductive reachable_cache :: "int \<Rightarrow> ('k, 'v) cache \<Rightarrow> bool" for ttl where
  start: "reachable_cache ttl empty_cache"
| step: "reachable_cache ttl c \<Longrightarrow> cache_step ttl c c' \<Longrightarrow> reachable_cache ttl c'"

section \<open>The invariant\<close>

text \<open>The promise a thread owns: the one it created and has not yet removed from \<open>cache_pending\<close>.\<close>

fun owns :: "('k, 'v) position \<Rightarrow> ('k \<times> nat) option" where
  "owns (Computing k p) = Some (k, p)"
| "owns (Settling k p r) = Some (k, p)"
| "owns _ = None"

definition position_ok :: "('k, 'v) cache \<Rightarrow> ('k, 'v) position \<Rightarrow> bool" where
  "position_ok c x =
     (case x of
        Computing k p \<Rightarrow> p < length (promises c) \<and> promises c ! p = None \<and> cache_pending c k = Some p
      | Settling k p r \<Rightarrow> p < length (promises c) \<and> promises c ! p = Some r \<and> cache_pending c k = Some p
      | Waiting k p \<Rightarrow> p < length (promises c) \<and>
          (promises c ! p = None \<longrightarrow> (\<exists>t < length (threads c). threads c ! t = Computing k p))
      | Returned k r \<Rightarrow> True)"

definition cache_inv :: "('k, 'v) cache \<Rightarrow> bool" where
  "cache_inv c \<longleftrightarrow>
     (\<forall>t < length (threads c). position_ok c (threads c ! t)) \<and>
     (\<forall>k p. cache_pending c k = Some p \<longrightarrow> (\<exists>t < length (threads c). owns (threads c ! t) = Some (k, p))) \<and>
     (\<forall>t t' k p k'. t < length (threads c) \<and> t' < length (threads c) \<and> owns (threads c ! t) = Some (k, p) \<and>
        owns (threads c ! t') = Some (k', p) \<longrightarrow> t = t')"

lemma position_ok_map [simp]: "position_ok (c\<lparr>cache_map := m\<rparr>) x = position_ok c x"
  by (cases x) (simp_all add: position_ok_def)

lemma cache_inv_map [simp]: "cache_inv (c\<lparr>cache_map := m\<rparr>) = cache_inv c"
  by (simp add: cache_inv_def)

lemma cache_invD:
  assumes "cache_inv c" "t < length (threads c)"
  shows "threads c ! t = Computing k p \<Longrightarrow> p < length (promises c) \<and> promises c ! p = None \<and> cache_pending c k = Some p"
    and "threads c ! t = Settling k p r \<Longrightarrow> p < length (promises c) \<and> promises c ! p = Some r \<and> cache_pending c k = Some p"
    and "threads c ! t = Waiting k p \<Longrightarrow> p < length (promises c) \<and>
      (promises c ! p = None \<longrightarrow> (\<exists>t < length (threads c). threads c ! t = Computing k p))"
    and "owns (threads c ! t) = Some (k, p) \<Longrightarrow> p < length (promises c) \<and> cache_pending c k = Some p"
proof -
  have ok: "position_ok c (threads c ! t)" using assms by (simp add: cache_inv_def)
  show "threads c ! t = Computing k p \<Longrightarrow> p < length (promises c) \<and> promises c ! p = None \<and> cache_pending c k = Some p"
    and "threads c ! t = Settling k p r \<Longrightarrow> p < length (promises c) \<and> promises c ! p = Some r \<and> cache_pending c k = Some p"
    and "threads c ! t = Waiting k p \<Longrightarrow> p < length (promises c) \<and>
      (promises c ! p = None \<longrightarrow> (\<exists>t < length (threads c). threads c ! t = Computing k p))"
    using ok by (auto simp: position_ok_def)
  show "owns (threads c ! t) = Some (k, p) \<Longrightarrow> p < length (promises c) \<and> cache_pending c k = Some p"
    using ok by (cases "threads c ! t") (auto simp: position_ok_def)
qed

lemma cache_inv_owner: "cache_inv c \<Longrightarrow> cache_pending c k = Some p \<Longrightarrow> \<exists>t < length (threads c). owns (threads c ! t) = Some (k, p)"
  by (simp add: cache_inv_def)

lemma cache_inv_unique:
  assumes "cache_inv c" "t < length (threads c)" "t' < length (threads c)"
    "owns (threads c ! t) = Some (k, p)" "owns (threads c ! t') = Some (k', p)"
  shows "t = t'"
  using assms unfolding cache_inv_def by blast

lemma cache_invI:
  assumes "\<And>t. t < length (threads c) \<Longrightarrow> position_ok c (threads c ! t)"
    and "\<And>k p. cache_pending c k = Some p \<Longrightarrow> \<exists>t < length (threads c). owns (threads c ! t) = Some (k, p)"
    and "\<And>t t' k p k'. t < length (threads c) \<Longrightarrow> t' < length (threads c) \<Longrightarrow> owns (threads c ! t) = Some (k, p) \<Longrightarrow>
      owns (threads c ! t') = Some (k', p) \<Longrightarrow> t = t'"
  shows "cache_inv c"
  using assms unfolding cache_inv_def by blast

text \<open>A thread that owns nothing joins.\<close>

lemma inv_join:
  assumes "cache_inv c" "owns x = None" "position_ok c x"
  shows "cache_inv (c\<lparr>threads := threads c @ [x]\<rparr>)"
proof (rule cache_invI)
  fix t assume t: "t < length (threads (c\<lparr>threads := threads c @ [x]\<rparr>))"
  have mono: "position_ok c y \<Longrightarrow> position_ok (c\<lparr>threads := threads c @ [x]\<rparr>) y" for y
    by (auto simp: position_ok_def nth_append split: position.splits)
  show "position_ok (c\<lparr>threads := threads c @ [x]\<rparr>) (threads (c\<lparr>threads := threads c @ [x]\<rparr>) ! t)"
    using t assms mono by (auto simp: nth_append cache_inv_def)
next
  fix k p assume "cache_pending (c\<lparr>threads := threads c @ [x]\<rparr>) k = Some p"
  with cache_inv_owner [OF assms(1)] show "\<exists>t < length (threads (c\<lparr>threads := threads c @ [x]\<rparr>)).
      owns (threads (c\<lparr>threads := threads c @ [x]\<rparr>) ! t) = Some (k, p)"
    by (fastforce simp: nth_append)
next
  fix t t' k p k'
  assume "t < length (threads (c\<lparr>threads := threads c @ [x]\<rparr>))" "t' < length (threads (c\<lparr>threads := threads c @ [x]\<rparr>))"
    "owns (threads (c\<lparr>threads := threads c @ [x]\<rparr>) ! t) = Some (k, p)"
    "owns (threads (c\<lparr>threads := threads c @ [x]\<rparr>) ! t') = Some (k', p)"
  with assms(2) cache_inv_unique [OF assms(1)] show "t = t'"
    by (auto simp: nth_append less_Suc_eq split: if_splits)
qed

text \<open>A thread moves to a position that owns nothing, from one that owned nothing.\<close>

lemma inv_move:
  assumes "cache_inv c" "t < length (threads c)" "owns (threads c ! t) = None" "owns x = None" "position_ok c x"
  shows "cache_inv (c\<lparr>threads := (threads c)[t := x]\<rparr>)"
proof -
  let ?c = "c\<lparr>threads := (threads c)[t := x]\<rparr>"
  have keep: "threads c ! t' = y \<Longrightarrow> owns y \<noteq> None \<Longrightarrow> (threads c)[t := x] ! t' = y" for t' y
    using assms(2,3) by (cases "t' = t") auto
  have mono: "position_ok c y \<Longrightarrow> position_ok ?c y" for y
    using keep by (fastforce simp: position_ok_def split: position.splits)
  have owned: "t' < length (threads c) \<Longrightarrow> owns ((threads c)[t := x] ! t') = Some a \<Longrightarrow> owns (threads c ! t') = Some a" for t' a
    using assms(4) by (cases "t' = t") auto
  show ?thesis
  proof (rule cache_invI)
    fix t' assume "t' < length (threads ?c)"
    then show "position_ok ?c (threads ?c ! t')"
      using assms(1,5) mono by (cases "t' = t") (auto simp: cache_inv_def)
  next
    fix k p assume "cache_pending ?c k = Some p"
    then obtain t' where "t' < length (threads c)" "owns (threads c ! t') = Some (k, p)"
      using cache_inv_owner [OF assms(1)] by auto
    with keep show "\<exists>t' < length (threads ?c). owns (threads ?c ! t') = Some (k, p)" by fastforce
  next
    fix t1 t2 k p k'
    assume "t1 < length (threads ?c)" "t2 < length (threads ?c)" "owns (threads ?c ! t1) = Some (k, p)" "owns (threads ?c ! t2) = Some (k', p)"
    with owned cache_inv_unique [OF assms(1)] show "t1 = t2" by simp
  qed
qed

lemma inv_finish:
  assumes "cache_inv c" "t < length (threads c)" "threads c ! t = Computing key p"
  shows "cache_inv (finish t key p r c)"
proof -
  let ?c = "finish t key p r c"
  note own = cache_invD(1) [OF assms]
  have o: "owns (threads ?c ! t') = owns (threads c ! t')" for t'
    using assms(2,3) by (cases "t' = t") (auto simp: finish_def)
  have other: "position_ok ?c (threads c ! t')" if t': "t' < length (threads c)" "t' \<noteq> t" for t'
  proof -
    have p': "p' \<noteq> p" if "owns (threads c ! t') = Some (k', p')" for k' p'
      using cache_inv_unique [OF assms(1,2) t'(1), of key p k'] that assms(3) t'(2) by auto
    show ?thesis
    proof (cases "threads c ! t'")
      case (Waiting k q)
      with cache_invD(3) [OF assms(1) t'(1) this] own assms(2,3) show ?thesis
        by (cases "q = p") (auto simp: position_ok_def finish_def nth_list_update, metis position.inject(1))
    qed (use p' cache_invD(1,2) [OF assms(1) t'(1)] in \<open>auto simp: position_ok_def finish_def\<close>)
  qed
  show ?thesis
  proof (rule cache_invI)
    fix t' assume "t' < length (threads ?c)"
    with other assms own show "position_ok ?c (threads ?c ! t')"
      by (cases "t' = t") (auto simp: finish_def position_ok_def)
  next
    fix k q assume "cache_pending ?c k = Some q"
    with cache_inv_owner [OF assms(1)] show "\<exists>t' < length (threads ?c). owns (threads ?c ! t') = Some (k, q)"
      using o by (auto simp: finish_def)
  next
    fix t1 t2 k q k'
    assume "t1 < length (threads ?c)" "t2 < length (threads ?c)" "owns (threads ?c ! t1) = Some (k, q)" "owns (threads ?c ! t2) = Some (k', q)"
    with o cache_inv_unique [OF assms(1)] show "t1 = t2" by (simp add: finish_def)
  qed
qed

lemma inv_settle:
  assumes "cache_inv c" "t < length (threads c)" "threads c ! t = Settling key p r"
  shows "cache_inv (settle now t key r c)"
proof -
  let ?c = "settle now t key r c"
  note own = cache_invD(2) [OF assms]
  have k': "k' \<noteq> key" if "t' < length (threads c)" "t' \<noteq> t" "owns (threads c ! t') = Some (k', p')" for t' k' p'
    using cache_inv_unique [OF assms(1,2) that(1), of key p k'] cache_invD(4) [OF assms(1) that(1,3)] own that assms(3) by auto
  have owned: "t' < length (threads c) \<Longrightarrow> owns (threads ?c ! t') = Some a \<Longrightarrow> t' \<noteq> t \<and> owns (threads c ! t') = Some a" for t' a
    using assms(2) by (cases "t' = t") (auto simp: settle_def)
  have other: "position_ok ?c (threads c ! t')" if t': "t' < length (threads c)" "t' \<noteq> t" for t'
  proof (cases "threads c ! t'")
    case (Waiting k q)
    with cache_invD(3) [OF assms(1) t'(1) this] assms(2,3) show ?thesis
      by (auto simp: position_ok_def settle_def nth_list_update) (metis position.distinct(1))
  qed (use k' [OF t'] cache_invD(1,2) [OF assms(1) t'(1)] in \<open>auto simp: position_ok_def settle_def\<close>)
  show ?thesis
  proof (rule cache_invI)
    fix t' assume "t' < length (threads ?c)"
    with other assms show "position_ok ?c (threads ?c ! t')"
      by (cases "t' = t") (auto simp: settle_def position_ok_def)
  next
    fix k q assume "cache_pending ?c k = Some q"
    then have "k \<noteq> key" "cache_pending c k = Some q" by (auto simp: settle_def split: if_splits)
    with cache_inv_owner [OF assms(1)] obtain t' where t': "t' < length (threads c)" "owns (threads c ! t') = Some (k, q)" by blast
    with \<open>k \<noteq> key\<close> assms(3) have "t' \<noteq> t" by auto
    with t' show "\<exists>t' < length (threads ?c). owns (threads ?c ! t') = Some (k, q)" by (auto simp: settle_def)
  next
    fix t1 t2 k q k'
    assume "t1 < length (threads ?c)" "t2 < length (threads ?c)" "owns (threads ?c ! t1) = Some (k, q)" "owns (threads ?c ! t2) = Some (k', q)"
    with owned cache_inv_unique [OF assms(1)] show "t1 = t2" by (simp add: settle_def)
  qed
qed

lemma inv_new:
  assumes "cache_inv c" "cache_pending c key = None"
  defines "c' \<equiv> c\<lparr>promises := promises c @ [None], cache_pending := (cache_pending c)(key := Some (length (promises c))),
    threads := threads c @ [Computing key (length (promises c))]\<rparr>"
  shows "cache_inv c'"
proof -
  have own: "p < length (promises c) \<and> k \<noteq> key" if "t < length (threads c)" "owns (threads c ! t) = Some (k, p)" for t k p
    using cache_invD(4) [OF assms(1) that] assms(2) by auto
  have other: "position_ok c' (threads c ! t)" if t: "t < length (threads c)" for t
  proof (cases "threads c ! t")
    case (Waiting k q)
    with cache_invD(3) [OF assms(1) t this] show ?thesis
      by (auto simp: position_ok_def c'_def nth_append)
  qed (use own [OF t] cache_invD(1,2) [OF assms(1) t] in \<open>auto simp: position_ok_def c'_def nth_append\<close>)
  have side: "t < length (threads c) \<and> owns (threads c ! t) = Some (k, p) \<and> p < length (promises c) \<or>
      t = length (threads c) \<and> p = length (promises c)"
    if "t < length (threads c')" "owns (threads c' ! t) = Some (k, p)" for t k p
    using that own [of t k p] by (cases "t < length (threads c)") (auto simp: c'_def nth_append less_Suc_eq)
  show ?thesis
  proof (rule cache_invI)
    fix t assume "t < length (threads c')"
    with other show "position_ok c' (threads c' ! t)"
      by (cases "t < length (threads c)") (auto simp: c'_def position_ok_def nth_append less_Suc_eq)
  next
    fix k p assume p: "cache_pending c' k = Some p"
    show "\<exists>t < length (threads c'). owns (threads c' ! t) = Some (k, p)"
    proof (cases "k = key")
      case True
      with p show ?thesis by (auto simp: c'_def intro!: exI [of _ "length (threads c)"])
    next
      case False
      with p have "cache_pending c k = Some p" by (simp add: c'_def)
      with cache_inv_owner [OF assms(1)] show ?thesis by (fastforce simp: c'_def nth_append)
    qed
  next
    fix t1 t2 k p k'
    assume "t1 < length (threads c')" "t2 < length (threads c')" "owns (threads c' ! t1) = Some (k, p)" "owns (threads c' ! t2) = Some (k', p)"
    with side [of t1 k p] side [of t2 k' p] cache_inv_unique [OF assms(1), of t1 t2 k p k'] show "t1 = t2" by auto
  qed
qed

lemma inv_enter:
  assumes "cache_inv c" shows "cache_inv (enter ttl now key c)"
proof -
  obtain cached m where g: "do_get ttl now key (cache_map c) = (cached, m)" by fastforce
  let ?c = "c\<lparr>cache_map := m\<rparr>"
  have inv: "cache_inv ?c" using assms by simp
  show ?thesis
  proof (cases cached)
    case (Some v)
    with g inv inv_join [of ?c "Returned key (Inr v)"] show ?thesis by (simp add: enter_def position_ok_def)
  next
    case None
    show ?thesis
    proof (cases "cache_pending c key")
      case (Some p)
      then obtain t where t: "t < length (threads c)" "owns (threads c ! t) = Some (key, p)"
        using cache_inv_owner [OF assms] by blast
      have "position_ok ?c (Waiting key p)"
        using t cache_invD [OF assms t(1)] by (cases "threads c ! t") (auto simp: position_ok_def)
      with Some None g inv inv_join [of ?c "Waiting key p"] show ?thesis by (simp add: enter_def)
    next
      case None': None
      with inv_new [of ?c key] inv None g show ?thesis by (simp add: enter_def Let_def)
    qed
  qed
qed

lemma cache_inv_step: "cache_step ttl c c' \<Longrightarrow> cache_inv c \<Longrightarrow> cache_inv c'"
proof (induction rule: cache_step.induct)
  case (wake t c key p r)
  then show ?case by (intro inv_move) (auto simp: position_ok_def)
qed (auto intro: inv_enter inv_finish inv_settle)

lemma reachable_inv: "reachable_cache ttl c \<Longrightarrow> cache_inv c"
proof (induction rule: reachable_cache.induct)
  case start
  then show ?case by (simp add: cache_inv_def empty_cache_def)
qed (rule cache_inv_step)

section \<open>Properties\<close>

text \<open>C14. However the threads interleave, at most one of them runs the factory of a key at a time, and no
  thread waits forever for a value nobody computes: the promise a thread waits for is set, or the thread
  that computes it is still running.\<close>

theorem ttl_cache_single_flight:
  assumes "reachable_cache ttl c"
  shows "(\<forall>t t' k p p'. t < length (threads c) \<and> t' < length (threads c) \<and>
      owns (threads c ! t) = Some (k, p) \<and> owns (threads c ! t') = Some (k, p') \<longrightarrow> t = t') \<and>
    (\<forall>t k p. t < length (threads c) \<and> threads c ! t = Waiting k p \<longrightarrow>
      (\<exists>r. promises c ! p = Some r) \<or> (\<exists>t' < length (threads c). threads c ! t' = Computing k p))"
proof -
  have inv: "cache_inv c" using assms by (rule reachable_inv)
  have "t = t'" if "t < length (threads c)" "t' < length (threads c)" "owns (threads c ! t) = Some (k, p)"
    "owns (threads c ! t') = Some (k, p')" for t t' k p p'
    using cache_invD(4) [OF inv that(1,3)] cache_invD(4) [OF inv that(2,4)] cache_inv_unique [OF inv that(1,2,3)] that(4) by auto
  moreover have "(\<exists>r. promises c ! p = Some r) \<or> (\<exists>t' < length (threads c). threads c ! t' = Computing k p)"
    if "t < length (threads c)" "threads c ! t = Waiting k p" for t k p
    using cache_invD(3) [OF inv that] by (cases "promises c ! p") auto
  ultimately show ?thesis by blast
qed

text \<open>A key asked for by two threads: the second one waits for the first.\<close>

definition two_askers :: "(nat, nat) cache" where
  "two_askers = enter 5 1 7 (enter 5 0 7 empty_cache)"

theorem ttl_cache_single_flight_witness:
  "threads two_askers = [Computing 7 0, Waiting 7 0] \<and>
   ((\<exists>r. promises two_askers ! 0 = Some r) \<or> (\<exists>t' < length (threads two_askers). threads two_askers ! t' = Computing 7 0))"
proof -
  have r: "reachable_cache 5 two_askers"
    unfolding two_askers_def 
    by (rule reachable_cache.step [OF reachable_cache.step [OF reachable_cache.start cache_step.enter] cache_step.enter])
  have t: "threads two_askers = [Computing 7 0, Waiting 7 0]"
    by (simp add: two_askers_def enter_def empty_cache_def do_get_def)
  with ttl_cache_single_flight [OF r, THEN conjunct2, rule_format, of 1 7 0] show ?thesis by simp
qed

text \<open>A lookup returns a value exactly when an entry younger than the time to live is stored, and the
  entries of other keys are not touched.\<close>

lemma do_get_fresh:
  "fst (do_get ttl now key m) = Some v \<longleftrightarrow> (\<exists>e. m key = Some e \<and> now - e_timestamp e < ttl \<and> e_value e = v)"
  "k \<noteq> key \<Longrightarrow> snd (do_get ttl now key m) k = m k"
  by (auto simp: do_get_def expired_def split: option.splits)

end
