(* ===== verification/Driver_Manager.thy ===== *)
theory Driver_Manager
  imports Config_Types
begin

text \<open>
  Loading drivers (\<^verbatim>\<open>src/core/driver_manager.cpp\<close>, \<^verbatim>\<open>src/core/driver_loader.cpp\<close>, \<^verbatim>\<open>src/util/algorithm.hpp\<close>).
  The file system and the dynamic linker are the environment; a library is what its symbols resolve to.
  \<^verbatim>\<open>create\<close> may return a null pointer, which the code dereferences. A \<^verbatim>\<open>std::map\<close> is the list of its
  pairs in key order.
\<close>

section \<open>Removing duplicates\<close>

fun erase_seen :: "'a list \<Rightarrow> 'a list \<Rightarrow> 'a list" where
  "erase_seen seen [] = []"
| "erase_seen seen (x # xs) = (if x \<in> set seen then erase_seen seen xs else x # erase_seen (x # seen) xs)"

definition dedupe :: "'a list \<Rightarrow> nat \<times> 'a list" where
  "dedupe vec = (let vec' = erase_seen [] vec in (length vec - length vec', vec'))"

section \<open>Versions and libraries\<close>

record abi_version =
  major :: u16
  minor :: u16
  patch :: u16

definition is_compatible_with :: "abi_version \<Rightarrow> abi_version \<Rightarrow> bool" where
  "is_compatible_with v required = (major v = major required \<and> minor required \<le> minor v \<and> patch required \<le> patch v)"

record driver =
  drv_abi :: abi_version
  drv_name :: string

record driver_lib =
  dl_magic :: "64 word option"
  dl_compiler_hash :: "64 word option"
  dl_create :: "driver option option"
  dl_destroy :: "unit option"

record driver_env =
  fs_exists :: "string \<Rightarrow> bool"
  fs_is_directory :: "string \<Rightarrow> bool"
  fs_entries :: "string \<Rightarrow> (string \<times> bool \<times> string) list"
  dlopen :: "string \<Rightarrow> driver_lib option"
  host_hash :: "64 word"
  host_abi :: abi_version
  default_driver_dir :: string

abbreviation (input) YADDNSC_DRIVER_MAGIC :: "64 word" where "YADDNSC_DRIVER_MAGIC \<equiv> 0x594144444E534300"

definition get_driver_name :: "string \<Rightarrow> string" where
  "get_driver_name path = (case rfind_elem (CHR ''/'') path of None \<Rightarrow> path | Some pos \<Rightarrow> drop (pos + 1) path)"

definition resolve_symbol :: "'a option \<Rightarrow> 'a result" where
  "resolve_symbol s = (case s of None \<Rightarrow> Inl BadDriverException | Some f \<Rightarrow> Inr f)"

definition verify_magic :: "driver_lib \<Rightarrow> unit result" where
  "verify_magic lib =
     bindE (resolve_symbol (dl_magic lib)) (\<lambda>v. if v \<noteq> YADDNSC_DRIVER_MAGIC then Inl BadDriverException else Inr ())"

definition verify_compiler :: "64 word \<Rightarrow> driver_lib \<Rightarrow> unit result" where
  "verify_compiler host lib =
     bindE (resolve_symbol (dl_compiler_hash lib)) (\<lambda>v. if v \<noteq> host then Inl BadDriverException else Inr ())"

definition create_driver :: "driver_lib \<Rightarrow> driver option result" where
  "create_driver lib =
     bindE (resolve_symbol (dl_create lib)) (\<lambda>d. bindE (resolve_symbol (dl_destroy lib)) (\<lambda>_. Inr d))"

definition driver_module :: "driver_env \<Rightarrow> string \<Rightarrow> driver option result" where
  "driver_module env path =
     (case dlopen env path of
        None \<Rightarrow> Inl BadDriverException
      | Some lib \<Rightarrow>
          bindE (verify_magic lib) (\<lambda>_. bindE (verify_compiler (host_hash env) lib) (\<lambda>_. create_driver lib)))"

section \<open>The manager\<close>

fun str_less :: "string \<Rightarrow> string \<Rightarrow> bool" where
  "str_less _ [] = False"
| "str_less [] (_ # _) = True"
| "str_less (a # as) (b # bs) =
     ((of_char a :: nat) < of_char b \<or> a = b \<and> str_less as bs)"

type_synonym driver_map = "(string \<times> driver) list"

text \<open>\<^verbatim>\<open>map::emplace\<close>: no effect when the key is present.\<close>

fun emplace :: "string \<Rightarrow> driver \<Rightarrow> driver_map \<Rightarrow> driver_map" where
  "emplace k v [] = [(k, v)]"
| "emplace k v ((k', v') # m) =
     (if k = k' then (k', v') # m
      else if str_less k k' then (k, v) # (k', v') # m
      else (k', v') # emplace k v m)"

definition register_driver :: "abi_version \<Rightarrow> driver option \<Rightarrow> driver_map \<Rightarrow> driver_map result" where
  "register_driver required res m =
     (case res of
        None \<Rightarrow> Inl OutOfBounds
      | Some d \<Rightarrow>
          if \<not> is_compatible_with (drv_abi d) required then Inl BadDriverException
          else Inr (emplace (drv_name d) d m))"

definition unload_driver :: "string \<Rightarrow> driver_map \<Rightarrow> driver_map result" where
  "unload_driver name m =
     (if map_of m name = None then Inl DriverNotFoundException else Inr (filter (\<lambda>(k, _). k \<noteq> name) m))"

definition get_driver :: "string \<Rightarrow> driver_map \<Rightarrow> driver result" where
  "get_driver name m = (case map_of m name of Some d \<Rightarrow> Inr d | None \<Rightarrow> Inl DriverNotFoundException)"

definition get_loaded_drivers :: "driver_map \<Rightarrow> string list" where
  "get_loaded_drivers m = map fst m"

definition load_driver :: "driver_env \<Rightarrow> string \<Rightarrow> driver_map \<Rightarrow> driver_map result" where
  "load_driver env path m =
     (if \<not> fs_exists env path then Inl BadDriverException
      else bindE (driver_module env path) (\<lambda>res. register_driver (host_abi env) res m))"

section \<open>The loader\<close>

definition resolve_driver_base :: "driver_env \<Rightarrow> string option \<Rightarrow> string result" where
  "resolve_driver_base env dir =
     (case dir of
        Some d \<Rightarrow> if d = [] then Inl InvalidArgument else Inr d
      | None \<Rightarrow> Inr (default_driver_dir env))"

text \<open>\<^verbatim>\<open>base_dir / p\<close> of \<^verbatim>\<open>std::filesystem::path\<close> for a relative path on POSIX.\<close>

definition resolve_driver_path :: "string \<Rightarrow> string \<Rightarrow> string" where
  "resolve_driver_path base_dir drv =
     (if drv \<noteq> [] \<and> hd drv = CHR ''/'' then drv
      else if base_dir = [] \<or> last base_dir = CHR ''/'' then base_dir @ drv
      else base_dir @ ''/'' @ drv)"

fun load_each :: "driver_env \<Rightarrow> string list \<Rightarrow> driver_map \<Rightarrow> driver_map result" where
  "load_each env [] m = Inr m"
| "load_each env (p # ps) m = bindE (load_driver env p m) (load_each env ps)"

definition load_auto_discover :: "driver_env \<Rightarrow> driver_config \<Rightarrow> driver_map \<Rightarrow> driver_map result" where
  "load_auto_discover env cfg m =
     bindE (resolve_driver_base env (driver_dir cfg)) (\<lambda>base_dir.
       if \<not> fs_exists env base_dir then Inr m
       else if \<not> fs_is_directory env base_dir then Inr m
       else load_each env (map fst (filter (\<lambda>(_, regular, ext). regular \<and> ext = ''.so'') (fs_entries env base_dir))) m)"

definition load_manual :: "driver_env \<Rightarrow> driver_config \<Rightarrow> driver_map \<Rightarrow> driver_map result" where
  "load_manual env cfg m =
     (let load = snd (dedupe (driver_load cfg)) in
      bindE (resolve_driver_base env (driver_dir cfg)) (\<lambda>base_dir.
        load_each env (map (resolve_driver_path base_dir) load) m))"

definition load_drivers :: "driver_env \<Rightarrow> driver_config \<Rightarrow> driver_map \<Rightarrow> driver_map result" where
  "load_drivers env cfg m = (if auto_discover cfg then load_auto_discover env cfg m else load_manual env cfg m)"

section \<open>Lemmas\<close>

lemma remdups_snoc: "remdups (ys @ [x]) = removeAll x (remdups ys) @ [x]"
  by (induction ys) auto

lemma erase_seen_eq: "erase_seen seen xs = filter (\<lambda>x. x \<notin> set seen) (rev (remdups (rev xs)))"
proof (induction xs arbitrary: seen)
  case (Cons x xs)
  have "filter (\<lambda>y. y \<noteq> x \<and> y \<notin> set seen) ys = filter (\<lambda>y. y \<notin> set (x # seen)) ys" for ys
    by (rule filter_cong) auto
  then show ?case
    by (auto simp: Cons.IH remdups_snoc removeAll_filter_not_eq rev_filter intro!: filter_cong)
qed simp

lemma str_less_irrefl [simp]: "\<not> str_less a a"
  by (induction a) auto

lemma str_less_Cons: "str_less (a # as) s \<longleftrightarrow> (\<exists>b bs. s = b # bs \<and> ((of_char a :: nat) < of_char b \<or> a = b \<and> str_less as bs))"
  by (cases s) auto

lemma str_less_Nil: "str_less [] s \<longleftrightarrow> s \<noteq> []"
  by (cases s) auto

lemma str_less_trans: "str_less a b \<Longrightarrow> str_less b c \<Longrightarrow> str_less a c"
proof (induction a arbitrary: b c)
  case (Cons x xs)
  then obtain y ys z zs where "b = y # ys" "c = z # zs" by (auto simp: str_less_Cons)
  with Cons show ?case by auto
qed (auto simp: str_less_Nil str_less.simps(1))

lemma str_less_total: "a \<noteq> b \<Longrightarrow> str_less a b \<or> str_less b a"
proof (induction a arbitrary: b)
  case (Cons x xs)
  show ?case
  proof (cases b)
    case (Cons y ys)
    have "x = y \<or> (of_char x :: nat) < of_char y \<or> (of_char y :: nat) < of_char x"
      by (metis linorder_neqE_nat of_char_eq_iff)
    with Cons Cons.IH [of ys] Cons.prems show ?thesis by auto
  qed simp
qed (simp add: str_less_Nil)

text \<open>A map as the code keeps it: in key order, so with distinct keys, and each driver under its own name.\<close>

definition drivers_wf :: "driver_map \<Rightarrow> bool" where
  "drivers_wf m \<longleftrightarrow> sorted_wrt (\<lambda>x y. str_less (fst x) (fst y)) m \<and> (\<forall>(k, d)\<in>set m. k = drv_name d)"

lemma map_of_smaller: "\<forall>y\<in>set m. str_less k (fst y) \<Longrightarrow> map_of m k = None"
  by (induction m) auto

lemma emplace_facts:
  assumes "sorted_wrt (\<lambda>x y. str_less (fst x) (fst y)) m"
  shows "set (emplace k v m) = (if map_of m k = None then insert (k, v) (set m) else set m) \<and>
    sorted_wrt (\<lambda>x y. str_less (fst x) (fst y)) (emplace k v m)"
  using assms
proof (induction k v m rule: emplace.induct)
  case (2 k v k' v' m)
  consider (same) "k = k'" | (less) "k \<noteq> k'" "str_less k k'" | (more) "k \<noteq> k'" "\<not> str_less k k'" by blast
  then show ?case
  proof cases
    case less
    with 2 have "\<forall>y\<in>set m. str_less k (fst y)" by (auto intro: str_less_trans)
    with less 2 map_of_smaller [of m k] show ?thesis by auto
  next
    case more
    then have "str_less k' k" using str_less_total by blast
    with more 2 show ?thesis by (auto split: if_splits)
  qed (use 2 in auto)
qed simp

lemma sorted_distinct: "sorted_wrt (\<lambda>x y. str_less (fst x) (fst y)) m \<Longrightarrow> distinct (map fst m)"
  by (induction m) auto

lemma drivers_wf_emplace: "drivers_wf m \<Longrightarrow> drivers_wf (emplace (drv_name d) d m)"
  using emplace_facts [of m "drv_name d" d] by (auto simp: drivers_wf_def)

text \<open>What a library must be for its driver to be registered from a path.\<close>

definition admitted :: "driver_env \<Rightarrow> string \<Rightarrow> driver \<Rightarrow> bool" where
  "admitted env path d \<longleftrightarrow> fs_exists env path \<and> is_compatible_with (drv_abi d) (host_abi env) \<and>
     (\<exists>lib. dlopen env path = Some lib \<and> dl_magic lib = Some YADDNSC_DRIVER_MAGIC \<and>
        dl_compiler_hash lib = Some (host_hash env) \<and> dl_create lib = Some (Some d) \<and> dl_destroy lib \<noteq> None)"

lemma load_driver_ok: "load_driver env path m = Inr m' \<longleftrightarrow> (\<exists>d. admitted env path d \<and> m' = emplace (drv_name d) d m)"
  by (auto simp: load_driver_def driver_module_def verify_magic_def verify_compiler_def create_driver_def resolve_symbol_def
      register_driver_def admitted_def split: option.splits if_splits)

lemma load_each_ok:
  assumes "load_each env ps m = Inr m'" "drivers_wf m"
  shows "drivers_wf m' \<and> set m \<subseteq> set m' \<and>
    (\<forall>(k, d)\<in>set m'. (k, d) \<in> set m \<or> (\<exists>p\<in>set ps. admitted env p d)) \<and>
    (\<forall>p\<in>set ps. \<exists>d. admitted env p d \<and> drv_name d \<in> fst ` set m')"
  using assms
proof (induction env ps m rule: load_each.induct)
  case (2 env p ps m)
  then obtain d where d: "admitted env p d" "load_each env ps (emplace (drv_name d) d m) = Inr m'"
    by (auto simp: load_driver_ok)
  have e: "set (emplace (drv_name d) d m) = (if map_of m (drv_name d) = None then insert (drv_name d, d) (set m) else set m)"
    using emplace_facts 2(3) by (simp add: drivers_wf_def)
  have ok: "load_driver env p m = Inr (emplace (drv_name d) d m)" using d(1) by (auto simp: load_driver_ok)
  note ih = "2.IH" [OF ok d(2) drivers_wf_emplace [OF 2(3)]]
  have "drv_name d \<in> fst ` set (emplace (drv_name d) d m)"
    unfolding e by (auto simp: map_of_eq_None_iff)
  with ih have n: "drv_name d \<in> fst ` set m'" by blast
  show ?case
  proof (intro conjI)
    show "\<forall>(k, d)\<in>set m'. (k, d) \<in> set m \<or> (\<exists>p\<in>set (p # ps). admitted env p d)"
      using ih d(1) unfolding e by (fastforce split: if_splits)
    show "\<forall>q\<in>set (p # ps). \<exists>d. admitted env q d \<and> drv_name d \<in> fst ` set m'" using ih d(1) n by auto
  qed (use ih e in \<open>auto split: if_splits\<close>)
qed simp

text \<open>The libraries the configuration names.\<close>

definition candidates :: "driver_env \<Rightarrow> driver_config \<Rightarrow> string list" where
  "candidates env cfg =
     (case resolve_driver_base env (driver_dir cfg) of
        Inl _ \<Rightarrow> []
      | Inr base \<Rightarrow>
          if auto_discover cfg then
            (if fs_exists env base \<and> fs_is_directory env base
             then map fst (filter (\<lambda>(_, regular, ext). regular \<and> ext = ''.so'') (fs_entries env base)) else [])
          else map (resolve_driver_path base) (snd (dedupe (driver_load cfg))))"

lemma load_drivers_candidates:
  "load_drivers env cfg m = Inr m' \<Longrightarrow> load_each env (candidates env cfg) m = Inr m'"
  by (auto simp: load_drivers_def load_auto_discover_def load_manual_def candidates_def Let_def split: if_splits)

section \<open>Properties\<close>

text \<open>\<open>dedupe\<close> keeps the first occurrence of every value, in order, and returns how many it removed.\<close>

theorem dedupe_keeps_first_occurrences:
  "dedupe xs = (length xs - card (set xs), rev (remdups (rev xs)))"
proof -
  have "length (rev (remdups (rev xs))) = card (set xs)" by (simp add: length_remdups_card_conv)
  then show ?thesis by (simp add: dedupe_def erase_seen_eq Let_def)
qed

text \<open>Loading succeeds only with verified drivers: every driver in the map stands under its own name,
  comes from a library the configuration names, with the right magic number, the host's compiler identity
  and a compatible ABI; names are unique and in order; and every library named has a driver of its name
  loaded.\<close>

theorem loaded_drivers_verified:
  assumes "load_drivers env cfg [] = Inr m"
  shows "drivers_wf m \<and> distinct (get_loaded_drivers m) \<and>
    (\<forall>(k, d)\<in>set m. k = drv_name d \<and> (\<exists>p\<in>set (candidates env cfg). admitted env p d)) \<and>
    (\<forall>p\<in>set (candidates env cfg). \<exists>d. admitted env p d \<and> drv_name d \<in> set (get_loaded_drivers m))"
proof -
  have l: "load_each env (candidates env cfg) [] = Inr m" using assms by (rule load_drivers_candidates)
  have wf: "drivers_wf ([] :: driver_map)" by (simp add: drivers_wf_def)
  note ok = load_each_ok [OF l wf]
  have "distinct (map fst m)" using ok by (auto simp: drivers_wf_def intro: sorted_distinct)
  with ok show ?thesis by (auto simp: get_loaded_drivers_def drivers_wf_def)
qed

end
