(* ===== verification/Manager_Model.thy ===== *)
theory Manager_Model
  imports Driver_Manager Scheduler
begin

text \<open>
  The manager (\<^verbatim>\<open>src/core/manager.cpp\<close>): it loads the drivers, validates the configuration against them and
  runs the loop that hands due tasks to the thread pool. One round of the loop is what the clock and the
  stop token say while it runs. The events are the tasks detached with their drivers, and those skipped.
\<close>

definition estimate_pool_size :: "32 word \<Rightarrow> 'json app_config \<Rightarrow> 32 word" where
  "estimate_pool_size thread_count cfg =
     (let total_subdomains = foldl (\<lambda>n d. n + of_nat (length (dom_subdomains d))) 0 (cfg_domains cfg) in
      if total_subdomains < 2 \<or> thread_count < 2 then 2
      else if total_subdomains < thread_count then total_subdomains
      else min thread_count 4)"

record round =
  r_stop_requested :: bool
  r_pop_now :: int
  r_wait_now :: int
  r_wait_stop :: bool

datatype 'json manager_event = Detached "'json update_task" driver | Skipped "'json update_task"

definition dispatch_task :: "driver_map \<Rightarrow> 'json update_task \<Rightarrow> 'json manager_event" where
  "dispatch_task drivers t = (case get_driver (task_driver_name t) drivers of Inr d \<Rightarrow> Detached t d | Inl _ \<Rightarrow> Skipped t)"

text \<open>A run over the given rounds: \<open>None\<close> when \<open>pop_all_due\<close> does not return. It ends when the stop token is
  set, when the wait reports it, or with the last round given.\<close>

fun manager_run ::
  "driver_map \<Rightarrow> round list \<Rightarrow> 'json schedule_entry list \<Rightarrow> ('json manager_event list list \<times> 'json schedule_entry list) option" where
  "manager_run drivers [] heap = Some ([], heap)"
| "manager_run drivers (r # rs) heap =
     (if r_stop_requested r then Some ([], heap)
      else case pop_all_due (r_pop_now r) heap of
        None \<Rightarrow> None
      | Some (tasks, heap') \<Rightarrow>
          let events = map (dispatch_task drivers) tasks in
          if wait_for_next heap' (r_wait_now r) (r_wait_stop r) = Some True
          then map_option (apfst (Cons events)) (manager_run drivers rs heap')
          else Some ([events], heap'))"

definition manager_start ::
  "inet_lib \<Rightarrow> int \<Rightarrow> driver_env \<Rightarrow> string list \<Rightarrow> 'json app_config \<Rightarrow> driver_map result" where
  "manager_start lib min_interval env interfaces cfg =
     bindE (load_drivers env (cfg_driver cfg) []) (\<lambda>drivers.
     bindE (validate lib min_interval (get_loaded_drivers drivers) interfaces cfg) (\<lambda>_. Inr drivers))"

section \<open>Lemmas\<close>

lemma get_driver_loaded: "name \<in> set (get_loaded_drivers m) \<Longrightarrow> \<exists>d. get_driver name m = Inr d \<and> (name, d) \<in> set m"
  unfolding get_loaded_drivers_def get_driver_def
  by (cases "map_of m name") (auto simp: map_of_eq_None_iff dest: map_of_SomeD)

lemma sched_inv_drivers:
  assumes "sched_inv m cfg h" "validate lib m drivers interfaces cfg = Inr ()" "e \<in> set h"
  shows "task_driver_name (task e) \<in> set drivers"
proof -
  have eq: "image_mset task (mset h) = mset (config_views task (cfg_domains cfg))" using assms(1) by (simp add: sched_inv_def)
  have "task e \<in># image_mset task (mset h)" using assms(3) by simp
  then have "task e \<in># mset (config_views task (cfg_domains cfg))" unfolding eq .
  then obtain d s where "d \<in> set (cfg_domains cfg)" "task_driver_name (task e) = dom_driver d"
    by (auto simp: config_views_def initial_entry_def)
  with assms(2) show ?thesis by (auto simp: validate_ok domain_ok_def list_all_iff)
qed

lemma manager_run_inv:
  assumes "sched_inv m cfg h" "0 < m" "validate lib m (get_loaded_drivers drivers) interfaces cfg = Inr ()"
  shows "\<exists>evs h'. manager_run drivers rs h = Some (evs, h') \<and> sched_inv m cfg h' \<and>
    (\<forall>ev\<in>set (concat evs). \<exists>t d. ev = Detached t d \<and> get_driver (task_driver_name t) drivers = Inr d)"
  using assms(1)
proof (induction rs arbitrary: h)
  case (Cons r rs)
  have pos: "\<forall>e\<in>set h. is_due (r_pop_now r) e \<longrightarrow> 0 < update_interval e" "heap_ordered h"
    using Cons.prems assms(2) by (force simp: sched_inv_def)+
  obtain ts h1 where p: "pop_all_due (r_pop_now r) h = Some (ts, h1)" "mset ts = image_mset (fired_task (r_pop_now r)) (due_part (r_pop_now r) h)"
    using pop_all_due_result [OF pos(2,1)] by blast
  have inv1: "sched_inv m cfg h1" using pop_all_due_keeps_inv [OF Cons.prems assms(2) p(1)] .
  have ev: "\<exists>t' d. dispatch_task drivers t = Detached t' d \<and> get_driver (task_driver_name t') drivers = Inr d" if "t \<in> set ts" for t
  proof -
    have "t \<in># mset ts" using that by simp
    then obtain e where "e \<in> set h" "t = fired_task (r_pop_now r) e" unfolding p(2) by (auto simp: due_part_def)
    then have "task_driver_name t \<in> set (get_loaded_drivers drivers)"
      using sched_inv_drivers [OF Cons.prems assms(3)] by (simp add: fired_task_def)
    then show ?thesis using get_driver_loaded by (fastforce simp: dispatch_task_def)
  qed
  show ?case
  proof (cases "r_stop_requested r")
    case True
    with Cons.prems show ?thesis by simp
  next
    case False
    show ?thesis
    proof (cases "wait_for_next h1 (r_wait_now r) (r_wait_stop r) = Some True")
      case True
      with Cons.IH [OF inv1] False p(1) ev show ?thesis by (auto simp: Let_def)
    next
      case no: False
      with False p(1) ev inv1 show ?thesis by (auto simp: Let_def)
    qed
  qed
qed simp

section \<open>Properties\<close>


definition sample_driver :: driver where
  "sample_driver = \<lparr>drv_abi = \<lparr>major = 1, minor = 2, patch = 0\<rparr>, drv_name = ''simple''\<rparr>"

definition sample_driver_env :: driver_env where
  "sample_driver_env = \<lparr>fs_exists = \<lambda>_. True, fs_is_directory = \<lambda>_. True, fs_entries = \<lambda>_. [],
     dlopen = \<lambda>p. if p = ''/d/simple'' then Some \<lparr>dl_magic = Some YADDNSC_DRIVER_MAGIC, dl_compiler_hash = Some 7,
       dl_create = Some (Some sample_driver), dl_destroy = Some ()\<rparr> else None,
     host_hash = 7, host_abi = \<lparr>major = 1, minor = 0, patch = 0\<rparr>, default_driver_dir = ''/d''\<rparr>"

lemma sample_start: "manager_start letters_lib 60 sample_driver_env [''eth0''] sample_config = Inr [(''simple'', sample_driver)]"
proof -
  have "load_drivers sample_driver_env (cfg_driver sample_config) [] = Inr [(''simple'', sample_driver)]"
    by (simp add: load_drivers_def load_manual_def dedupe_def resolve_driver_base_def resolve_driver_path_def load_driver_def
        driver_module_def verify_magic_def verify_compiler_def create_driver_def resolve_symbol_def register_driver_def
        is_compatible_with_def sample_driver_env_def sample_config_def sample_driver_def)
  then show ?thesis using sample_config_valid by (simp add: manager_start_def get_loaded_drivers_def)
qed


text \<open>The thread pool has at least two threads, and no more than the machine's unless that is below two.\<close>

theorem pool_size_bounds:
  "2 \<le> estimate_pool_size n cfg \<and> (2 \<le> n \<longrightarrow> estimate_pool_size n cfg \<le> n)"
  by (auto simp: estimate_pool_size_def Let_def not_less min_def)

end
