(* ===== verification/Ip_Sources.thy ===== *)
theory Ip_Sources
  imports Updater String_Util Uri_Model Socket_Model
begin

text \<open>
  The sources of the local address (\<^verbatim>\<open>src/ip_source\<close>): a network interface, an HTTP service and multicast
  DNS. The interface table, the HTTP client and the kernel are the environment; \<open>None\<close> is a call that has
  not returned.
\<close>

fun type_to_family :: "record_kind \<Rightarrow> address_family" where
  "type_to_family Kind_A = IPV4"
| "type_to_family Kind_AAAA = IPV6"
| "type_to_family _ = UNSPECIFIED"

text \<open>The multicast socket: whether it can be created, bound and joined to the group, and the answers of
  the kernel to the send, the poll and the receive. The other options only log their failures.\<close>

record mdns_env =
  mn_socket :: bool
  mn_bind :: bool
  mn_join :: bool
  mn_send :: "nat script"
  mn_poll :: "poll_ret script"
  mn_recv :: "byte list script"

record ip_env =
  ie_lib :: inet_lib
  ie_interfaces :: "string \<Rightarrow> inet_address list option"
  ie_http :: "address_family \<Rightarrow> string option \<Rightarrow> string \<Rightarrow> string option"
  ie_mdns :: mdns_env

section \<open>Interface\<close>

definition get_addresses :: "ip_env \<Rightarrow> string \<Rightarrow> inet_address list result" where
  "get_addresses env interface_name =
     (case ie_interfaces env interface_name of Some as \<Rightarrow> Inr as | None \<Rightarrow> Inl RuntimeError)"

definition iface_resolve :: "ip_env \<Rightarrow> string \<Rightarrow> address_family \<Rightarrow> inet_address list result" where
  "iface_resolve env interface_name family =
     bindE (get_addresses env interface_name) (\<lambda>addresses.
       Inr (if family \<noteq> UNSPECIFIED then filter (\<lambda>a. get_family a = family) addresses else addresses))"

section \<open>HTTP\<close>

definition http_resolve :: "ip_env \<Rightarrow> string \<Rightarrow> address_family \<Rightarrow> string \<Rightarrow> inet_address list result" where
  "http_resolve env url family bind_interface =
     bindE (uri_parse (ie_lib env) url) (\<lambda>_.
       case ie_http env family (if bind_interface = [] then None else Some bind_interface) url of
         None \<Rightarrow> Inl RuntimeError
       | Some body \<Rightarrow>
           (case inet_parse (ie_lib env) (trim body) of
              None \<Rightarrow> Inl RuntimeError
            | Some addr \<Rightarrow> Inr [addr]))"

section \<open>Multicast DNS\<close>

abbreviation (input) QU_BIT :: u16 where "QU_BIT \<equiv> 0x8000"

definition mdns_builder :: "string \<Rightarrow> record_kind \<Rightarrow> query_builder" where
  "mdns_builder hostname type =
     add_question_raw_qclass hostname (type_to_record_type type) (record_class_val Class_IN OR QU_BIT)
       (set_rd False (set_id 0 (QueryBuilder 0)))"

definition mdns_addresses :: "inet_lib \<Rightarrow> record_kind \<Rightarrow> string list \<Rightarrow> inet_address list" where
  "mdns_addresses lib type recs =
     List.map_filter
       (\<lambda>rec. if type = Kind_A then map_option V4 (inet4_parse lib rec) else map_option V6 (inet6_parse lib rec)) recs"

definition recv_and_parse :: "inet_lib \<Rightarrow> mdns_env \<Rightarrow> record_kind \<Rightarrow> inet_address list result option" where
  "recv_and_parse lib env type =
     (case wait_for {POLLIN} False (mn_poll env) of
        None \<Rightarrow> None
      | Some (Inl _, _) \<Rightarrow> Some (Inl RuntimeError)
      | Some (Inr n, _) \<Rightarrow>
          if n = 0 then Some (Inl RuntimeError)
          else (case recv False 65536 (mn_recv env) of
              None \<Rightarrow> None
            | Some (Inl _, _) \<Rightarrow> Some (Inl RuntimeError)
            | Some (Inr data, _) \<Rightarrow>
                Some (bindE (parse_strings lib data) (\<lambda>parsed.
                  if fmt_records parsed = [] then Inl RuntimeError
                  else let results = mdns_addresses lib type (fmt_records parsed) in
                    if results = [] then Inl RuntimeError else Inr results))))"

definition resolve_mdns :: "inet_lib \<Rightarrow> mdns_env \<Rightarrow> string \<Rightarrow> record_kind \<Rightarrow> inet_address list result option" where
  "resolve_mdns lib env hostname type =
     (case build (mdns_builder hostname type) of
        Inl x \<Rightarrow> Some (Inl x)
      | Inr query_pkt \<Rightarrow>
          if \<not> mn_socket env then Some (Inl SocketException)
          else if \<not> mn_bind env then Some (Inl RuntimeError)
          else if \<not> mn_join env then Some (Inl RuntimeError)
          else (case send_loop False query_pkt (mn_send env) of
              None \<Rightarrow> None
            | Some (Inl _, _) \<Rightarrow> Some (Inl RuntimeError)
            | Some (Inr _, _) \<Rightarrow> recv_and_parse lib env type))"

section \<open>The factory\<close>

definition source_resolve :: "ip_env \<Rightarrow> 'json subdomain_config \<Rightarrow> inet_address list result option" where
  "source_resolve env cfg =
     (let family = type_to_family (sub_type cfg) in
      case sub_ip_source cfg of
        INTERFACE \<Rightarrow> Some (iface_resolve env (sub_interface cfg) family)
      | HTTP \<Rightarrow> Some (http_resolve env (sub_ip_source_param cfg) family (sub_interface cfg))
      | MDNS \<Rightarrow> resolve_mdns (ie_lib env) (ie_mdns env) (sub_ip_source_param cfg) (sub_type cfg))"

section \<open>Lemmas\<close>

lemma mdns_addresses_family:
  "a \<in> set (mdns_addresses lib type recs) \<Longrightarrow> get_family a = (if type = Kind_A then IPV4 else IPV6)"
  by (auto simp: mdns_addresses_def List.map_filter_def split: if_splits)

lemma recv_and_parse_ok:
  assumes "recv_and_parse lib env type = Some (Inr as)"
  shows "as \<noteq> [] \<and> (\<forall>a\<in>set as. get_family a = (if type = Kind_A then IPV4 else IPV6))"
  using assms mdns_addresses_family
  by (auto simp: recv_and_parse_def Let_def split: option.splits sum.splits if_splits)

lemma resolve_mdns_ok: "resolve_mdns lib env hostname type = Some (Inr as) \<Longrightarrow> recv_and_parse lib env type = Some (Inr as)"
  by (auto simp: resolve_mdns_def split: option.splits sum.splits if_splits)

lemma resolve_mdns_returns:
  assumes "\<not> set (mn_send env) \<subseteq> {Inl EINTR}" "\<not> set (mn_poll env) \<subseteq> {Inl EINTR}" "\<not> set (mn_recv env) \<subseteq> {Inl EINTR}"
  shows "resolve_mdns lib env hostname type \<noteq> None"
  using assms
  by (auto simp: resolve_mdns_def recv_and_parse_def send_loop_def wait_for_def recv_def Let_def eintr_retry_None [symmetric]
      split: option.splits sum.splits if_splits poll_ret.splits)

section \<open>Properties\<close>

text \<open>C34. An interface or multicast-DNS source yields only addresses of the family its record type needs:
  IPv4 for A and IPv6 for AAAA, whatever the interface carries and the network answers; and multicast DNS
  yields at least one.\<close>

theorem local_sources_keep_family:
  assumes "source_resolve env cfg = Some (Inr as)" "sub_ip_source cfg \<noteq> HTTP" "sub_type cfg \<noteq> Kind_TXT"
  shows "(\<forall>a\<in>set as. get_family a = type_to_family (sub_type cfg)) \<and> (sub_ip_source cfg = MDNS \<longrightarrow> as \<noteq> [])"
proof (cases "sub_ip_source cfg")
  case INTERFACE
  with assms show ?thesis
    by (cases "sub_type cfg") (auto simp: source_resolve_def iface_resolve_def Let_def)
next
  case MDNS
  with assms have "recv_and_parse (ie_lib env) (ie_mdns env) (sub_type cfg) = Some (Inr as)"
    by (auto simp: source_resolve_def Let_def dest: resolve_mdns_ok)
  from recv_and_parse_ok [OF this] assms(3) show ?thesis by (cases "sub_type cfg") auto
qed (use assms in simp)

definition sample_sub :: "ip_source \<Rightarrow> unit subdomain_config" where
  "sample_sub src = \<lparr>sub_name = ''www'', sub_type = Kind_A, sub_interface = ''eth0'', sub_ip_type = IPV4,
     sub_ip_source = src, sub_ip_source_param = ''http://h/'', allow_ula = False, allow_local_link = False,
     sub_update_interval = 0, driver_param = ()\<rparr>"

definition sample_ip_env :: ip_env where
  "sample_ip_env = \<lparr>ie_lib = letters_lib,
     ie_interfaces = \<lambda>_. Some [V6 \<lparr>v6_addr = replicate 16 1, v6_scope_id = 0\<rparr>, V4 \<lparr>v4_addr = [10, 0, 0, 1]\<rparr>],
     ie_http = \<lambda>_ _ _. Some (''  '' @ CHR ''s'' # replicate 32 (CHR ''B'')),
     ie_mdns = \<lparr>mn_socket = True, mn_bind = True, mn_join = True, mn_send = [], mn_poll = [], mn_recv = []\<rparr>\<rparr>"

theorem local_sources_keep_family_witness:
  "source_resolve sample_ip_env (sample_sub INTERFACE) = Some (Inr [V4 \<lparr>v4_addr = [10, 0, 0, 1]\<rparr>]) \<and>
   get_family (V4 \<lparr>v4_addr = [10, 0, 0, 1]\<rparr>) = type_to_family (sub_type (sample_sub INTERFACE))"
proof -
  have r: "source_resolve sample_ip_env (sample_sub INTERFACE) = Some (Inr [V4 \<lparr>v4_addr = [10, 0, 0, 1]\<rparr>])"
    by (simp add: source_resolve_def sample_sub_def sample_ip_env_def iface_resolve_def get_addresses_def)
  from local_sources_keep_family [OF this] r show ?thesis by (simp add: sample_sub_def)
qed

text \<open>An HTTP source has no such guarantee: the client connects over the family of the record type, but
  any address in the body is taken. When the service reports an IPv6 address for an A record, the update
  hands that address to the driver as the value of the A record.\<close>

theorem http_source_publishes_other_family:
  assumes "uri_parse (ie_lib env) (sub_ip_source_param cfg) = Inr u" "sub_ip_source cfg = HTTP" "sub_type cfg = Kind_A"
    and "ie_http env IPV4 (if sub_interface cfg = [] then None else Some (sub_interface cfg)) (sub_ip_source_param cfg) = Some body"
    and "inet_parse (ie_lib env) (trim body) = Some (V6 a)"
    and "source_resolve env cfg = Some (env_ip_source uenv cfg)" "task_config task = cfg" "task_force_update task"
  shows "\<exists>params ctx. executions (fst (process uenv task)) = [(params, ctx)] \<and> p_rd_type ctx = ''A'' \<and>
    p_ip_addr ctx = inet_to_string (env_lib uenv) (V6 a)"
proof -
  have "env_ip_source uenv cfg = Inr [V6 a]"
    using assms(1-6) by (simp add: source_resolve_def http_resolve_def)
  then show ?thesis
    using assms(3,7,8) by (simp add: process_def resolve_local_address_def run_driver_def build_update_context_def Let_def)
qed

definition sample_update :: "unit update_env" where
  "sample_update = \<lparr>env_lib = letters_lib, env_dump = \<lambda>_. None,
     env_ip_source = \<lambda>_. Inr [V6 \<lparr>v6_addr = replicate 16 0x11, v6_scope_id = 0\<rparr>],
     env_dispatcher = \<lambda>_ _. Inr (Inl RETRY), env_driver = \<lambda>_ _. Inr True\<rparr>"

definition sample_task :: "unit update_task" where
  "sample_task = \<lparr>task_config = sample_sub HTTP, task_domain_name = ''a.io'', task_driver_name = ''simple'',
     task_fqdn = ''www.a.io'', task_force_update = True\<rparr>"

theorem http_source_publishes_other_family_witness:
  "\<exists>params ctx. executions (fst (process sample_update sample_task)) = [(params, ctx)] \<and> p_rd_type ctx = ''A'' \<and>
    p_ip_addr ctx = inet_to_string letters_lib (V6 \<lparr>v6_addr = replicate 16 0x11, v6_scope_id = 0\<rparr>)"
proof -
  have "(case uri_parse letters_lib ''http://h/'' of Inl _ \<Rightarrow> False | Inr _ \<Rightarrow> True)" by code_simp
  then obtain u where u: "uri_parse (ie_lib sample_ip_env) (sub_ip_source_param (sample_sub HTTP)) = Inr u"
    by (auto simp: sample_ip_env_def sample_sub_def split: sum.splits)
  have a: "inet_parse letters_lib (trim (''  '' @ CHR ''s'' # replicate 32 (CHR ''B''))) =
      Some (V6 \<lparr>v6_addr = replicate 16 0x11, v6_scope_id = 0\<rparr>)" by code_simp
  have "source_resolve sample_ip_env (sample_sub HTTP) = Some (env_ip_source sample_update (sample_sub HTTP))"
    using u a by (simp add: source_resolve_def http_resolve_def sample_ip_env_def sample_sub_def sample_update_def)
  from http_source_publishes_other_family [OF u _ _ _ _ this, of "''  '' @ CHR ''s'' # replicate 32 (CHR ''B'')"
      "\<lparr>v6_addr = replicate 16 0x11, v6_scope_id = 0\<rparr>" sample_task] a
  show ?thesis by (simp add: sample_sub_def sample_ip_env_def sample_task_def sample_update_def)
qed

end
