(* ===== verification/Resolver_Contract.thy ===== *)
theory Resolver_Contract
  imports Dispatcher Classic_Resolver Dot_Resolver Doh_Resolver
begin

text \<open>
  What the dispatcher relies on of a resolver (\<^verbatim>\<open>src/dns/resolver/base.h\<close>): the bytes it returns are a
  response to the question it was asked, and it fails with an error code only. The interface is
  interpreted on the models of the three resolvers. In their views here the clock, the kernel, the random
  engine and the state of a shared connection are functions of the number of the query; a query that never
  returns, which takes a kernel that interrupts for ever, is seen as a timeout.
\<close>

definition asks :: "query_builder \<Rightarrow> string \<Rightarrow> record_kind \<Rightarrow> bool" where
  "asks b host type \<longleftrightarrow>
     qb_questions b = [\<lparr>pq_qname = host, pq_qtype = type_to_record_type type, pq_qclass = record_class_val Class_IN\<rparr>] \<and>
     (case qb_edns b of None \<Rightarrow> True | Some e \<Rightarrow> length (wire_options (ec_options e)) < 65536)"

definition asked_question :: "string \<Rightarrow> record_kind \<Rightarrow> question" where
  "asked_question host type = \<lparr>qname = canonical_name host, qtype = record_type_val (type_to_record_type type),
     qclass = record_class_val Class_IN\<rparr>"

locale validated_resolver =
  fixes query :: "nat \<Rightarrow> string \<Rightarrow> record_kind \<Rightarrow> (dns_error + byte list) result"
  assumes answers: "query k host type = Inr (Inr d) \<Longrightarrow>
      \<exists>b request. asks b host type \<and> build b = Inr request \<and> validate_response request d = Inr (Inr ())"
    and no_exception: "query k host type \<noteq> Inl x"
begin

lemma answer_echoes_question:
  assumes "query k host type = Inr (Inr d)" "decodable host" "parse_message d copy_rdata = Inr m"
  shows "m_qr m \<and> m_questions m = [asked_question host type]"
proof -
  obtain b request where b: "asks b host type" "build b = Inr request" "validate_response request d = Inr (Inr ())"
    using answers [OF assms(1)] by blast
  let ?q = "\<lparr>pq_qname = host, pq_qtype = type_to_record_type type, pq_qclass = record_class_val Class_IN\<rparr>"
  have q: "qb_questions b = [?q]" using b(1) by (simp add: asks_def)
  have "recoverable b"
    using b(1,2) assms(2) by (auto simp: recoverable_def asks_def build_spec split: if_splits)
  from validated_answers [OF this q b(2,3) assms(3)] show ?thesis by (simp add: sent_question_def asked_question_def)
qed

end

section \<open>The three resolvers\<close>

definition classic_resolver :: "(nat \<Rightarrow> u32) \<Rightarrow> (nat \<Rightarrow> udp_env) \<Rightarrow> (nat \<Rightarrow> tcp_env) \<Rightarrow> bool \<Rightarrow> resolver" where
  "classic_resolver eng udp tcp cancel k host type =
     (case classic_query (eng k) (udp k) (tcp k) cancel host type of Some r \<Rightarrow> r | None \<Rightarrow> Inr (Inl RETRY))"

definition dot_resolver ::
  "(nat \<Rightarrow> u32) \<Rightarrow> (nat \<Rightarrow> u32) \<Rightarrow> (nat \<Rightarrow> nat \<Rightarrow> byte) \<Rightarrow> (nat \<Rightarrow> nat \<Rightarrow> visit) \<Rightarrow> bool \<Rightarrow> (nat \<Rightarrow> persistent) \<Rightarrow> resolver" where
  "dot_resolver eng0 eng rnd vs cancel st k host type = fst (dot_query (eng0 k) (eng k) (rnd k) (vs k) cancel host type (st k))"

definition doh_resolver ::
  "(byte list \<Rightarrow> phr_result) \<Rightarrow> ('d \<Rightarrow> byte list \<Rightarrow> chunk_ret \<times> byte list \<times> 'd) \<Rightarrow> 'd \<Rightarrow> doh_config \<Rightarrow>
   (nat \<Rightarrow> u32) \<Rightarrow> (nat \<Rightarrow> nat \<Rightarrow> visit) \<Rightarrow> bool \<Rightarrow> (nat \<Rightarrow> persistent) \<Rightarrow> resolver" where
  "doh_resolver phr dec d0 cfg eng vs cancel st k host type =
     (case doh_query phr dec d0 cfg (eng k) (vs k) cancel host type (st k) of Some (r, _) \<Rightarrow> r | None \<Rightarrow> Inr (Inl RETRY))"

lemma build_query_asks:
  assumes "build_query eng host (type_to_record_type type) = Inr request"
  shows "\<exists>b. asks b host type \<and> build b = Inr request"
  using assms unfolding build_query_def
  by (intro exI conjI) (simp_all add: asks_def add_edns_def add_question_def QueryBuilder_def wire_options_def)

lemma padded_query_asks:
  assumes "build_padded_query eng0 eng rnd host (type_to_record_type type) = Inr request"
  shows "\<exists>b. asks b host type \<and> build b = Inr request"
proof -
  obtain padding where p: "build (padded_builder eng padding host (type_to_record_type type)) = Inr request" "length padding \<le> 128"
    using padded_packet [OF assms] by (elim exE conjE) (rule that)
  then show ?thesis
    by (intro exI conjI) (auto simp: asks_def padded_builder_def add_edns_def add_question_def QueryBuilder_def wire_options_def)
qed

lemma doh_attempt_validated:
  assumes "doh_attempt phr dec d0 cfg v attempt cancel q st = Some (Inr r, st')" "12 \<le> length q"
  shows "(\<exists>e. r = Inr (Inl e)) \<or> (\<exists>d. r = Inr (Inr d) \<and> validate_response q d = Inr (Inr ()))"
proof -
  have v: "validate_response q d \<noteq> Inl x" for d x using validate_response_total [OF assms(2), of d] by auto
  show ?thesis using assms(1)
    by (auto simp: doh_attempt_def Let_def v split: prod.splits option.splits sum.splits if_splits)
qed

lemma doh_attempts_validated:
  assumes "doh_attempts phr dec d0 cfg vs cancel q attempt st = Some (r, st')" "12 \<le> length q" "attempt < 2"
  shows "(\<exists>e. r = Inr (Inl e)) \<or> (\<exists>d. r = Inr (Inr d) \<and> validate_response q d = Inr (Inr ()))"
  using assms
proof (induction phr dec d0 cfg vs cancel q attempt st rule: doh_attempts.induct)
  case (1 phr dec d0 cfg vs cancel q attempt st)
  then obtain a st1 where a: "doh_attempt phr dec d0 cfg (vs attempt) attempt cancel q st = Some (a, st1)"
    by (subst (asm) (2) doh_attempts.simps) (auto split: option.splits)
  show ?case
  proof (cases a)
    case (Inl e)
    with 1 a show ?thesis by (subst (asm) (2) doh_attempts.simps) (auto split: if_splits)
  next
    case (Inr r')
    with "1.prems" a have "r' = r" by (subst (asm) doh_attempts.simps) simp
    with doh_attempt_validated [OF a [unfolded Inr] "1.prems"(2)] show ?thesis by simp
  qed
qed

interpretation classic: validated_resolver "classic_resolver eng udp tcp cancel"
proof
  fix k host type d
  assume "classic_resolver eng udp tcp cancel k host type = Inr (Inr d)"
  then have "classic_query (eng k) (udp k) (tcp k) cancel host type = Some (Inr (Inr d))"
    by (simp add: classic_resolver_def split: option.splits)
  from classic_query_sound [OF this] build_query_asks
  show "\<exists>b request. asks b host type \<and> build b = Inr request \<and> validate_response request d = Inr (Inr ())" by blast
next
  fix k host type x
  show "classic_resolver eng udp tcp cancel k host type \<noteq> Inl x"
    using classic_query_sound [of "eng k" "udp k" "tcp k" cancel host type]
    by (cases "classic_query (eng k) (udp k) (tcp k) cancel host type") (auto simp: classic_resolver_def)
qed

interpretation dot: validated_resolver "dot_resolver eng0 eng rnd vs cancel st"
proof
  fix k host type d
  assume "dot_resolver eng0 eng rnd vs cancel st k host type = Inr (Inr d)"
  then obtain st' where "dot_query (eng0 k) (eng k) (rnd k) (vs k) cancel host type (st k) = (Inr (Inr d), st')"
    by (cases "dot_query (eng0 k) (eng k) (rnd k) (vs k) cancel host type (st k)") (simp add: dot_resolver_def)
  from dot_query_sound [OF this] padded_query_asks
  show "\<exists>b request. asks b host type \<and> build b = Inr request \<and> validate_response request d = Inr (Inr ())" by blast
next
  fix k host type x
  show "dot_resolver eng0 eng rnd vs cancel st k host type \<noteq> Inl x"
    using dot_query_sound [of "eng0 k" "eng k" "rnd k" "vs k" cancel host type "st k"]
    by (cases "dot_query (eng0 k) (eng k) (rnd k) (vs k) cancel host type (st k)") (auto simp: dot_resolver_def)
qed

lemma doh_query_validated:
  assumes "doh_query phr dec d0 cfg eng vs cancel host type st = Some (r, st')"
  shows "(\<exists>e. r = Inr (Inl e)) \<or>
    (\<exists>q d. r = Inr (Inr d) \<and> build_query eng host (type_to_record_type type) = Inr q \<and> validate_response q d = Inr (Inr ()))"
proof (cases "build_query eng host (type_to_record_type type)")
  case (Inl x)
  then have "x = DnsPacketException" by (simp add: build_query_def build_spec split: if_splits)
  with Inl assms show ?thesis by (auto simp: doh_query_def catch_doh_def)
next
  case (Inr q)
  have l: "12 \<le> length q" using Inr by (simp add: build_query_def build_length)
  from Inr assms obtain r0 where "doh_attempts phr dec d0 cfg vs cancel q 0 st = Some (r0, st')" "r = catch_doh r0"
    by (auto simp: doh_query_def)
  with doh_attempts_validated [OF this(1) l] Inr show ?thesis by (auto simp: catch_doh_def)
qed

interpretation doh: validated_resolver "doh_resolver phr dec d0 cfg eng vs cancel st"
proof
  fix k host type d
  assume "doh_resolver phr dec d0 cfg eng vs cancel st k host type = Inr (Inr d)"
  then obtain st' where "doh_query phr dec d0 cfg (eng k) (vs k) cancel host type (st k) = Some (Inr (Inr d), st')"
    by (auto simp: doh_resolver_def split: option.splits)
  from doh_query_validated [OF this] build_query_asks
  show "\<exists>b request. asks b host type \<and> build b = Inr request \<and> validate_response request d = Inr (Inr ())" by blast
next
  fix k host type x
  show "doh_resolver phr dec d0 cfg eng vs cancel st k host type \<noteq> Inl x"
    using doh_query_validated [of phr dec d0 cfg "eng k" "vs k" cancel host type "st k"]
    by (cases "doh_query phr dec d0 cfg (eng k) (vs k) cancel host type (st k)") (auto simp: doh_resolver_def)
qed

text \<open>A resolver of the program; the state of the chunk decoder is the four numbers of
  \<^verbatim>\<open>phr_chunked_decoder\<close>.\<close>

type_synonym chunked_decoder = "nat \<times> nat \<times> nat \<times> nat"

inductive program_resolver :: "resolver \<Rightarrow> bool" where
  classic: "program_resolver (classic_resolver eng udp tcp cancel)"
| dot: "program_resolver (dot_resolver eng0 eng rnd vs cancel st)"
| doh: "program_resolver (doh_resolver phr dec (d0 :: chunked_decoder) cfg eng vs cancel st)"

lemma program_resolver_question:
  assumes "program_resolver x" "x k host type = Inr (Inr d)" "decodable host" "parse_message d copy_rdata = Inr m"
  shows "m_qr m \<and> m_questions m = [asked_question host type]"
  using assms
  by cases (auto dest: classic.answer_echoes_question dot.answer_echoes_question doh.answer_echoes_question)

lemma parse_strings_message: "parse_strings lib d = Inr f \<Longrightarrow> \<exists>m. parse_message d False = Inr m \<and> m_rcode m = fmt_rcode f"
  by (auto simp: parse_strings_def)

end
