(* ===== verification/Resolver_Factory.thy ===== *)
theory Resolver_Factory
  imports Resolver_Contract Config_Validator
begin

text \<open>
  The resolvers of a configuration (\<^verbatim>\<open>src/dns/resolver_registry.cpp\<close>, \<^verbatim>\<open>src/dns/factory.cpp\<close> and the
  registrations at the end of each resolver). A resolver object is what its constructor stores. The default
  server is chosen when the program is built, and the build checks that it is an IP address.
\<close>

datatype resolver_instance =
    ClassicInst dns_server socket_addr
  | DotInst string u16 string
  | DohInst string u16 string string

type_synonym factory_fn = "dns_server \<Rightarrow> resolver_instance result"
type_synonym registry = "string \<rightharpoonup> factory_fn"

section \<open>Registry\<close>

definition register_factory :: "string \<Rightarrow> factory_fn \<Rightarrow> registry \<Rightarrow> registry" where
  "register_factory schema factory reg = reg(schema \<mapsto> factory)"

definition registry_create :: "inet_lib \<Rightarrow> registry \<Rightarrow> dns_server \<Rightarrow> resolver_instance result" where
  "registry_create lib reg server =
     bindE (uri_parse lib (srv_address server)) (\<lambda>u.
     let schema = get_schema u;
         it = reg schema;
         it = (if it = None \<and> schema = [] then reg [] else it)
     in case it of
          None \<Rightarrow> Inl (DnsLookupException CONFIG)
        | Some factory \<Rightarrow> factory server)"

section \<open>The registered factories\<close>

definition classic_factory :: "inet_lib \<Rightarrow> factory_fn" where
  "classic_factory lib server =
     bindE (uri_parse lib (srv_address server)) (\<lambda>_.
     bindE (make_addr lib server) (\<lambda>addr. Inr (ClassicInst server addr)))"

definition dot_factory :: "inet_lib \<Rightarrow> factory_fn" where
  "dot_factory lib server =
     bindE (uri_parse lib (srv_address server)) (\<lambda>u.
     bindE (get_port u) (\<lambda>port.
     bindE (get_origin u) (\<lambda>label.
     Inr (DotInst (get_host u) (word_of_int port) label))))"

definition doh_factory :: "inet_lib \<Rightarrow> factory_fn" where
  "doh_factory lib server =
     bindE (uri_parse lib (srv_address server)) (\<lambda>u.
     bindE (get_port u) (\<lambda>p.
     let port = word_of_int (if p \<noteq> 0 then p else 443);
         path = (if get_path u = [] then ''/'' else get_path u)
     in bindE (get_origin u) (\<lambda>label. Inr (DohInst (get_host u) port path label))))"

text \<open>The order of the static registrations is open, and does not matter.\<close>

definition factories :: "inet_lib \<Rightarrow> registry" where
  "factories lib =
     register_factory ''https'' (doh_factory lib) (register_factory ''tls'' (dot_factory lib)
       (register_factory [] (classic_factory lib) Map.empty))"

section \<open>The dispatcher of a configuration\<close>

definition dns_servers :: "dns_server \<Rightarrow> resolver_config \<Rightarrow> dns_server list" where
  "dns_servers dflt r =
     (let servers =
        (if use_custom_server r then
           if res_servers r \<noteq> [] then res_servers r
           else if res_address r \<noteq> [] then [\<lparr>srv_address = res_address r, srv_port = res_port r\<rparr>]
           else []
         else [])
      in if servers = [] then [dflt] else servers)"

text \<open>The log line after each construction prints the origin of the address, or its host if it has no scheme.\<close>

definition create_logged :: "inet_lib \<Rightarrow> dns_server \<Rightarrow> resolver_instance result" where
  "create_logged lib server =
     bindE (registry_create lib (factories lib) server) (\<lambda>r.
     bindE (uri_parse lib (srv_address server)) (\<lambda>u.
     bindE (if get_schema u = [] then Inr (get_host_literal u) else get_origin u) (\<lambda>_.
     Inr r)))"

definition factory_create :: "inet_lib \<Rightarrow> dns_server \<Rightarrow> 'json app_config \<Rightarrow> (resolver_instance list \<times> resolver_strategy) result" where
  "factory_create lib dflt cfg =
     bindE (mapE (create_logged lib) (dns_servers dflt (cfg_resolver cfg))) (\<lambda>resolvers.
     Inr (resolvers, res_strategy (cfg_resolver cfg)))"

section \<open>Querying an instance\<close>

text \<open>What the surroundings of a resolver give its queries, by the number of the query.\<close>

record resolver_world =
  rw_engine :: "nat \<Rightarrow> u32"
  rw_engine0 :: "nat \<Rightarrow> u32"
  rw_padding :: "nat \<Rightarrow> nat \<Rightarrow> byte"
  rw_udp :: "nat \<Rightarrow> udp_env"
  rw_tcp :: "nat \<Rightarrow> tcp_env"
  rw_visits :: "nat \<Rightarrow> nat \<Rightarrow> visit"
  rw_conn :: "nat \<Rightarrow> persistent"
  rw_phr :: "byte list \<Rightarrow> phr_result"
  rw_chunks :: "chunked_decoder \<Rightarrow> byte list \<Rightarrow> chunk_ret \<times> byte list \<times> chunked_decoder"
  rw_decoder :: chunked_decoder
  rw_version :: string
  rw_cancel :: bool

fun instance_resolver :: "resolver_world \<Rightarrow> resolver_instance \<Rightarrow> resolver" where
  "instance_resolver w (ClassicInst server addr) = classic_resolver (rw_engine w) (rw_udp w) (rw_tcp w) (rw_cancel w)"
| "instance_resolver w (DotInst host port label) =
     dot_resolver (rw_engine0 w) (rw_engine w) (rw_padding w) (rw_visits w) (rw_cancel w) (rw_conn w)"
| "instance_resolver w (DohInst host port path label) =
     doh_resolver (rw_phr w) (rw_chunks w) (rw_decoder w)
       \<lparr>doh_server = host, doh_port = port, doh_path = path, doh_version = rw_version w\<rparr>
       (rw_engine w) (rw_visits w) (rw_cancel w) (rw_conn w)"

lemma instance_is_program_resolver: "program_resolver (instance_resolver w inst)"
  by (cases inst) (simp_all add: program_resolver.intros)

text \<open>The resolvers of a dispatcher, each in surroundings of its own.\<close>

definition instance_resolvers :: "(nat \<Rightarrow> resolver_world) \<Rightarrow> resolver_instance list \<Rightarrow> resolver list" where
  "instance_resolvers w insts = map (\<lambda>(i, inst). instance_resolver (w i) inst) (enumerate 0 insts)"

lemma instance_resolvers_program: "\<forall>x\<in>set (instance_resolvers w insts). program_resolver x"
  by (auto simp: instance_resolvers_def instance_is_program_resolver)

lemma length_instance_resolvers [simp]: "length (instance_resolvers w insts) = length insts"
  by (simp add: instance_resolvers_def)

section \<open>What validation guarantees of the construction\<close>

fun inst_schema :: "resolver_instance \<Rightarrow> string" where
  "inst_schema (ClassicInst _ _) = []"
| "inst_schema (DotInst _ _ _) = ''tls''"
| "inst_schema (DohInst _ _ _ _) = ''https''"

definition schema_of :: "inet_lib \<Rightarrow> string \<Rightarrow> string" where
  "schema_of lib address = (case uri_parse lib address of Inl _ \<Rightarrow> [] | Inr u \<Rightarrow> get_schema u)"

lemma factories_simps [simp]:
  "factories lib [] = Some (classic_factory lib)" "factories lib ''tls'' = Some (dot_factory lib)"
  "factories lib ''https'' = Some (doh_factory lib)"
  "schema \<notin> {[], ''tls'', ''https''} \<Longrightarrow> factories lib schema = None"
  by (simp_all add: factories_def register_factory_def)

definition buildable :: "inet_lib \<Rightarrow> dns_server \<Rightarrow> bool" where
  "buildable lib server =
     (case uri_parse lib (srv_address server) of
        Inl _ \<Rightarrow> False
      | Inr u \<Rightarrow> get_schema u = ''tls'' \<or> get_schema u = ''https'' \<or>
          get_schema u = [] \<and> inet_parse lib (srv_address server) \<noteq> None)"

lemma create_logged_outcome:
  "case create_logged lib server of
     Inl e \<Rightarrow> e \<in> {RuntimeError, DnsLookupException CONFIG} \<and> \<not> buildable lib server
   | Inr inst \<Rightarrow> buildable lib server \<and> inst_schema inst = schema_of lib (srv_address server)"
proof (cases "uri_parse lib (srv_address server)")
  case (Inl e)
  with uri_parse_error [OF Inl] show ?thesis by (simp add: create_logged_def registry_create_def buildable_def)
next
  case (Inr u)
  have p: "\<exists>p. uri_port u = Some p" if "get_schema u \<noteq> []" using uri_port_None_bare [OF Inr] that by fastforce
  note d = create_logged_def registry_create_def buildable_def schema_of_def Let_def Inr
  consider "get_schema u = []" | "get_schema u = ''tls''" | "get_schema u = ''https''" | "get_schema u \<notin> {[], ''tls'', ''https''}"
    by blast
  then show ?thesis
  proof cases
    case 1
    then show ?thesis by (simp add: d classic_factory_def make_addr_def split: option.splits)
  next
    case 2
    with p show ?thesis by (auto simp: d dot_factory_def get_port_def get_origin_def)
  next
    case 3
    with p show ?thesis by (auto simp: d doh_factory_def get_port_def get_origin_def)
  next
    case 4
    then show ?thesis by (auto simp: d)
  qed
qed

lemma mapE_outcome:
  assumes "\<And>x. case f x of Inl e \<Rightarrow> E e \<and> \<not> P x | Inr y \<Rightarrow> P x \<and> g y = h x"
  shows "case mapE f xs of Inl e \<Rightarrow> E e \<and> \<not> list_all P xs | Inr ys \<Rightarrow> list_all P xs \<and> map g ys = map h xs"
proof (induction xs)
  case (Cons x xs)
  with assms [of x] show ?case by (cases "f x"; cases "mapE f xs") auto
qed simp

text \<open>Validation leaves one way to fail: an IPv6 address with a zone that looks like a scheme.\<close>

lemma validated_server_buildable:
  assumes "resolver_address_ok lib (srv_address server)" "schema_of lib (srv_address server) \<in> {[], ''tls'', ''https''}"
  shows "buildable lib server"
  using assms by (auto simp: resolver_address_ok_def buildable_def schema_of_def split: sum.splits if_splits)

lemma factory_create_outcome:
  "case factory_create lib dflt cfg of
     Inl e \<Rightarrow> e \<in> {RuntimeError, DnsLookupException CONFIG} \<and>
       \<not> list_all (buildable lib) (dns_servers dflt (cfg_resolver cfg))
   | Inr (insts, strategy) \<Rightarrow> list_all (buildable lib) (dns_servers dflt (cfg_resolver cfg)) \<and>
       map inst_schema insts = map (\<lambda>s. schema_of lib (srv_address s)) (dns_servers dflt (cfg_resolver cfg)) \<and>
       insts \<noteq> [] \<and> strategy = res_strategy (cfg_resolver cfg)"
proof -
  have "dns_servers dflt (cfg_resolver cfg) \<noteq> []" by (simp add: dns_servers_def Let_def)
  moreover note mapE_outcome [where f = "create_logged lib" and E = "\<lambda>e. e \<in> {RuntimeError, DnsLookupException CONFIG}" and
      P = "buildable lib" and g = inst_schema and h = "\<lambda>s. schema_of lib (srv_address s)" and
      xs = "dns_servers dflt (cfg_resolver cfg)", OF create_logged_outcome]
  ultimately show ?thesis by (auto simp: factory_create_def split: sum.splits)
qed

section \<open>Properties\<close>

text \<open>C20. The factory decides every configuration, validated or not (the manager calls it before it validates):
  it builds one resolver per server, in order and of the kind its scheme names, exactly when every address
  has the scheme tls or https, or has none and is an IP address; otherwise it throws the error of an
  unclosed bracket or the configuration error. It never reads a port that is not set.\<close>

theorem resolver_factory_decides:
  "case factory_create lib dflt cfg of
     Inl e \<Rightarrow> e \<in> {RuntimeError, DnsLookupException CONFIG} \<and>
       \<not> list_all (buildable lib) (dns_servers dflt (cfg_resolver cfg))
   | Inr (insts, strategy) \<Rightarrow> list_all (buildable lib) (dns_servers dflt (cfg_resolver cfg)) \<and>
       map inst_schema insts = map (\<lambda>s. schema_of lib (srv_address s)) (dns_servers dflt (cfg_resolver cfg)) \<and>
       insts \<noteq> [] \<and> strategy = res_strategy (cfg_resolver cfg)"
  by (rule factory_create_outcome)

text \<open>The port of a resolver URI is not kept in range: an address with port 65536 passes validation, which
  only asks that the port is not zero, and the resolver is built with port 0.\<close>

theorem validated_port_truncated:
  "validate_resolver_address letters_lib ''tls://h:65536'' = Inr () \<and>
   create_logged letters_lib \<lparr>srv_address = ''tls://h:65536'', srv_port = 53\<rparr> = Inr (DotInst ''h'' 0 ''tls://h:65536'')"
proof -
  have "parse_port ''65536'' = Some 65536"
    by (simp add: parse_port_def from_chars_int_def from_chars_nat_def dec_value_def digit_val_def is_digit_def)
  moreover have "inet6_parse letters_lib ''h:65536'' = None" by code_simp
  moreover have "int_string 65536 = ''65536''"
    by (simp add: int_string_def dec_string.simps dec_digit_def) code_simp
  ultimately show ?thesis
    by (simp add: validate_resolver_address_def create_logged_def registry_create_def dot_factory_def uri_parse_def
        strip_fragment_def detect_scheme_def find_elem_from_def authority_end_def path_slice_def query_slice_def substr_def
        parse_authority_def lowercase_range_def to_lower_def lower_table_def empty_uri_def get_schema_def get_host_def
        get_port_def get_origin_def get_host_literal_def slice_view_def is_default_port_def path_only_def Let_def)
qed

end
