(* ===== verification/Http_Client.thy ===== *)
theory Http_Client
  imports Uri_Model Http_Model "HOL-Library.Char_ord" "HOL-Library.List_Lexorder" "HOL-Library.Multiset"
begin

text \<open>
  The HTTP client of the drivers and of the HTTP address source (\<^verbatim>\<open>src/network/http_client.cpp\<close>,
  \<^verbatim>\<open>include/interface/http_client.h\<close>) and the search for a CA bundle (\<^verbatim>\<open>src/util/cert_util.cpp\<close>).
  cpp-httplib is a library: a client is the record of what was set on it, and the argument \<open>send\<close> gives
  what it answers to a call. The file system and the environment are the record \<open>ca_env\<close>; a lookup
  \<^verbatim>\<open>std::filesystem::is_regular_file\<close> may throw.
\<close>

section \<open>CA bundle\<close>

record ca_env =
  ssl_cert_file :: "string option"
  openssl_default_file :: "string option"
  is_regular_file :: "string \<Rightarrow> bool result"

definition SEARCH_PATHS :: "string list" where
  "SEARCH_PATHS =
     [''/etc/ssl/certs/ca-certificates.crt'',
      ''/etc/pki/ca-trust/extracted/pem/tls-ca-bundle.pem'',
      ''/etc/ssl/ca-bundle.pem'',
      ''/usr/local/etc/openssl/cert.pem'',
      ''/opt/homebrew/etc/openssl/cert.pem'',
      ''/etc/pki/tls/certs/ca-bundle.crt'',
      ''/etc/pki/tls/cacert.pem'',
      ''/etc/ssl/cert.pem'',
      ''/usr/local/share/certs/ca-root-nss.crt'',
      ''/etc/ssl/cert.pem'',
      ''/etc/ssl/cert.pem'',
      ''/etc/openssl/certs/ca-certificates.crt'',
      ''/etc/openssl/cert.pem'']"

fun first_regular :: "ca_env \<Rightarrow> string list \<Rightarrow> string option result" where
  "first_regular env [] = Inr None"
| "first_regular env (p # ps) = bindE (is_regular_file env p) (\<lambda>ok. if ok then Inr (Some p) else first_regular env ps)"

definition get_hardcoded_paths :: "ca_env \<Rightarrow> string option result" where
  "get_hardcoded_paths env = first_regular env SEARCH_PATHS"

text \<open>The first call decides: the result is kept in a function-local static. The handler catches
  \<^verbatim>\<open>filesystem_error\<close>, the only exception of the search.\<close>

definition get_system_ca_path :: "ca_env \<Rightarrow> string option" where
  "get_system_ca_path env = (case get_hardcoded_paths env of Inl _ \<Rightarrow> None | Inr p \<Rightarrow> p)"

definition non_empty :: "string option \<Rightarrow> string option" where
  "non_empty s = (case s of Some p \<Rightarrow> if p = [] then None else Some p | None \<Rightarrow> None)"

definition tier :: "ca_env \<Rightarrow> string option \<Rightarrow> string option result \<Rightarrow> string option result" where
  "tier env candidate later =
     (case candidate of
        None \<Rightarrow> later
      | Some p \<Rightarrow> bindE (is_regular_file env p) (\<lambda>ok. if ok then Inr (Some p) else later))"

definition discover_ca_bundle :: "ca_env \<Rightarrow> string option result" where
  "discover_ca_bundle env =
     tier env (non_empty (ssl_cert_file env))
       (tier env (Some ''./ca.pem'')
         (tier env (non_empty (openssl_default_file env))
           (get_hardcoded_paths env)))"

section \<open>Options\<close>

record http_client_options =
  opt_address_family :: "address_family option"
  opt_interface :: "string option"
  opt_ca_cert_path :: "string option"
  opt_verify_server_cert :: "bool option"
  opt_connection_timeout :: "int option"
  opt_read_timeout :: "int option"
  opt_write_timeout :: "int option"
  opt_follow_location :: "bool option"
  opt_keep_alive :: "bool option"
  opt_default_headers :: "(string \<times> string) list option"

text \<open>What has been set on a \<^verbatim>\<open>httplib::Client\<close>; \<open>None\<close> leaves the library's default.\<close>

record httplib_client =
  cl_base_url :: string
  cl_ca_cert_path :: "string option"
  cl_verify :: "bool option"
  cl_interface :: "string option"
  cl_family :: "address_family option"
  cl_connection_timeout :: "int option"
  cl_read_timeout :: "int option"
  cl_write_timeout :: "int option"
  cl_follow_location :: "bool option"
  cl_keep_alive :: "bool option"
  cl_headers :: "(string \<times> string) list"

definition Client :: "string \<Rightarrow> httplib_client" where
  "Client base_url = \<lparr>cl_base_url = base_url, cl_ca_cert_path = None, cl_verify = None, cl_interface = None,
     cl_family = None, cl_connection_timeout = None, cl_read_timeout = None, cl_write_timeout = None,
     cl_follow_location = None, cl_keep_alive = None, cl_headers = []\<rparr>"

definition value_or :: "'a option \<Rightarrow> 'a \<Rightarrow> 'a" where
  "value_or x d = (case x of None \<Rightarrow> d | Some v \<Rightarrow> v)"

text \<open>\<^verbatim>\<open>version\<close> is \<^verbatim>\<open>YADDNSC::get_full_version()\<close>, which the build generates. Inserting into a multimap
  keeps the order of equal keys; the iteration order of distinct keys is the library's business.\<close>

definition apply_tls :: "ca_env \<Rightarrow> uri \<Rightarrow> http_client_options \<Rightarrow> httplib_client \<Rightarrow> httplib_client result" where
  "apply_tls env u opts c =
     (if get_schema u = ''https'' then
        bindE (case opt_ca_cert_path opts of Some p \<Rightarrow> Inr (Some p) | None \<Rightarrow> discover_ca_bundle env) (\<lambda>ca_path.
        Inr (case ca_path of
               None \<Rightarrow> c
             | Some p \<Rightarrow> c\<lparr>cl_ca_cert_path := Some p, cl_verify := Some (value_or (opt_verify_server_cert opts) True)\<rparr>))
      else Inr c)"

definition apply_options ::
  "ca_env \<Rightarrow> string \<Rightarrow> uri \<Rightarrow> http_client_options \<Rightarrow> httplib_client \<Rightarrow> httplib_client result" where
  "apply_options env version u opts client =
     bindE (apply_tls env u opts client) (\<lambda>c.
     let c = (case opt_interface opts of
                None \<Rightarrow> c
              | Some i \<Rightarrow> if i = [] then c else c\<lparr>cl_interface := Some i\<rparr>);
         c = c\<lparr>cl_family := Some (value_or (opt_address_family opts) UNSPECIFIED)\<rparr>;
         c = c\<lparr>cl_connection_timeout := Some (value_or (opt_connection_timeout opts) 5),
               cl_read_timeout := Some (value_or (opt_read_timeout opts) 5)\<rparr>;
         c = (case opt_write_timeout opts of None \<Rightarrow> c | Some t \<Rightarrow> c\<lparr>cl_write_timeout := Some t\<rparr>);
         c = c\<lparr>cl_follow_location := Some (value_or (opt_follow_location opts) True)\<rparr>;
         c = (case opt_keep_alive opts of None \<Rightarrow> c | Some k \<Rightarrow> c\<lparr>cl_keep_alive := Some k\<rparr>)
     in Inr (c\<lparr>cl_headers := (''User-Agent'', version) # value_or (opt_default_headers opts) []\<rparr>))"

section \<open>Exchanges\<close>

record client_response =
  cr_status :: int
  cr_body :: string
  cr_headers :: "(string \<times> string) list"

type_synonym http_result = "string + client_response"

datatype httplib_call =
    Call_Get string "(string \<times> string) list"
  | Call_Post string "(string \<times> string) list" string string
  | Call_Put string "(string \<times> string) list" string string
  | Call_Delete string "(string \<times> string) list"
  | Call_Patch string "(string \<times> string) list" string string
  | Call_Head string "(string \<times> string) list"
  | Call_Options string "(string \<times> string) list"

type_synonym httplib = "httplib_client \<Rightarrow> httplib_call \<Rightarrow> http_result"

definition client_build_request :: "uri \<Rightarrow> string" where
  "client_build_request u = (if get_query_string u = [] then get_path u else get_path u @ ''?'' @ get_query_string u)"

definition build_base_url :: "uri \<Rightarrow> string result" where
  "build_base_url u = bindE (get_port u) (\<lambda>port. Inr (get_schema u @ ''://'' @ get_host u @ '':'' @ int_string port))"

definition dispatch_call :: "string \<Rightarrow> http_request \<Rightarrow> httplib_call" where
  "dispatch_call path req =
     (let headers = req_headers req; body = value_or (req_body req) []; ct = content_type req in
      case req_method req of
        GET \<Rightarrow> Call_Get path headers
      | POST \<Rightarrow> Call_Post path headers body ct
      | PUT \<Rightarrow> Call_Put path headers body ct
      | DEL \<Rightarrow> Call_Delete path headers
      | PATCH \<Rightarrow> Call_Patch path headers body ct
      | HEAD \<Rightarrow> Call_Head path headers
      | OPTIONS \<Rightarrow> Call_Options path headers)"

text \<open>The path is passed as a C string.\<close>

definition do_exchange :: "httplib \<Rightarrow> httplib_client \<Rightarrow> uri \<Rightarrow> http_request \<Rightarrow> http_result" where
  "do_exchange send client u req = send client (dispatch_call (c_str (client_build_request u)) req)"

text \<open>A client is a function of the URL and the request; it may throw what the parser and the search throw.\<close>

type_synonym http_client = "string \<Rightarrow> http_request \<Rightarrow> http_result result"

definition transient_exchange ::
  "inet_lib \<Rightarrow> ca_env \<Rightarrow> string \<Rightarrow> httplib \<Rightarrow> http_client_options \<Rightarrow> http_client" where
  "transient_exchange lib env version send opts url req =
     bindE (uri_parse lib url) (\<lambda>u.
     bindE (build_base_url u) (\<lambda>base.
     bindE (apply_options env version u opts (Client base)) (\<lambda>client.
     Inr (do_exchange send client u req))))"

record persistent_client =
  pc_uri :: uri
  pc_client :: httplib_client

definition PersistentHttpClient :: "ca_env \<Rightarrow> string \<Rightarrow> uri \<Rightarrow> http_client_options \<Rightarrow> persistent_client result" where
  "PersistentHttpClient env version u opts =
     bindE (build_base_url u) (\<lambda>base.
     bindE (apply_options env version u opts (Client base)) (\<lambda>client.
     Inr \<lparr>pc_uri = u, pc_client = client\<lparr>cl_keep_alive := Some (value_or (opt_keep_alive opts) True)\<rparr>\<rparr>))"

definition persistent_exchange :: "inet_lib \<Rightarrow> httplib \<Rightarrow> persistent_client \<Rightarrow> http_client" where
  "persistent_exchange lib send pc url req =
     bindE (if url = [] then Inr (pc_uri pc) else uri_parse lib url) (\<lambda>target.
     Inr (do_exchange send (pc_client pc) target req))"

definition client_get_body :: "http_client \<Rightarrow> string \<Rightarrow> string option result" where
  "client_get_body client url =
     bindE (client url \<lparr>content_type = [], req_method = GET, req_headers = [], req_body = None\<rparr>) (\<lambda>resp.
     Inr (case resp of Inl _ \<Rightarrow> None | Inr r \<Rightarrow> Some (cr_body r)))"

text \<open>A \<^verbatim>\<open>std::multimap\<close> made from a list of pairs: sorted by key, pairs with equal keys in the order they
  were inserted.\<close>

definition multimap_of :: "(string \<times> string) list \<Rightarrow> (string \<times> string) list" where
  "multimap_of ps = sort_key fst ps"

text \<open>\<^verbatim>\<open>encode\<close> is \<^verbatim>\<open>httplib::encode_query_component\<close>; the pairs are in the order of the multimap.\<close>

definition params_to_query_string :: "(string \<Rightarrow> string) \<Rightarrow> (string \<times> string) list \<Rightarrow> string" where
  "params_to_query_string encode params = join (map (\<lambda>(k, v). encode k @ ''='' @ encode v) params) ''&''"

section \<open>URLs of a fixed host\<close>

text \<open>A host in lower case without a character that ends or splits the authority.\<close>

definition plain_host :: "string \<Rightarrow> bool" where
  "plain_host host = (host \<noteq> [] \<and> to_lower host = host \<and> list_all (\<lambda>c. c \<notin> set ''/?#:['') host)"

definition path_start :: "string \<Rightarrow> bool" where
  "path_start rest = (rest = [] \<or> hd rest = CHR ''/'' \<or> hd rest = CHR ''?'')"

lemma strip_fragment_prefix:
  assumes "CHR ''#'' \<notin> set p" shows "strip_fragment (p @ r) = p @ strip_fragment r"
  using assms find_elem_None_iff [of "CHR ''#''" p]
  by (auto simp: strip_fragment_def find_elem_append split: option.splits)

lemma path_start_strip: "path_start r \<Longrightarrow> path_start (strip_fragment r)"
  by (cases r) (auto simp: path_start_def strip_fragment_def split: option.splits if_splits)

lemma authority_of_plain_host:
  assumes "plain_host host" "path_start r" and u_def: "u = pre @ host @ r"
  shows "authority_end u (find_elem_from (CHR ''/'') u (length pre)) (find_elem_from (CHR ''?'') u (length pre)) =
    length pre + length host"
proof -
  have n: "find_elem (CHR ''/'') host = None" "find_elem (CHR ''?'') host = None"
    using assms(1) by (auto simp: find_elem_None_iff plain_host_def list_all_iff)
  show ?thesis
  proof (cases r)
    case Nil
    with n show ?thesis by (simp add: u_def authority_end_def find_elem_from_def)
  next
    case (Cons c r')
    with assms(2) have "c = CHR ''/'' \<or> c = CHR ''?''" by (simp add: path_start_def)
    with n Cons show ?thesis
      by (auto simp: u_def authority_end_def find_elem_from_def find_elem_append split: option.splits)
  qed
qed

lemma rfind_elem_notin: "c \<notin> set xs \<Longrightarrow> rfind_elem c xs = None"
  by (simp add: rfind_elem_None_iff)

lemma parse_plain_authority:
  assumes "plain_host host" shows "parse_authority lib host off = Inr (mk_slice off (length host), None, False)"
proof -
  have "host \<noteq> []" "CHR '':'' \<notin> set host" "hd host \<noteq> CHR ''[''"
    using assms by (auto simp: plain_host_def list_all_iff)
  then show ?thesis by (simp add: parse_authority_def rfind_elem_notin)
qed

lemma lowercase_range_middle: "lowercase_range (p @ m @ r) (length p) (length m) = p @ to_lower m @ r"
  by (simp add: lowercase_range_def substr_def)

lemma uri_parse_https:
  assumes "plain_host host" "path_start r"
  shows "\<exists>u. uri_parse lib (''https://'' @ host @ r) = Inr u \<and> get_schema u = ''https'' \<and> get_host u = host \<and>
    uri_port u = Some 443"
proof -
  let ?s = "''https://'' @ host @ r" and ?u = "''https://'' @ host @ strip_fragment r"
  have "CHR ''#'' \<notin> set (''https://'' @ host)" using assms(1) by (auto simp: plain_host_def list_all_iff)
  from strip_fragment_prefix [OF this, of r] have u: "strip_fragment ?s = ?u" by simp
  have d: "detect_scheme ?s ?u = (True, 8, ?s, mk_slice 0 5, mk_slice 8 (length ?u - 8))"
    by (simp add: detect_scheme_def lowercase_range_def substr_def to_lower_def lower_table_def)
  have l8: "length ''https://'' = 8" by simp
  have e: "authority_end ?u (find_elem_from (CHR ''/'') ?u 8) (find_elem_from (CHR ''?'') ?u 8) = 8 + length host"
    using authority_of_plain_host [OF assms(1) path_start_strip [OF assms(2)], of ?u "''https://''", OF refl, unfolded l8] .
  have a: "substr ?u 8 (length host) = host" by (simp add: substr_def)
  have l: "lowercase_range ?s 8 (length host) = ?s"
    using lowercase_range_middle [of "''https://''" host r, unfolded l8] assms(1) by (simp add: plain_host_def)
  have v: "substr ?s 0 5 = ''https''" "substr ?s 8 (length host) = host" "?s \<noteq> []" by (simp_all add: substr_def)
  have h: "length host \<noteq> 0" using assms(1) by (simp add: plain_host_def)
  define S U where "S = ?s" and "U = ?u"
  show ?thesis
    unfolding S_def [symmetric]
    using u [folded S_def U_def] d [folded S_def U_def] e [folded U_def] a [folded U_def] l [folded S_def]
      v [folded S_def] h
    by (simp add: uri_parse_def Let_def parse_plain_authority [OF assms(1)] get_schema_def get_host_def slice_view_def
        empty_uri_def lookup_default_port_def)
qed

lemma apply_options_tls:
  assumes "apply_options env version u opts c = Inr c'"
  obtains c1 where "apply_tls env u opts c = Inr c1" "cl_base_url c' = cl_base_url c1" "cl_verify c' = cl_verify c1"
  using assms
  by (cases "opt_interface opts"; cases "opt_write_timeout opts"; cases "opt_keep_alive opts")
     (auto simp: apply_options_def Let_def split: if_splits)

lemma apply_tls_outcome:
  assumes "apply_tls env u opts c = Inr c1"
  shows "cl_base_url c1 = cl_base_url c \<and> cl_verify c1 \<in> {cl_verify c, Some (value_or (opt_verify_server_cert opts) True)}"
  using assms by (auto simp: apply_tls_def split: option.splits if_splits)

lemma apply_options_base: "apply_options env version u opts c = Inr c' \<Longrightarrow> cl_base_url c' = cl_base_url c"
  by (metis apply_options_tls apply_tls_outcome)

lemma apply_options_verify:
  assumes "apply_options env version u opts c = Inr c'" "cl_verify c = None" "opt_verify_server_cert opts \<noteq> Some False"
  shows "cl_verify c' \<noteq> Some False"
proof -
  obtain c1 where "apply_tls env u opts c = Inr c1" "cl_verify c' = cl_verify c1" using assms(1) by (rule apply_options_tls)
  with apply_tls_outcome assms(2,3) show ?thesis by (fastforce simp: value_or_def split: option.splits)
qed

text \<open>A request for an https URL of a fixed host goes to that host, whatever follows the host in the URL,
  and the server certificate is not left unchecked unless the options say so.\<close>

lemma transient_exchange_https:
  assumes "plain_host host" "path_start r" "opt_verify_server_cert opts \<noteq> Some False"
    and "transient_exchange lib env version send opts (''https://'' @ host @ r) req = Inr res"
  shows "\<exists>client call. cl_base_url client = ''https://'' @ host @ '':443'' \<and> cl_verify client \<noteq> Some False \<and> res = send client call"
proof -
  obtain u where u: "uri_parse lib (''https://'' @ host @ r) = Inr u" "get_schema u = ''https''" "get_host u = host"
    "uri_port u = Some 443" using uri_parse_https [OF assms(1,2), of lib] by blast
  have base: "build_base_url u = Inr (''https://'' @ host @ '':443'')"
  proof -
    have "int_string 443 = ''443''" by code_simp
    then show ?thesis using u by (simp add: build_base_url_def get_port_def)
  qed
  from assms(4) u(1) base obtain client where c: "apply_options env version u opts (Client (''https://'' @ host @ '':443'')) = Inr client"
    "res = do_exchange send client u req" by (auto simp: transient_exchange_def simp del: append.simps)
  have "cl_base_url client = ''https://'' @ host @ '':443''" using apply_options_base [OF c(1)] by (simp add: Client_def)
  moreover have "cl_verify client \<noteq> Some False" by (rule apply_options_verify [OF c(1) _ assms(3)]) (simp add: Client_def)
  ultimately show ?thesis using c(2) unfolding do_exchange_def by blast
qed

lemma multimap_of_perm: "mset (multimap_of ps) = mset ps" and multimap_of_sorted: "sorted (map fst (multimap_of ps))"
  by (simp_all add: multimap_of_def)

end
