(* ===== verification/Driver_Base.thy ===== *)
theory Driver_Base
  imports Http_Client Updater
begin

text \<open>
  The part all drivers share (\<^verbatim>\<open>include/driver/base.h\<close>): a request is generated, exchanged and its response
  checked. A driver is its \<open>generate_request\<close> and its \<open>check_response\<close>. The JSON library is an argument:
  \<open>write_json\<close> prints a value, \<open>None\<close> where it reports an error, and the readers give the structures of a
  text, \<open>None\<close> where it does not have the keys or the types. What every driver of a provider promises
  is the interface \<open>provider\<close>: it contacts the provider's host over TLS only, whatever the configuration
  and the update say, and it fails with \<^verbatim>\<open>ParamParseException\<close> only.
\<close>

datatype json = JString string | JInt int | JBool bool | JNull | JObject "(string \<times> json) list"

fun json_int :: "int option \<Rightarrow> json" where
  "json_int None = JNull"
| "json_int (Some i) = JInt i"

type_synonym driver_request_context = "string \<times> http_request"

type_synonym generate = "string \<Rightarrow> driver_update_params \<Rightarrow> driver_request_context result"

definition parse_config :: "(string \<Rightarrow> 'params option) \<Rightarrow> string \<Rightarrow> 'params result" where
  "parse_config read config = (case read config of None \<Rightarrow> Inl ParamParseException | Some v \<Rightarrow> Inr v)"

definition execute :: "generate \<Rightarrow> (client_response \<Rightarrow> bool) \<Rightarrow> http_client \<Rightarrow> string \<Rightarrow> driver_update_params \<Rightarrow> bool result" where
  "execute generate_request check_response http config ctx =
     bindE (generate_request config ctx) (\<lambda>(url, request).
     bindE (http url request) (\<lambda>response.
     Inr (case response of Inl _ \<Rightarrow> False | Inr r \<Rightarrow> check_response r)))"

lemma parse_config_eq_Inr [simp]: "parse_config read config = Inr v \<longleftrightarrow> read config = Some v"
  by (simp add: parse_config_def split: option.splits)

lemma parse_config_eq_Inl [simp]: "parse_config read config = Inl e \<longleftrightarrow> read config = None \<and> e = ParamParseException"
  by (auto simp: parse_config_def split: option.splits)

text \<open>\<^verbatim>\<open>DriverRequest request{}\<close>: no content type, GET, no header, no body.\<close>

definition empty_request :: http_request where
  "empty_request = \<lparr>content_type = [], req_method = GET, req_headers = [], req_body = None\<rparr>"

definition write_or_empty :: "(json \<Rightarrow> string option) \<Rightarrow> json \<Rightarrow> string" where
  "write_or_empty write_json v = value_or (write_json v) ''{}''"

locale provider =
  fixes generate_request :: generate and hosts :: "string list"
  assumes plain: "list_all plain_host hosts"
    and contacts: "generate_request config ctx = Inr (url, request) \<Longrightarrow>
      \<exists>host\<in>set hosts. \<exists>r. path_start r \<and> url = ''https://'' @ host @ r"
    and rejects: "generate_request config ctx = Inl e \<Longrightarrow> e = ParamParseException"
begin

lemma execute_contacts_host:
  assumes "opt_verify_server_cert opts \<noteq> Some False"
    and "execute generate_request check (transient_exchange lib env version send opts) config ctx = Inr ok"
  shows "\<exists>host\<in>set hosts. \<exists>client call. cl_base_url client = ''https://'' @ host @ '':443'' \<and>
    cl_verify client \<noteq> Some False \<and> ok = (case send client call of Inl _ \<Rightarrow> False | Inr r \<Rightarrow> check r)"
proof -
  obtain url req res where g: "generate_request config ctx = Inr (url, req)"
    and x: "transient_exchange lib env version send opts url req = Inr res"
    and ok: "ok = (case res of Inl _ \<Rightarrow> False | Inr r \<Rightarrow> check r)"
    using assms(2) by (auto simp: execute_def)
  obtain host r where r: "host \<in> set hosts" "path_start r" "url = ''https://'' @ host @ r" using contacts [OF g] by blast
  have "plain_host host" using plain r(1) by (simp add: list_all_iff)
  from transient_exchange_https [OF this r(2) assms(1) x [unfolded r(3)]] ok r(1) show ?thesis by blast
qed

end

lemma path_start_simps [simp]:
  "path_start []" "path_start (CHR ''/'' # r)" "path_start (CHR ''?'' # r)" "path_start (c # r) \<longleftrightarrow> c = CHR ''/'' \<or> c = CHR ''?''"
  by (simp_all add: path_start_def)

end
