(* ===== verification/Provider_Drivers.thy ===== *)
theory Provider_Drivers
  imports Driver_Base
begin

text \<open>
  The drivers that authenticate with a token or a password (\<^verbatim>\<open>driver/*\<close>): the parameters each reads, the
  request it sends and the responses it accepts. \<open>read\<close> is the reader of the driver's parameters, \<open>wj\<close>
  the JSON printer. A response structure has the fields that decide; those that are only logged are left
  out.
\<close>

definition json_request :: "http_method \<Rightarrow> (string \<times> string) list \<Rightarrow> string \<Rightarrow> http_request" where
  "json_request m headers body =
     \<lparr>content_type = ''application/json'', req_method = m, req_headers = multimap_of headers, req_body = Some body\<rparr>"

section \<open>Cloudflare\<close>

record cloudflare_params =
  cf_zone_id :: string
  cf_record_id :: string
  cf_token :: string
  cf_ttl :: "int option"
  cf_proxied :: "bool option"

record cloudflare_response =
  cf_success :: bool

definition cloudflare_body :: "(json \<Rightarrow> string option) \<Rightarrow> cloudflare_params \<Rightarrow> driver_update_params \<Rightarrow> string" where
  "cloudflare_body wj cfg ctx = write_or_empty wj (JObject
     [(''type'', JString (p_rd_type ctx)), (''name'', JString (p_subdomain ctx)), (''content'', JString (p_ip_addr ctx)),
      (''ttl'', JInt (value_or (cf_ttl cfg) 30)), (''proxied'', JBool (value_or (cf_proxied cfg) False))])"

definition cloudflare_generate :: "(string \<Rightarrow> cloudflare_params option) \<Rightarrow> (json \<Rightarrow> string option) \<Rightarrow> generate" where
  "cloudflare_generate read wj config ctx =
     bindE (parse_config read config) (\<lambda>cfg.
     Inr (''https://'' @ ''api.cloudflare.com'' @ ''/client/v4/zones/'' @ cf_zone_id cfg @ ''/dns_records/'' @ cf_record_id cfg,
          json_request PUT [(''Authorization'', ''Bearer '' @ cf_token cfg)] (cloudflare_body wj cfg ctx)))"

definition cloudflare_check :: "(string \<Rightarrow> cloudflare_response option) \<Rightarrow> client_response \<Rightarrow> bool" where
  "cloudflare_check rj response = (case rj (cr_body response) of None \<Rightarrow> False | Some resp \<Rightarrow> cf_success resp)"

section \<open>DigitalOcean\<close>

record digital_ocean_params =
  do_record_id :: string
  do_token :: string

definition digital_ocean_generate :: "(string \<Rightarrow> digital_ocean_params option) \<Rightarrow> (json \<Rightarrow> string option) \<Rightarrow> generate" where
  "digital_ocean_generate read wj config ctx =
     bindE (parse_config read config) (\<lambda>cfg.
     Inr (''https://'' @ ''api.digitalocean.com'' @ ''/v2/domains/'' @ p_domain ctx @ ''/records/'' @ do_record_id cfg,
          json_request PUT [(''Authorization'', ''Bearer '' @ do_token cfg)]
            (write_or_empty wj (JObject [(''data'', JString (p_ip_addr ctx))]))))"

text \<open>\<open>rj\<close> tells whether the body is a \<^verbatim>\<open>DigitalOceanDomainResponse\<close>; an error response and an unreadable
  one differ in the log only.\<close>

definition digital_ocean_check :: "(string \<Rightarrow> bool) \<Rightarrow> client_response \<Rightarrow> bool" where
  "digital_ocean_check rj response = rj (cr_body response)"

section \<open>DNSPod\<close>

record dnspod_params =
  dp_domain_id :: string
  dp_record_id :: string
  dp_login_token :: string
  dp_record_line :: "string option"
  dp_record_line_id :: string
  dp_global :: bool

record dnspod_response =
  dp_status_code :: "string option"

text \<open>The default line of the Chinese service, in UTF-8.\<close>

definition default_line_cn :: string where
  "default_line_cn = [CHR 0xE9, CHR 0xBB, CHR 0x98, CHR 0xE8, CHR 0xAE, CHR 0xA4]"

definition dnspod_host :: "bool \<Rightarrow> string" where
  "dnspod_host global = (if global then ''api.dnspod.com'' else ''dnsapi.cn'')"

definition dnspod_generate :: "(string \<Rightarrow> string) \<Rightarrow> (string \<Rightarrow> dnspod_params option) \<Rightarrow> generate" where
  "dnspod_generate encode read config ctx =
     bindE (parse_config read config) (\<lambda>cfg.
     let record_line = value_or (dp_record_line cfg) (if dp_global cfg then ''default'' else default_line_cn);
         url = ''https://'' @ dnspod_host (dp_global cfg) @ ''/Record.Ddns''
     in Inr (url,
          \<lparr>content_type = ''application/x-www-form-urlencoded'', req_method = POST, req_headers = [],
           req_body = Some (params_to_query_string encode (multimap_of
             [(''login_token'', dp_login_token cfg), (''domain_id'', dp_domain_id cfg), (''record_id'', dp_record_id cfg),
              (''sub_domain'', p_subdomain ctx), (''record_type'', p_rd_type ctx), (''value'', p_ip_addr ctx),
              (''record_line'', record_line), (''record_line_id'', dp_record_line_id cfg), (''format'', ''json'')]))\<rparr>))"

definition dnspod_check :: "(string \<Rightarrow> dnspod_response option) \<Rightarrow> client_response \<Rightarrow> bool" where
  "dnspod_check rj response =
     (case rj (cr_body response) of
        None \<Rightarrow> False
      | Some resp \<Rightarrow> (case dp_status_code resp of None \<Rightarrow> False | Some code \<Rightarrow> code = ''1''))"

section \<open>DuckDNS\<close>

record duckdns_params =
  dd_token :: string
  dd_verbose :: "bool option"

definition duckdns_generate :: "(string \<Rightarrow> duckdns_params option) \<Rightarrow> generate" where
  "duckdns_generate read config ctx =
     bindE (parse_config read config) (\<lambda>cfg.
     let ip_param = (if p_rd_type ctx = ''AAAA'' then ''ipv6'' else ''ip'');
         url = ''https://'' @ ''www.duckdns.org'' @ ''/update?domains='' @ p_subdomain ctx @ ''&token='' @ dd_token cfg @
               ''&'' @ ip_param @ ''='' @ p_ip_addr ctx;
         url = (if value_or (dd_verbose cfg) False then url @ ''&verbose=true'' else url)
     in Inr (url, empty_request))"

definition duckdns_check :: "client_response \<Rightarrow> bool" where
  "duckdns_check response = starts_with (cr_body response) ''OK''"

section \<open>GoDaddy\<close>

record godaddy_params =
  gd_key :: string
  gd_secret :: string
  gd_ttl :: "int option"

definition godaddy_generate :: "(string \<Rightarrow> godaddy_params option) \<Rightarrow> (json \<Rightarrow> string option) \<Rightarrow> generate" where
  "godaddy_generate read wj config ctx =
     bindE (parse_config read config) (\<lambda>cfg.
     let url = ''https://'' @ ''api.godaddy.com'' @ ''/v1/domains/'' @ p_domain ctx @ ''/records/'' @ p_rd_type ctx @ ''/'' @
               p_subdomain ctx;
         body = JObject [(''data'', JString (p_ip_addr ctx)), (''ttl'', JInt (value_or (gd_ttl cfg) 600)),
                         (''type'', JString (p_rd_type ctx))]
     in Inr (url, json_request PUT [(''Authorization'', ''sso-key '' @ gd_key cfg @ '':'' @ gd_secret cfg)]
                    (''['' @ write_or_empty wj body @ '']'')))"

definition godaddy_check :: "client_response \<Rightarrow> bool" where
  "godaddy_check response = (cr_status response = 200)"

section \<open>Linode\<close>

record linode_params =
  ln_token :: string
  ln_domain_id :: string
  ln_record_id :: string
  ln_ttl_sec :: "int option"

definition linode_generate :: "(string \<Rightarrow> linode_params option) \<Rightarrow> (json \<Rightarrow> string option) \<Rightarrow> generate" where
  "linode_generate read wj config ctx =
     bindE (parse_config read config) (\<lambda>cfg.
     Inr (''https://'' @ ''api.linode.com'' @ ''/v4/domains/'' @ ln_domain_id cfg @ ''/records/'' @ ln_record_id cfg,
          json_request PUT [(''Authorization'', ''Bearer '' @ ln_token cfg)]
            (write_or_empty wj (JObject [(''name'', JString (p_subdomain ctx)), (''target'', JString (p_ip_addr ctx)),
               (''ttl_sec'', json_int (ln_ttl_sec cfg))]))))"

definition linode_check :: "client_response \<Rightarrow> bool" where
  "linode_check response = (cr_status response = 200)"

section \<open>Porkbun\<close>

record porkbun_params =
  pb_api_key :: string
  pb_secret_api_key :: string
  pb_ttl :: "int option"

record porkbun_response =
  pb_status :: string

definition porkbun_generate :: "(string \<Rightarrow> porkbun_params option) \<Rightarrow> (json \<Rightarrow> string option) \<Rightarrow> generate" where
  "porkbun_generate read wj config ctx =
     bindE (parse_config read config) (\<lambda>cfg.
     let subdomain = (if p_subdomain ctx = ''@'' \<or> p_subdomain ctx = [] then [] else p_subdomain ctx);
         url = ''https://'' @ ''api.porkbun.com'' @ ''/api/json/v3/dns/editByNameType/'' @ p_domain ctx @ ''/'' @ p_rd_type ctx @
               ''/'' @ subdomain;
         body = JObject [(''apikey'', JString (pb_api_key cfg)), (''secretapikey'', JString (pb_secret_api_key cfg)),
                         (''content'', JString (p_ip_addr ctx)), (''ttl'', json_int (pb_ttl cfg))]
     in Inr (url, json_request POST [(''X-API-Key'', pb_api_key cfg), (''X-Secret-API-Key'', pb_secret_api_key cfg)]
                    (write_or_empty wj body)))"

definition porkbun_check :: "(string \<Rightarrow> porkbun_response option) \<Rightarrow> client_response \<Rightarrow> bool" where
  "porkbun_check rj response = (case rj (cr_body response) of None \<Rightarrow> False | Some resp \<Rightarrow> pb_status resp = ''SUCCESS'')"

section \<open>Vultr\<close>

record vultr_params =
  vu_api_key :: string
  vu_record_id :: string
  vu_ttl :: "int option"

definition vultr_generate :: "(string \<Rightarrow> vultr_params option) \<Rightarrow> (json \<Rightarrow> string option) \<Rightarrow> generate" where
  "vultr_generate read wj config ctx =
     bindE (parse_config read config) (\<lambda>cfg.
     Inr (''https://'' @ ''api.vultr.com'' @ ''/v2/domains/'' @ p_domain ctx @ ''/records/'' @ vu_record_id cfg,
          json_request PATCH [(''Authorization'', ''Bearer '' @ vu_api_key cfg)]
            (write_or_empty wj (JObject [(''name'', JString (p_subdomain ctx)), (''data'', JString (p_ip_addr ctx)),
               (''ttl'', json_int (vu_ttl cfg))]))))"

definition vultr_check :: "client_response \<Rightarrow> bool" where
  "vultr_check response = (cr_status response = 204)"

section \<open>Simple\<close>

text \<open>The parameters are a generic JSON value; the members of an object are in its iteration order.\<close>

definition substitute :: "string \<Rightarrow> string \<Rightarrow> string \<Rightarrow> string" where
  "substitute key val url = replace_all url (''{'' @ key @ ''}'') val"

fun substitute_member :: "string \<times> json \<Rightarrow> string \<Rightarrow> string" where
  "substitute_member (key, JString val) url = (if key \<noteq> ''url'' then substitute key val url else url)"
| "substitute_member (key, _) url = url"

definition substitute_context :: "driver_update_params \<Rightarrow> string \<Rightarrow> string" where
  "substitute_context ctx url =
     substitute ''fqdn'' (p_fqdn ctx) (substitute ''subdomain'' (p_subdomain ctx) (substitute ''domain'' (p_domain ctx)
       (substitute ''rd_type'' (p_rd_type ctx) (substitute ''ip_addr'' (p_ip_addr ctx) url))))"

definition simple_generate :: "(string \<Rightarrow> json option) \<Rightarrow> generate" where
  "simple_generate read config ctx =
     bindE (parse_config read config) (\<lambda>full.
     case full of
       JObject obj \<Rightarrow>
         (case map_of obj ''url'' of
            Some (JString url) \<Rightarrow> Inr (substitute_context ctx (fold substitute_member obj url), empty_request)
          | _ \<Rightarrow> Inl ParamParseException)
     | _ \<Rightarrow> Inl ParamParseException)"

definition simple_check :: "client_response \<Rightarrow> bool" where
  "simple_check response = (if cr_status response \<ge> 300 then False else cr_body response \<noteq> [])"

section \<open>The promises of the providers\<close>

interpretation cloudflare: provider "cloudflare_generate read wj" "[''api.cloudflare.com'']"
  by unfold_locales (code_simp, auto simp: cloudflare_generate_def bindE_eq_Inl_iff Let_def)

interpretation digital_ocean: provider "digital_ocean_generate read wj" "[''api.digitalocean.com'']"
  by unfold_locales (code_simp, auto simp: digital_ocean_generate_def bindE_eq_Inl_iff Let_def)

interpretation duckdns: provider "duckdns_generate read" "[''www.duckdns.org'']"
  by unfold_locales (code_simp, auto simp: duckdns_generate_def bindE_eq_Inl_iff Let_def)

interpretation godaddy: provider "godaddy_generate read wj" "[''api.godaddy.com'']"
  by unfold_locales (code_simp, auto simp: godaddy_generate_def bindE_eq_Inl_iff Let_def)

interpretation linode: provider "linode_generate read wj" "[''api.linode.com'']"
  by unfold_locales (code_simp, auto simp: linode_generate_def bindE_eq_Inl_iff Let_def)

interpretation porkbun: provider "porkbun_generate read wj" "[''api.porkbun.com'']"
  by unfold_locales (code_simp, auto simp: porkbun_generate_def bindE_eq_Inl_iff Let_def)

interpretation vultr: provider "vultr_generate read wj" "[''api.vultr.com'']"
  by unfold_locales (code_simp, auto simp: vultr_generate_def bindE_eq_Inl_iff Let_def)

interpretation dnspod: provider "dnspod_generate encode read" "map dnspod_host [True, False]"
proof
  show "list_all plain_host (map dnspod_host [True, False])" by code_simp
next
  fix config ctx url request
  assume "dnspod_generate encode read config ctx = Inr (url, request)"
  then obtain g where "url = ''https://'' @ dnspod_host g @ ''/Record.Ddns''" by (auto simp: dnspod_generate_def Let_def)
  then show "\<exists>host\<in>set (map dnspod_host [True, False]). \<exists>r. path_start r \<and> url = ''https://'' @ host @ r"
    by (intro bexI [of _ "dnspod_host g"] exI [of _ "''/Record.Ddns''"]) (cases g; auto)+
next
  fix config ctx e
  assume "dnspod_generate encode read config ctx = Inl e"
  then show "e = ParamParseException" by (auto simp: dnspod_generate_def Let_def bindE_eq_Inl_iff)
qed

section \<open>Templates of the simple driver\<close>

text \<open>A template is literal text and placeholders, none with a brace of its own.\<close>

datatype segment = Lit string | Var string

fun render :: "segment list \<Rightarrow> string" where
  "render [] = []"
| "render (Lit s # r) = s @ render r"
| "render (Var k # r) = ''{'' @ k @ ''}'' @ render r"

definition braceless :: "string \<Rightarrow> bool" where
  "braceless s = (CHR ''{'' \<notin> set s \<and> CHR ''}'' \<notin> set s)"

fun clean :: "segment \<Rightarrow> bool" where
  "clean (Lit s) = braceless s"
| "clean (Var k) = braceless k"

fun expand :: "string \<Rightarrow> string \<Rightarrow> segment \<Rightarrow> segment" where
  "expand k v (Lit s) = Lit s"
| "expand k v (Var k') = (if k' = k then Lit v else Var k')"

fun fill :: "(string \<rightharpoonup> string) \<Rightarrow> segment \<Rightarrow> string" where
  "fill m (Lit s) = s"
| "fill m (Var k) = (case m k of Some v \<Rightarrow> v | None \<Rightarrow> ''{'' @ k @ ''}'')"

fun members :: "(string \<times> json) list \<Rightarrow> (string \<times> string) list" where
  "members [] = []"
| "members ((k, JString v) # ms) = (if k \<noteq> ''url'' then (k, v) # members ms else members ms)"
| "members ((k, _) # ms) = members ms"

definition bindings :: "(string \<times> json) list \<Rightarrow> driver_update_params \<Rightarrow> (string \<times> string) list" where
  "bindings obj ctx = members obj @ [(''ip_addr'', p_ip_addr ctx), (''rd_type'', p_rd_type ctx), (''domain'', p_domain ctx),
     (''subdomain'', p_subdomain ctx), (''fqdn'', p_fqdn ctx)]"

lemma subst_all_skip: "\<not> starts_with (c # r) ts \<Longrightarrow> subst_all ts rs (c # r) = c # subst_all ts rs r"
  by (subst (1 2) subst_all.simps) (auto split: option.splits)

lemma subst_all_match: "ts \<noteq> [] \<Longrightarrow> subst_all ts rs (ts @ r) = rs @ subst_all ts rs r"
  by (cases ts) (subst subst_all.simps, simp)+

lemma subst_all_literal:
  assumes "CHR ''{'' \<notin> set s" shows "subst_all (CHR ''{'' # k) v (s @ r) = s @ subst_all (CHR ''{'' # k) v r"
  using assms by (induction s) (auto simp: subst_all_skip)

lemma placeholder_prefix:
  assumes "braceless k" "braceless k'" "starts_with (k' @ CHR ''}'' # r) (k @ ''}'')" shows "k' = k"
  using assms
proof (induction k arbitrary: k')
  case Nil
  then show ?case by (cases k') (auto simp: braceless_def)
next
  case (Cons c k)
  then show ?case by (cases k') (auto simp: braceless_def)
qed

lemma substitute_render:
  assumes "list_all clean segs" "braceless k"
  shows "substitute k v (render segs) = render (map (expand k v) segs)"
  unfolding substitute_def replace_all_subst using assms
proof (induction segs)
  case Nil
  then show ?case by (simp add: subst_all_id)
next
  case (Cons seg segs)
  show ?case
  proof (cases seg)
    case (Lit s)
    with Cons show ?thesis by (auto simp: subst_all_literal braceless_def)
  next
    case (Var k')
    show ?thesis
    proof (cases "k' = k")
      case True
      with Var Cons subst_all_match [of "''{'' @ k @ ''}''" v "render segs"] show ?thesis by simp
    next
      case False
      with Var Cons.prems placeholder_prefix [of k k' "render segs"]
      have "\<not> starts_with (CHR ''{'' # k' @ CHR ''}'' # render segs) (CHR ''{'' # k @ ''}'')" by auto
      with Var Cons False subst_all_literal [of "k' @ ''}''" "k @ ''}''" v "render segs"] show ?thesis
        by (simp add: subst_all_skip braceless_def)
    qed
  qed
qed

lemma expand_clean: "clean seg \<Longrightarrow> braceless v \<Longrightarrow> clean (expand k v seg)"
  by (cases seg) auto

lemma fold_substitute_render:
  assumes "list_all clean segs" "\<forall>(k, v)\<in>set bs. braceless k \<and> braceless v"
  shows "fold (\<lambda>(k, v). substitute k v) bs (render segs) = concat (map (fill (map_of bs)) segs)"
  using assms
proof (induction bs arbitrary: segs)
  case Nil
  have "render segs = concat (map (fill (map_of [])) segs)" for segs by (induction segs rule: render.induct) auto
  then show ?case by simp
next
  case (Cons b bs)
  obtain k v where b: "b = (k, v)" by force
  have "list_all clean (map (expand k v) segs)" using Cons.prems b by (auto simp: list_all_iff expand_clean)
  moreover have "fill (map_of bs) (expand k v seg) = fill (map_of (b # bs)) seg" for seg by (cases seg) (auto simp: b)
  ultimately show ?case using Cons b by (simp add: substitute_render comp_def fun_upd_def)
qed

lemma fold_substitute_member: "fold substitute_member obj url = fold (\<lambda>(k, v). substitute k v) (members obj) url"
  by (induction obj arbitrary: url rule: members.induct) auto

section \<open>Properties\<close>

text \<open>The simple driver fills in its template. When neither the template's text nor the names and values
  have braces, every placeholder is replaced once: by the parameter of its name if the configuration has
  one, else by the value of the update; a placeholder with neither name stays as it is. So the order of
  the substitutions and the search from the left do not matter.\<close>

theorem simple_driver_fills_template:
  assumes "read config = Some (JObject obj)" "map_of obj ''url'' = Some (JString (render segs))"
    and "list_all clean segs" "\<forall>(k, v)\<in>set (bindings obj ctx). braceless k \<and> braceless v"
  shows "simple_generate read config ctx = Inr (concat (map (fill (map_of (bindings obj ctx))) segs), empty_request)"
proof -
  have "substitute_context ctx (fold substitute_member obj (render segs)) =
      fold (\<lambda>(k, v). substitute k v) (bindings obj ctx) (render segs)"
    by (simp add: substitute_context_def bindings_def fold_substitute_member)
  with fold_substitute_render [OF assms(3,4)] assms(1,2) show ?thesis by (simp add: simple_generate_def parse_config_def)
qed

definition sample_update :: driver_update_params where
  "sample_update = \<lparr>p_ip_addr = ''192.0.2.1'', p_rd_type = ''A'', p_domain = ''b.io'', p_subdomain = ''a'', p_fqdn = ''a.b.io''\<rparr>"

theorem simple_driver_fills_template_witness:
  "simple_generate (\<lambda>_. Some (JObject [(''key'', JString ''k1''), (''url'', JString ''http://h/{key}/{fqdn}?ip={ip_addr}'')]))
     [] sample_update = Inr (''http://h/k1/a.b.io?ip=192.0.2.1'', empty_request)"
proof -
  let ?obj = "[(''key'', JString ''k1''), (''url'', JString ''http://h/{key}/{fqdn}?ip={ip_addr}'')]"
  let ?segs = "[Lit ''http://h/'', Var ''key'', Lit ''/'', Var ''fqdn'', Lit ''?ip='', Var ''ip_addr'']"
  have "list_all clean ?segs" by code_simp
  moreover have "list_all (\<lambda>(k, v). braceless k \<and> braceless v) (bindings ?obj sample_update)" by code_simp
  moreover have "concat (map (fill (map_of (bindings ?obj sample_update))) ?segs) = ''http://h/k1/a.b.io?ip=192.0.2.1''" by code_simp
  ultimately show ?thesis
    using simple_driver_fills_template [of "\<lambda>_. Some (JObject ?obj)" "[]" ?obj ?segs sample_update]
    by (simp add: list_all_iff)
qed

end
