(* ===== verification/Signing_Model.thy ===== *)
theory Signing_Model
  imports Yad_Prelude
begin

text \<open>
  The primitives of request signing (\<^verbatim>\<open>src/util/signing.cpp\<close>). OpenSSL is the argument \<open>evp\<close>: what its
  calls give for a digest or a MAC, \<open>None\<close> where a call fails. The encoders walk their input by position;
  their models recurse on the bytes from that position on. The clock is what \<^verbatim>\<open>std::gmtime\<close> returns.
\<close>

unbundle bit_operations_syntax

section \<open>Digests\<close>

datatype evp_md = MD_SHA256 | MD_SHA1

text \<open>The calls of one MAC: \<^verbatim>\<open>EVP_PKEY_new_mac_key\<close>, \<^verbatim>\<open>EVP_MD_CTX_new\<close>, \<^verbatim>\<open>EVP_DigestSignInit\<close>,
  \<^verbatim>\<open>EVP_DigestSignUpdate\<close>, the first \<^verbatim>\<open>EVP_DigestSignFinal\<close>, which asks for the length, and the second,
  which gives the bytes.\<close>

record evp_mac =
  mac_key_ok :: bool
  mac_ctx_ok :: bool
  mac_init_ok :: bool
  mac_update_ok :: bool
  mac_len_ok :: bool
  mac_bytes :: "byte list option"

record evp =
  evp_digest :: "evp_md \<Rightarrow> byte list \<Rightarrow> byte list option"
  evp_hmac :: "evp_md \<Rightarrow> byte list \<Rightarrow> byte list \<Rightarrow> evp_mac"

definition hmac_digest :: "evp \<Rightarrow> byte list \<Rightarrow> byte list \<Rightarrow> evp_md \<Rightarrow> byte list" where
  "hmac_digest lib key data md =
     (let m = evp_hmac lib md key data in
      if \<not> mac_key_ok m then []
      else if \<not> mac_ctx_ok m then []
      else if mac_init_ok m \<and> mac_update_ok m \<and> mac_len_ok m then
        (case mac_bytes m of None \<Rightarrow> [] | Some result \<Rightarrow> result)
      else [])"

definition hash_digest :: "evp \<Rightarrow> byte list \<Rightarrow> evp_md \<Rightarrow> byte list" where
  "hash_digest lib data md = (case evp_digest lib md data of None \<Rightarrow> [] | Some d \<Rightarrow> d)"

definition sha256 :: "evp \<Rightarrow> byte list \<Rightarrow> byte list" where
  "sha256 lib data = hash_digest lib data MD_SHA256"

definition sha1 :: "evp \<Rightarrow> byte list \<Rightarrow> byte list" where
  "sha1 lib data = hash_digest lib data MD_SHA1"

definition hmac_sha256 :: "evp \<Rightarrow> byte list \<Rightarrow> byte list \<Rightarrow> byte list" where
  "hmac_sha256 lib key data = hmac_digest lib key data MD_SHA256"

definition hmac_sha1 :: "evp \<Rightarrow> byte list \<Rightarrow> byte list \<Rightarrow> byte list" where
  "hmac_sha1 lib key data = hmac_digest lib key data MD_SHA1"

section \<open>Encoders\<close>

definition hex_alphabet :: string where
  "hex_alphabet = ''0123456789abcdef''"

definition BASE64_CHARS :: string where
  "BASE64_CHARS = ''ABCDEFGHIJKLMNOPQRSTUVWXYZabcdefghijklmnopqrstuvwxyz0123456789+/''"

fun hex_encode :: "byte list \<Rightarrow> string" where
  "hex_encode [] = []"
| "hex_encode (b # bs) = hex_alphabet ! unat (drop_bit 4 b) # hex_alphabet ! unat (b AND 0x0F) # hex_encode bs"

definition sha256_hex :: "evp \<Rightarrow> string \<Rightarrow> string" where
  "sha256_hex lib data = hex_encode (sha256 lib (map byte_of_char data))"

text \<open>The operands are promoted to \<^verbatim>\<open>int\<close>, so the shifts to the left keep all bits until the mask.\<close>

abbreviation (input) promote :: "byte \<Rightarrow> u32" where "promote \<equiv> ucast"

definition base64_char :: "u32 \<Rightarrow> char" where
  "base64_char i = BASE64_CHARS ! unat i"

fun base64_encode :: "byte list \<Rightarrow> string" where
  "base64_encode (b0 # b1 # b2 # rest) =
     base64_char (drop_bit 2 (promote b0)) #
     base64_char ((push_bit 4 (promote b0) OR drop_bit 4 (promote b1)) AND 0x3F) #
     base64_char ((push_bit 2 (promote b1) OR drop_bit 6 (promote b2)) AND 0x3F) #
     base64_char (promote b2 AND 0x3F) # base64_encode rest"
| "base64_encode [b0, b1] =
     [base64_char (drop_bit 2 (promote b0)),
      base64_char ((push_bit 4 (promote b0) OR drop_bit 4 (promote b1)) AND 0x3F),
      base64_char (push_bit 2 (promote b1) AND 0x3F)]"
| "base64_encode [b0] =
     [base64_char (drop_bit 2 (promote b0)), base64_char (push_bit 4 (promote b0) AND 0x3F)]"
| "base64_encode [] = []"

section \<open>Time stamps\<close>

text \<open>The broken-down time of the C library; \<^verbatim>\<open>tm_year\<close> counts from 1900 and \<^verbatim>\<open>tm_mon\<close> from 0.\<close>

record tm =
  tm_year :: nat
  tm_mon :: nat
  tm_mday :: nat
  tm_hour :: nat
  tm_min :: nat
  tm_sec :: nat

text \<open>\<^verbatim>\<open>%m\<close>, \<^verbatim>\<open>%d\<close>, \<^verbatim>\<open>%H\<close>, \<^verbatim>\<open>%M\<close> and \<^verbatim>\<open>%S\<close> of \<^verbatim>\<open>strftime\<close> print two digits, \<^verbatim>\<open>%Y\<close> the year.\<close>

definition two_digits :: "nat \<Rightarrow> string" where
  "two_digits n = [dec_digit (n div 10), dec_digit (n mod 10)]"

definition iso8601_timestamp :: "tm option \<Rightarrow> string" where
  "iso8601_timestamp now =
     (case now of
        None \<Rightarrow> []
      | Some t \<Rightarrow> dec_string (tm_year t + 1900) @ two_digits (tm_mon t + 1) @ two_digits (tm_mday t) @ ''T'' @
          two_digits (tm_hour t) @ two_digits (tm_min t) @ two_digits (tm_sec t) @ ''Z'')"

definition iso8601_date :: "tm option \<Rightarrow> string" where
  "iso8601_date now =
     (case now of
        None \<Rightarrow> []
      | Some t \<Rightarrow> dec_string (tm_year t + 1900) @ two_digits (tm_mon t + 1) @ two_digits (tm_mday t))"

section \<open>Decoding what the encoders print\<close>

text \<open>The reference decoders of RFC 4648, the second without padding.\<close>

definition sextet :: "char \<Rightarrow> byte option" where
  "sextet c = map_option of_nat (find_elem c BASE64_CHARS)"

fun base64_group :: "byte list \<Rightarrow> byte list option" where
  "base64_group [s0, s1] = Some [push_bit 2 s0 OR drop_bit 4 s1]"
| "base64_group [s0, s1, s2] = Some [push_bit 2 s0 OR drop_bit 4 s1, push_bit 4 s1 OR drop_bit 2 s2]"
| "base64_group [s0, s1, s2, s3] =
     Some [push_bit 2 s0 OR drop_bit 4 s1, push_bit 4 s1 OR drop_bit 2 s2, push_bit 6 s2 OR s3]"
| "base64_group _ = None"

fun sextets :: "string \<Rightarrow> byte list option" where
  "sextets [] = Some []"
| "sextets (c # cs) = Option.bind (sextet c) (\<lambda>s. map_option ((#) s) (sextets cs))"

fun base64_decode :: "string \<Rightarrow> byte list option" where
  "base64_decode (c0 # c1 # c2 # c3 # rest) =
     Option.bind (sextets [c0, c1, c2, c3]) (\<lambda>ss. Option.bind (base64_group ss) (\<lambda>bs.
       map_option ((@) bs) (base64_decode rest)))"
| "base64_decode [] = Some []"
| "base64_decode cs = Option.bind (sextets cs) base64_group"

fun hex_decode :: "string \<Rightarrow> byte list option" where
  "hex_decode [] = Some []"
| "hex_decode (a # b # r) =
     Option.bind (find_elem a hex_alphabet) (\<lambda>h. Option.bind (find_elem b hex_alphabet) (\<lambda>l.
       map_option ((#) (of_nat (16 * h + l))) (hex_decode r)))"
| "hex_decode _ = None"

lemma find_elem_nth: "distinct xs \<Longrightarrow> i < length xs \<Longrightarrow> find_elem (xs ! i) xs = Some i"
proof (induction xs arbitrary: i)
  case (Cons x xs)
  then show ?case by (cases i) (auto simp: nth_mem)
qed simp

lemma distinct_BASE64_CHARS: "distinct BASE64_CHARS" and length_BASE64_CHARS: "length BASE64_CHARS = 64"
  by (simp_all add: BASE64_CHARS_def)

lemma hex_decode_byte:
  "find_elem (hex_alphabet ! unat (drop_bit 4 b)) hex_alphabet = Some (unat (drop_bit 4 b)) \<and>
   find_elem (hex_alphabet ! unat (b AND 0x0F)) hex_alphabet = Some (unat (b AND 0x0F)) \<and>
   of_nat (16 * unat (drop_bit 4 b) + unat (b AND 0x0F)) = b" for b :: byte
  by (rule byte_exhaust_check) code_simp

lemma hex_decode_encode: "hex_decode (hex_encode bs) = Some bs"
  by (induction bs) (simp_all add: hex_decode_byte del: of_nat_add of_nat_mult)

text \<open>Every index into the alphabet is below 64; as a byte it is the sextet of the character.\<close>

lemma sextet_base64_char: "unat i < 64 \<Longrightarrow> sextet (base64_char i) = Some (ucast i)"
  by (simp add: sextet_def base64_char_def find_elem_nth distinct_BASE64_CHARS length_BASE64_CHARS unsigned_ucast_eq)

lemma base64_index_bounds:
  "unat (drop_bit 2 (promote b0)) < 64" "unat (w AND 0x3F :: u32) < 64"
proof -
  have "(w AND 0x3F) = take_bit 6 w" by (simp add: take_bit_eq_mask mask_eq_exp_minus_1)
  then have "unat (w AND 0x3F) < 2 ^ 6" using take_bit_nat_less_exp [of 6 "unat w"] by (simp only: unsigned_take_bit_eq)
  then show "unat (w AND 0x3F :: u32) < 64" by simp
  have b0: "unat b0 < 256" using unsigned_less [of b0] by simp
  have "unat (drop_bit 2 (promote b0)) = unat b0 div 4"
    by (simp only: unsigned_drop_bit_eq unsigned_ucast_eq) (use b0 in \<open>simp add: drop_bit_eq_div take_bit_nat_eq_self\<close>)
  with b0 show "unat (drop_bit 2 (promote b0)) < 64" by simp
qed

lemma sextets_base64 [simp]:
  "sextet (base64_char (drop_bit 2 (promote b0))) = Some (ucast (drop_bit 2 (promote b0)))"
  "sextet (base64_char (w AND 0x3F)) = Some (ucast (w AND 0x3F))"
  by (simp_all only: sextet_base64_char base64_index_bounds)

lemma bit_mask6: "bit (0x3F :: u32) n \<longleftrightarrow> n < 6"
proof -
  have *: "(0x3F :: u32) = mask 6" by (simp add: mask_eq_exp_minus_1)
  show ?thesis unfolding * by (auto simp: bit_mask_iff)
qed

lemma base64_bytes:
  fixes b0 b1 b2 :: byte
  shows "push_bit 2 (ucast (drop_bit 2 (promote b0))) OR
      drop_bit 4 (ucast ((push_bit 4 (promote b0) OR drop_bit 4 (promote b1)) AND 0x3F)) = b0" (is ?A)
    and "push_bit 2 (ucast (drop_bit 2 (promote b0))) OR drop_bit 4 (ucast (push_bit 4 (promote b0) AND 0x3F)) = b0" (is ?B)
    and "push_bit 4 (ucast ((push_bit 4 (promote b0) OR drop_bit 4 (promote b1)) AND 0x3F)) OR
      drop_bit 2 (ucast ((push_bit 2 (promote b1) OR drop_bit 6 (promote b2)) AND 0x3F)) = b1" (is ?C)
    and "push_bit 4 (ucast ((push_bit 4 (promote b0) OR drop_bit 4 (promote b1)) AND 0x3F)) OR
      drop_bit 2 (ucast (push_bit 2 (promote b1) AND 0x3F)) = b1" (is ?D)
    and "push_bit 6 (ucast ((push_bit 2 (promote b1) OR drop_bit 6 (promote b2)) AND 0x3F)) OR
      ucast (promote b2 AND 0x3F) = b2" (is ?E)
proof -
  have eight: "P n" if "P 0" "P 1" "P 2" "P 3" "P 4" "P 5" "P 6" "P 7" "n < 8" for P :: "nat \<Rightarrow> bool" and n
    using that by (auto simp: less_Suc_eq numeral_eq_Suc)
  have none: "8 \<le> k \<Longrightarrow> \<not> bit b k" for b :: byte and k using bit_imp_le_length [of b k] by fastforce
  note bits = bit_or_iff bit_and_iff bit_push_bit_iff bit_drop_bit_eq bit_ucast_iff bit_mask6 none
  show ?A ?B ?C ?D ?E
    by (rule bit_word_eqI, rule eight; simp add: bits)+
qed

lemma base64_decode_encode: "base64_decode (base64_encode bs) = Some bs"
  by (induction bs rule: base64_encode.induct) (simp_all add: base64_bytes)

lemma base64_length: "length (base64_encode bs) = (4 * length bs + 2) div 3"
  by (induction bs rule: base64_encode.induct) simp_all

lemma base64_char_in: "unat i < 64 \<Longrightarrow> base64_char i \<in> set BASE64_CHARS"
  by (simp add: base64_char_def length_BASE64_CHARS)

lemma base64_alphabet: "set (base64_encode bs) \<subseteq> set BASE64_CHARS"
  by (induction bs rule: base64_encode.induct) (simp_all only: base64_encode.simps list.simps insert_subset base64_char_in base64_index_bounds empty_subsetI simp_thms)

lemma hex_encode_length: "length (hex_encode bs) = 2 * length bs"
  by (induction bs) simp_all

section \<open>Properties\<close>

text \<open>C38. The encoders lose nothing: hexadecimal text and base64 text decode to the bytes they were made
  from. Base64 is printed without padding, so its length is four thirds of the input rounded up, and the
  padding character never occurs.\<close>

theorem signing_encoders_round_trip:
  "hex_decode (hex_encode bs) = Some bs \<and> length (hex_encode bs) = 2 * length bs \<and>
   base64_decode (base64_encode bs) = Some bs \<and> length (base64_encode bs) = (4 * length bs + 2) div 3 \<and>
   CHR ''='' \<notin> set (base64_encode bs)"
proof -
  have "CHR ''='' \<notin> set BASE64_CHARS" by (simp add: BASE64_CHARS_def)
  then show ?thesis
    using base64_alphabet by (auto simp: hex_decode_encode hex_encode_length base64_decode_encode base64_length)
qed

text \<open>The date of a time stamp: for years of four digits, its first eight characters.\<close>

lemma dec_string_length:
  "n < 10 \<Longrightarrow> length (dec_string n) = 1" "10 \<le> n \<Longrightarrow> length (dec_string n) = Suc (length (dec_string (n div 10)))"
  by (subst dec_string.simps, simp)+

lemma dec_string_four: "1000 \<le> n \<Longrightarrow> n < 10000 \<Longrightarrow> length (dec_string n) = 4"
  by (simp add: dec_string_length div_mult2_eq [symmetric])

lemma timestamp_date:
  "tm_year t < 8100 \<Longrightarrow> iso8601_date (Some t) = take 8 (iso8601_timestamp (Some t))"
  by (simp add: iso8601_date_def iso8601_timestamp_def dec_string_four two_digits_def)

end
