(* ===== verification/Signed_Drivers.thy ===== *)
theory Signed_Drivers
  imports Driver_Base Signing_Model
begin

text \<open>
  The drivers that sign their requests (\<^verbatim>\<open>driver/route53/route53.cpp\<close>,
  \<^verbatim>\<open>driver/alibaba_cloud/alibaba_cloud.cpp\<close>) and the one that reads XML
  (\<^verbatim>\<open>driver/namecheap/namecheap.cpp\<close>). libxml2 is an argument: a document is the tree the code builds,
  and a query of a response gives the texts of the nodes it selects. Each call that reads the clock or the
  random engine has an argument of its own.
\<close>

abbreviation (input) to_bytes :: "string \<Rightarrow> byte list" where "to_bytes \<equiv> map byte_of_char"

section \<open>XML\<close>

datatype xml = Element string "xml list" | TextElement string string

text \<open>What a document gives for an XPath expression: \<open>None\<close> where the evaluation has no node set, else the
  content of each node, which may be a null pointer.\<close>

record xml_doc =
  xd_context :: bool
  xd_register_ns :: bool
  xd_xpath :: "string \<Rightarrow> string option list option"

record libxml =
  xml_alloc :: bool
  xml_dump :: "string \<Rightarrow> xml \<Rightarrow> string option"
  xml_read :: "string \<Rightarrow> xml_doc option"

definition first_text :: "xml_doc \<Rightarrow> string \<Rightarrow> string option" where
  "first_text doc path = (case xd_xpath doc path of Some (n # _) \<Rightarrow> n | _ \<Rightarrow> None)"

section \<open>Route 53\<close>

definition ensure_trailing_dot :: "string \<Rightarrow> string" where
  "ensure_trailing_dot fqdn = (if fqdn = [] then ''.'' else if last fqdn = CHR ''.'' then fqdn else fqdn @ ''.'')"

definition R53_XMLNS :: string where "R53_XMLNS = ''https://route53.amazonaws.com/doc/2013-04-01/''"
definition R53_HOST :: string where "R53_HOST = ''route53.amazonaws.com''"
definition SIGV4_ALGORITHM :: string where "SIGV4_ALGORITHM = ''AWS4-HMAC-SHA256''"

definition derive_signing_key :: "evp \<Rightarrow> string \<Rightarrow> string \<Rightarrow> string \<Rightarrow> string \<Rightarrow> string \<Rightarrow> byte list" where
  "derive_signing_key lib secret_access_key date_stamp region service request_type =
     (let k_secret = ''AWS4'' @ secret_access_key;
          k_date = hmac_sha256 lib (to_bytes k_secret) (to_bytes date_stamp);
          k_region = hmac_sha256 lib k_date (to_bytes region);
          k_service = hmac_sha256 lib k_region (to_bytes service)
      in hmac_sha256 lib k_service (to_bytes request_type))"

text \<open>The tree of the UPSERT request; the texts are passed to libxml2 as C strings.\<close>

definition change_batch :: "string \<Rightarrow> string \<Rightarrow> string \<Rightarrow> int \<Rightarrow> xml" where
  "change_batch fqdn rd_type ip_addr ttl =
     Element ''ChangeResourceRecordSetsRequest''
       [Element ''ChangeBatch'' [Element ''Changes'' [Element ''Change''
          [TextElement ''Action'' ''UPSERT'',
           Element ''ResourceRecordSet''
             [TextElement ''Name'' (c_str fqdn), TextElement ''Type'' (c_str rd_type), TextElement ''TTL'' (int_string ttl),
              Element ''ResourceRecords'' [Element ''ResourceRecord'' [TextElement ''Value'' (c_str ip_addr)]]]]]]]"

definition build_xml_body :: "libxml \<Rightarrow> string \<Rightarrow> string \<Rightarrow> string \<Rightarrow> int \<Rightarrow> string" where
  "build_xml_body xml fqdn rd_type ip_addr ttl =
     (if \<not> xml_alloc xml then []
      else value_or (xml_dump xml R53_XMLNS (change_batch fqdn rd_type ip_addr ttl)) [])"

record route53_params =
  r53_access_key_id :: string
  r53_secret_access_key :: string
  r53_hosted_zone_id :: string
  r53_region :: string
  r53_record_name :: string
  r53_ttl :: "int option"

definition SIGNED_HEADERS :: string where "SIGNED_HEADERS = ''host;x-amz-content-sha256;x-amz-date''"

definition NL :: string where "NL = [CHR 0x0A]"

definition canonical_request :: "string \<Rightarrow> string \<Rightarrow> string \<Rightarrow> string" where
  "canonical_request url_path payload_hash amz_date =
     ''POST'' @ NL @ url_path @ NL @ NL @
     (''host:'' @ R53_HOST @ NL @ ''x-amz-content-sha256:'' @ payload_hash @ NL @ ''x-amz-date:'' @ amz_date @ NL) @ NL @
     SIGNED_HEADERS @ NL @ payload_hash"

definition credential_scope :: "string \<Rightarrow> string \<Rightarrow> string" where
  "credential_scope date_stamp region = date_stamp @ ''/'' @ region @ ''/route53/aws4_request''"

definition string_to_sign :: "string \<Rightarrow> string \<Rightarrow> string \<Rightarrow> string" where
  "string_to_sign amz_date scope request_hash = SIGV4_ALGORITHM @ NL @ amz_date @ NL @ scope @ NL @ request_hash"

definition sigv4_signature :: "evp \<Rightarrow> route53_params \<Rightarrow> string \<Rightarrow> string \<Rightarrow> string \<Rightarrow> string \<Rightarrow> string" where
  "sigv4_signature lib cfg url_path payload_hash amz_date date_stamp =
     hex_encode (hmac_sha256 lib
       (derive_signing_key lib (r53_secret_access_key cfg) date_stamp (r53_region cfg) ''route53'' ''aws4_request'')
       (to_bytes (string_to_sign amz_date (credential_scope date_stamp (r53_region cfg))
          (sha256_hex lib (canonical_request url_path payload_hash amz_date)))))"

definition route53_generate ::
  "evp \<Rightarrow> libxml \<Rightarrow> tm option \<Rightarrow> tm option \<Rightarrow> (string \<Rightarrow> route53_params option) \<Rightarrow> generate" where
  "route53_generate lib xml clock1 clock2 read config ctx =
     bindE (parse_config read config) (\<lambda>cfg.
     let fqdn = ensure_trailing_dot (p_fqdn ctx);
         ttl = value_or (r53_ttl cfg) 300;
         body = build_xml_body xml fqdn (p_rd_type ctx) (p_ip_addr ctx) ttl;
         url_path = ''/2013-04-01/hostedzone/'' @ r53_hosted_zone_id cfg @ ''/rrset'';
         amz_date = iso8601_timestamp clock1;
         date_stamp = iso8601_date clock2;
         payload_hash = sha256_hex lib body;
         signature = sigv4_signature lib cfg url_path payload_hash amz_date date_stamp;
         authorization = SIGV4_ALGORITHM @ '' Credential='' @ r53_access_key_id cfg @ ''/'' @
           credential_scope date_stamp (r53_region cfg) @ '', SignedHeaders='' @ SIGNED_HEADERS @ '', Signature='' @ signature
     in Inr (''https://'' @ R53_HOST @ url_path,
          \<lparr>content_type = ''application/xml'', req_method = POST,
           req_headers = multimap_of [(''Host'', R53_HOST), (''X-Amz-Date'', amz_date),
             (''X-Amz-Content-SHA256'', payload_hash), (''Authorization'', authorization)],
           req_body = Some body\<rparr>))"

definition route53_check :: "libxml \<Rightarrow> client_response \<Rightarrow> bool" where
  "route53_check xml response =
     (if cr_status response = 200 then
        (case xml_read xml (cr_body response) of
           None \<Rightarrow> False
         | Some doc \<Rightarrow>
             if \<not> xd_context doc then False
             else if \<not> xd_register_ns doc then False
             else case first_text doc ''//r53:ChangeResourceRecordSetsResponse/r53:ChangeInfo/r53:Status/text()'' of
               None \<Rightarrow> False
             | Some status \<Rightarrow> status = ''PENDING'' \<or> status = ''INSYNC'')
      else False)"

section \<open>Alibaba Cloud\<close>

definition alibaba_timestamp :: "tm option \<Rightarrow> string" where
  "alibaba_timestamp now =
     (case now of
        None \<Rightarrow> []
      | Some t \<Rightarrow> dec_string (tm_year t + 1900) @ ''-'' @ two_digits (tm_mon t + 1) @ ''-'' @ two_digits (tm_mday t) @ ''T'' @
          two_digits (tm_hour t) @ '':'' @ two_digits (tm_min t) @ '':'' @ two_digits (tm_sec t) @ ''Z'')"

text \<open>\<^verbatim>\<open>{:020}\<close>: at least twenty digits, with zeros in front.\<close>

definition pad20 :: "nat \<Rightarrow> string" where
  "pad20 n = replicate (20 - length (dec_string n)) (CHR ''0'') @ dec_string n"

definition generate_nonce :: "nat \<Rightarrow> 64 word \<Rightarrow> string" where
  "generate_nonce nanos extra = pad20 nanos @ pad20 (unat extra)"

fun canonical_loop :: "bool \<Rightarrow> (string \<times> string) list \<Rightarrow> string \<Rightarrow> string" where
  "canonical_loop first [] result = result"
| "canonical_loop first ((key, value) # params) result =
     canonical_loop False params ((if \<not> first then result @ ''&'' else result) @ url_encode key True @ ''='' @ url_encode value True)"

definition build_canonical_query :: "(string \<times> string) list \<Rightarrow> string" where
  "build_canonical_query params = canonical_loop True params []"

definition compute_signature :: "evp \<Rightarrow> string \<Rightarrow> string \<Rightarrow> string \<Rightarrow> string" where
  "compute_signature lib secret_access_key http_method canonical_query =
     (let encoded_path = url_encode ''/'' True;
          encoded_query = url_encode canonical_query True;
          sts = http_method @ ''&'' @ encoded_path @ ''&'' @ encoded_query;
          key_str = secret_access_key @ ''&''
      in base64_encode (hmac_sha1 lib (to_bytes key_str) (to_bytes sts)))"

record alibaba_params =
  ali_access_key_id :: string
  ali_access_key_secret :: string
  ali_record_id :: string
  ali_ttl :: "int option"

definition alibaba_param_list :: "string \<Rightarrow> string \<Rightarrow> alibaba_params \<Rightarrow> driver_update_params \<Rightarrow> (string \<times> string) list" where
  "alibaba_param_list nonce timestamp cfg ctx =
     [(''Action'', ''UpdateDomainRecord''), (''Format'', ''JSON''), (''Version'', ''2015-01-09''),
      (''AccessKeyId'', ali_access_key_id cfg), (''SignatureMethod'', ''HMAC-SHA1''), (''SignatureVersion'', ''1.0''),
      (''SignatureNonce'', nonce), (''Timestamp'', timestamp), (''RecordId'', ali_record_id cfg), (''RR'', p_subdomain ctx),
      (''Type'', p_rd_type ctx), (''Value'', p_ip_addr ctx), (''TTL'', int_string (value_or (ali_ttl cfg) 600))]"

text \<open>The keys are distinct, so \<^verbatim>\<open>std::sort\<close> by key has one result.\<close>

definition alibaba_generate ::
  "evp \<Rightarrow> nat \<Rightarrow> 64 word \<Rightarrow> tm option \<Rightarrow> (string \<Rightarrow> alibaba_params option) \<Rightarrow> generate" where
  "alibaba_generate lib nanos extra clock read config ctx =
     bindE (parse_config read config) (\<lambda>cfg.
     let params = sort_key fst (alibaba_param_list (generate_nonce nanos extra) (alibaba_timestamp clock) cfg ctx);
         canonical_query = build_canonical_query params;
         signature = compute_signature lib (ali_access_key_secret cfg) ''POST'' canonical_query
     in Inr (''https://alidns.aliyuncs.com/'',
          \<lparr>content_type = ''application/x-www-form-urlencoded'', req_method = POST, req_headers = [],
           req_body = Some (canonical_query @ ''&'' @ ''Signature='' @ url_encode signature True)\<rparr>))"

text \<open>\<open>rj\<close> tells whether the body is an \<^verbatim>\<open>AlibabaUpdateResponse\<close>.\<close>

definition alibaba_check :: "(string \<Rightarrow> bool) \<Rightarrow> client_response \<Rightarrow> bool" where
  "alibaba_check rj response = (if cr_status response = 200 then rj (cr_body response) else False)"

section \<open>Namecheap\<close>

record namecheap_params =
  nc_password :: string

definition namecheap_generate :: "(string \<Rightarrow> namecheap_params option) \<Rightarrow> generate" where
  "namecheap_generate read config ctx =
     (if p_rd_type ctx = ''AAAA'' then Inl ParamParseException
      else bindE (parse_config read config) (\<lambda>cfg.
        Inr (''https://'' @ ''dynamicdns.park-your-domain.com'' @ ''/update?host='' @ p_subdomain ctx @ ''&domain='' @ p_domain ctx @
               ''&password='' @ nc_password cfg @ ''&ip='' @ p_ip_addr ctx, empty_request)))"

definition namecheap_check :: "libxml \<Rightarrow> client_response \<Rightarrow> bool" where
  "namecheap_check xml response =
     (case xml_read xml (cr_body response) of
        None \<Rightarrow> False
      | Some doc \<Rightarrow>
          if \<not> xd_context doc then False
          else case first_text doc ''//ErrCount/text()'' of None \<Rightarrow> False | Some n \<Rightarrow> n = ''0'')"

section \<open>The promises of the providers\<close>

interpretation route53: provider "route53_generate lib xml clock1 clock2 read" "[R53_HOST]"
  by unfold_locales (code_simp, auto simp: route53_generate_def bindE_eq_Inl_iff Let_def)

interpretation alibaba: provider "alibaba_generate lib nanos extra clock read" "[''alidns.aliyuncs.com'']"
  by unfold_locales (code_simp, auto simp: alibaba_generate_def bindE_eq_Inl_iff Let_def)

interpretation namecheap: provider "namecheap_generate read" "[''dynamicdns.park-your-domain.com'']"
  by unfold_locales (code_simp, auto simp: namecheap_generate_def bindE_eq_Inl_iff split: if_splits)

section \<open>Form bodies\<close>

definition form_pair :: "string \<times> string \<Rightarrow> string" where
  "form_pair p = url_encode (fst p) True @ ''='' @ url_encode (snd p) True"

definition decode_pair :: "string \<Rightarrow> string \<times> string" where
  "decode_pair s =
     (case find_elem (CHR ''='') s of
        None \<Rightarrow> (url_decode s, []) | Some i \<Rightarrow> (url_decode (take i s), url_decode (drop (Suc i) s)))"

lemma canonical_loop_join: "canonical_loop first ps res = join_loop (map form_pair ps) ''&'' first res"
  by (induction first ps res rule: canonical_loop.induct) (simp_all add: form_pair_def)

lemma build_canonical_query_join: "build_canonical_query ps = join (map form_pair ps) ''&''"
  by (simp add: build_canonical_query_def canonical_loop_join join_def)

lemma hex_chars_unreserved: "n < 16 \<Longrightarrow> unreserved (HEX_CHARS n)"
proof -
  have "list_all (\<lambda>n. unreserved (HEX_CHARS n)) [0..<16]" by code_simp
  then show "n < 16 \<Longrightarrow> unreserved (HEX_CHARS n)" by (simp add: list_all_iff)
qed

lemma url_encode_chars: "c \<in> set (url_encode s True) \<Longrightarrow> unreserved c \<or> c = CHR ''%''"
  using of_char_less_256
  by (induction s) (auto simp: hex_chars_unreserved less_mult_imp_div_less split: if_splits)

lemma url_encode_no_separator: "CHR ''&'' \<notin> set (url_encode s True)" "CHR ''='' \<notin> set (url_encode s True)"
proof -
  have "\<not> unreserved (CHR ''&'')" "\<not> unreserved (CHR ''='')" by code_simp+
  then show "CHR ''&'' \<notin> set (url_encode s True)" "CHR ''='' \<notin> set (url_encode s True)"
    using url_encode_chars [of "CHR ''&''" s] url_encode_chars [of "CHR ''=''" s] by auto
qed

lemma decode_form_pair: "decode_pair (form_pair p) = p"
  by (simp add: decode_pair_def form_pair_def find_elem_append_notin [OF url_encode_no_separator(2)] url_decode_encode)

lemma canonical_query_decodes: "map_sum id (map decode_pair) (split (build_canonical_query ps) ''&'') = Inr ps"
proof -
  have "\<forall>p\<in>set (map form_pair ps). p \<noteq> [] \<and> CHR ''&'' \<notin> set p"
    by (auto simp: form_pair_def url_encode_no_separator)
  from split_join [OF this] show ?thesis
    by (simp add: build_canonical_query_join comp_def decode_form_pair)
qed

lemma canonical_query_snoc:
  "ps \<noteq> [] \<Longrightarrow> build_canonical_query (ps @ [p]) = build_canonical_query ps @ ''&'' @ form_pair p"
  by (cases ps) (simp_all add: build_canonical_query_join join_Cons)

lemma url_encode_alnum: "list_all unreserved s \<Longrightarrow> url_encode s True = s"
  by (induction s) auto

section \<open>Properties\<close>

text \<open>The form the Alibaba driver posts carries exactly its parameters: splitting the body at the ampersands
  and decoding the pairs gives the parameters of the update, sorted by name, followed by the signature,
  whatever bytes the values contain.\<close>

theorem alibaba_form_round_trip:
  assumes "alibaba_generate lib nanos extra clock read config ctx = Inr (url, request)"
  shows "\<exists>cfg ps signature body. read config = Some cfg \<and>
    mset ps = mset (alibaba_param_list (generate_nonce nanos extra) (alibaba_timestamp clock) cfg ctx) \<and> sorted (map fst ps) \<and>
    signature = compute_signature lib (ali_access_key_secret cfg) ''POST'' (build_canonical_query ps) \<and>
    req_body request = Some body \<and>
    map_sum id (map decode_pair) (split body ''&'') = Inr (ps @ [(''Signature'', signature)])"
proof -
  obtain cfg where cfg: "read config = Some cfg" using assms by (auto simp: alibaba_generate_def)
  let ?ps = "sort_key fst (alibaba_param_list (generate_nonce nanos extra) (alibaba_timestamp clock) cfg ctx)"
  let ?sig = "compute_signature lib (ali_access_key_secret cfg) ''POST'' (build_canonical_query ?ps)"
  have ne: "?ps \<noteq> []" by (simp add: alibaba_param_list_def flip: set_empty)
  have "url_encode ''Signature'' True = ''Signature''" by code_simp
  then have "req_body request = Some (build_canonical_query (?ps @ [(''Signature'', ?sig)]))"
    using assms cfg unfolding canonical_query_snoc [OF ne]
    by (auto simp: alibaba_generate_def Let_def parse_config_def form_pair_def simp del: append.simps)
  moreover have "mset ?ps = mset (alibaba_param_list (generate_nonce nanos extra) (alibaba_timestamp clock) cfg ctx)"
    "sorted (map fst ?ps)" by simp_all
  ultimately show ?thesis using cfg canonical_query_decodes [of "?ps @ [(''Signature'', ?sig)]"] by blast
qed

text \<open>A MAC library for the examples: the MAC is the first twenty bytes of the key and the data, filled with zeros.\<close>

definition sample_mac :: "byte list \<Rightarrow> evp_mac" where
  "sample_mac bytes = \<lparr>mac_key_ok = True, mac_ctx_ok = True, mac_init_ok = True, mac_update_ok = True, mac_len_ok = True,
     mac_bytes = Some bytes\<rparr>"

definition sample_evp :: evp where
  "sample_evp = \<lparr>evp_digest = \<lambda>md data. Some (take 20 data), evp_hmac = \<lambda>md key data. sample_mac (take 20 (key @ data @ replicate 20 0))\<rparr>"

definition sample_alibaba :: alibaba_params where
  "sample_alibaba = \<lparr>ali_access_key_id = ''id'', ali_access_key_secret = ''s'', ali_record_id = ''7'', ali_ttl = None\<rparr>"

definition sample_form_update :: driver_update_params where
  "sample_form_update = \<lparr>p_ip_addr = ''192.0.2.1'', p_rd_type = ''A'', p_domain = ''b.io'', p_subdomain = ''a&c=d'', p_fqdn = ''a.b.io''\<rparr>"

theorem alibaba_form_round_trip_witness:
  "\<exists>url request ps signature body.
     alibaba_generate sample_evp 1 2 None (\<lambda>_. Some sample_alibaba) [] sample_form_update = Inr (url, request) \<and>
     (''RR'', ''a&c=d'') \<in> set ps \<and> req_body request = Some body \<and>
     map_sum id (map decode_pair) (split body ''&'') = Inr (ps @ [(''Signature'', signature)])"
proof -
  obtain url request where g: "alibaba_generate sample_evp 1 2 None (\<lambda>_. Some sample_alibaba) [] sample_form_update = Inr (url, request)"
    by (simp add: alibaba_generate_def parse_config_def Let_def)
  from alibaba_form_round_trip [OF g] obtain ps signature body where
    ps: "mset ps = mset (alibaba_param_list (generate_nonce 1 2) (alibaba_timestamp None) sample_alibaba sample_form_update)"
    and b: "req_body request = Some body" "map_sum id (map decode_pair) (split body ''&'') = Inr (ps @ [(''Signature'', signature)])"
    by auto
  have "(''RR'', ''a&c=d'') \<in> set ps"
    using mset_eq_setD [OF ps] by (simp add: alibaba_param_list_def sample_form_update_def)
  with g b show ?thesis by blast
qed

text \<open>The signature of the Alibaba driver is not the base64 text of the MAC: for the twenty bytes of an
  HMAC-SHA1 the standard text has 28 characters and ends with the padding character, and the driver sends
  27 without it.\<close>

theorem alibaba_signature_unpadded:
  assumes "\<And>key data. length (hmac_sha1 lib key data) = 20"
  shows "length (compute_signature lib secret meth query) = 27 \<and> CHR ''='' \<notin> set (compute_signature lib secret meth query)"
proof -
  have "CHR ''='' \<notin> set BASE64_CHARS" by (simp add: BASE64_CHARS_def)
  with base64_alphabet assms show ?thesis by (auto simp: compute_signature_def Let_def base64_length)
qed

theorem alibaba_signature_unpadded_witness:
  "length (compute_signature sample_evp ''s'' ''POST'' ''Action=x'') = 27"
proof -
  have "length (hmac_sha1 sample_evp key data) = 20" for key data
    by (simp add: hmac_sha1_def hmac_digest_def sample_evp_def sample_mac_def)
  from alibaba_signature_unpadded [OF this] show ?thesis by blast
qed

section \<open>The date of a signature\<close>

definition same_day :: "tm \<Rightarrow> tm \<Rightarrow> bool" where
  "same_day a b = (tm_year a = tm_year b \<and> tm_mon a = tm_mon b \<and> tm_mday a = tm_mday b)"

definition valid_tm :: "tm \<Rightarrow> bool" where
  "valid_tm t = (tm_year t < 8100 \<and> tm_mon t < 12 \<and> tm_mday t < 32)"

lemma dec_digit_inject: "m < 10 \<Longrightarrow> n < 10 \<Longrightarrow> dec_digit m = dec_digit n \<longleftrightarrow> m = n"
  by (metis dec_digit_facts)

lemma two_digits_inject: "m < 100 \<Longrightarrow> n < 100 \<Longrightarrow> two_digits m = two_digits n \<longleftrightarrow> m = n"
  by (auto simp: two_digits_def dec_digit_inject less_mult_imp_div_less) (metis div_mult_mod_eq)

lemma dec_string_inject: "dec_string m = dec_string n \<longleftrightarrow> m = n"
  by (metis dec_value_dec_string)

lemma iso8601_date_inject:
  assumes "valid_tm a" "valid_tm b" shows "iso8601_date (Some a) = iso8601_date (Some b) \<longleftrightarrow> same_day a b"
proof -
  have "length (dec_string (tm_year a + 1900)) = length (dec_string (tm_year b + 1900))"
    using assms by (simp add: valid_tm_def dec_string_four)
  moreover have "length (two_digits m) = length (two_digits n)" for m n by (simp add: two_digits_def)
  ultimately show ?thesis
    using assms by (simp add: iso8601_date_def same_day_def valid_tm_def dec_string_inject two_digits_inject)
qed

text \<open>The Route 53 driver reads the clock twice, for the date header and for the date of the credential
  scope. A signature is acceptable only if the second is the day of the first, and it is exactly when
  both readings fall on the same day: a request signed across midnight is rejected.\<close>

theorem route53_scope_date_matches_iff:
  assumes "valid_tm t1" "valid_tm t2" "read config = Some cfg"
  shows "\<exists>url request. route53_generate lib xml (Some t1) (Some t2) read config ctx = Inr (url, request) \<and>
    (''X-Amz-Date'', iso8601_timestamp (Some t1)) \<in> set (req_headers request) \<and>
    (\<exists>signature. (''Authorization'', SIGV4_ALGORITHM @ '' Credential='' @ r53_access_key_id cfg @ ''/'' @
        credential_scope (iso8601_date (Some t2)) (r53_region cfg) @ '', SignedHeaders='' @ SIGNED_HEADERS @
        '', Signature='' @ signature) \<in> set (req_headers request)) \<and>
    (iso8601_date (Some t2) = take 8 (iso8601_timestamp (Some t1)) \<longleftrightarrow> same_day t1 t2)"
proof -
  have "iso8601_date (Some t2) = take 8 (iso8601_timestamp (Some t1)) \<longleftrightarrow> same_day t1 t2"
    using timestamp_date [of t1] iso8601_date_inject [OF assms(1,2)] assms(1)
    by (auto simp: valid_tm_def)
  then show ?thesis
    using assms(3) by (auto simp: route53_generate_def parse_config_def Let_def multimap_of_def simp del: append.simps)
qed

definition sample_r53 :: route53_params where
  "sample_r53 = \<lparr>r53_access_key_id = ''AK'', r53_secret_access_key = ''s'', r53_hosted_zone_id = ''Z1'', r53_region = ''us-east-1'',
     r53_record_name = ''a'', r53_ttl = None\<rparr>"

definition sample_libxml :: libxml where
  "sample_libxml = \<lparr>xml_alloc = True, xml_dump = \<lambda>_ _. Some ''<x/>'', xml_read = \<lambda>_. None\<rparr>"

definition last_second :: tm where
  "last_second = \<lparr>tm_year = 126, tm_mon = 6, tm_mday = 13, tm_hour = 23, tm_min = 59, tm_sec = 59\<rparr>"

definition next_second :: tm where
  "next_second = \<lparr>tm_year = 126, tm_mon = 6, tm_mday = 14, tm_hour = 0, tm_min = 0, tm_sec = 0\<rparr>"

theorem route53_scope_date_matches_iff_witness:
  "\<exists>url request. route53_generate sample_evp sample_libxml (Some last_second) (Some next_second) (\<lambda>_. Some sample_r53) []
       sample_form_update = Inr (url, request) \<and>
     iso8601_date (Some next_second) \<noteq> take 8 (iso8601_timestamp (Some last_second))"
proof -
  have "valid_tm last_second" "valid_tm next_second" "\<not> same_day last_second next_second"
    by (simp_all add: valid_tm_def same_day_def last_second_def next_second_def)
  with route53_scope_date_matches_iff [of last_second next_second "\<lambda>_. Some sample_r53" "[]" sample_r53 sample_evp sample_libxml
      sample_form_update] show ?thesis by auto
qed

end
