(* ===== verification/Driver_Suite.thy ===== *)
theory Driver_Suite
  imports Provider_Drivers Signed_Drivers
begin

text \<open>
  The drivers of the repository together: the name each reports in \<open>get_detail\<close>, its request generator and
  the hosts of its provider. Only the simple driver, whose URL is part of its configuration, is not among
  them. The libraries the drivers read and write with, and the clocks and random numbers of one request,
  are a record.
\<close>

record driver_libs =
  l_write :: "json \<Rightarrow> string option"
  l_encode :: "string \<Rightarrow> string"
  l_evp :: evp
  l_xml :: libxml
  l_clock1 :: "tm option"
  l_clock2 :: "tm option"
  l_nanos :: nat
  l_random :: "64 word"
  l_cloudflare :: "string \<Rightarrow> cloudflare_params option"
  l_digital_ocean :: "string \<Rightarrow> digital_ocean_params option"
  l_dnspod :: "string \<Rightarrow> dnspod_params option"
  l_duckdns :: "string \<Rightarrow> duckdns_params option"
  l_godaddy :: "string \<Rightarrow> godaddy_params option"
  l_linode :: "string \<Rightarrow> linode_params option"
  l_porkbun :: "string \<Rightarrow> porkbun_params option"
  l_vultr :: "string \<Rightarrow> vultr_params option"
  l_route53 :: "string \<Rightarrow> route53_params option"
  l_alibaba :: "string \<Rightarrow> alibaba_params option"
  l_namecheap :: "string \<Rightarrow> namecheap_params option"

definition provider_drivers :: "driver_libs \<Rightarrow> (string \<times> generate \<times> string list) list" where
  "provider_drivers l =
     [(''cloudflare'', cloudflare_generate (l_cloudflare l) (l_write l), [''api.cloudflare.com'']),
      (''digital_ocean'', digital_ocean_generate (l_digital_ocean l) (l_write l), [''api.digitalocean.com'']),
      (''dnspod'', dnspod_generate (l_encode l) (l_dnspod l), map dnspod_host [True, False]),
      (''duckdns'', duckdns_generate (l_duckdns l), [''www.duckdns.org'']),
      (''godaddy'', godaddy_generate (l_godaddy l) (l_write l), [''api.godaddy.com'']),
      (''linode'', linode_generate (l_linode l) (l_write l), [''api.linode.com'']),
      (''porkbun'', porkbun_generate (l_porkbun l) (l_write l), [''api.porkbun.com'']),
      (''vultr'', vultr_generate (l_vultr l) (l_write l), [''api.vultr.com'']),
      (''route53'', route53_generate (l_evp l) (l_xml l) (l_clock1 l) (l_clock2 l) (l_route53 l), [R53_HOST]),
      (''alibaba_cloud'', alibaba_generate (l_evp l) (l_nanos l) (l_random l) (l_clock1 l) (l_alibaba l), [''alidns.aliyuncs.com'']),
      (''namecheap'', namecheap_generate (l_namecheap l), [''dynamicdns.park-your-domain.com''])]"

lemma provider_drivers_provide: "(name, gen, hosts) \<in> set (provider_drivers l) \<Longrightarrow> provider gen hosts"
  unfolding provider_drivers_def list.set insert_iff empty_iff prod.inject
  by (elim disjE conjE FalseE; hypsubst; (rule cloudflare.provider_axioms digital_ocean.provider_axioms dnspod.provider_axioms
      duckdns.provider_axioms godaddy.provider_axioms linode.provider_axioms porkbun.provider_axioms vultr.provider_axioms
      route53.provider_axioms alibaba.provider_axioms namecheap.provider_axioms))

section \<open>Properties\<close>

text \<open>C19. Credentials travel to the provider and nowhere else. For every driver of a provider, every
  configuration text and every update, also with names and tokens that contain slashes, colons or at-signs:
  an execution sends its one request over TLS to a host of the provider at port 443, with the verification of
  the certificate not switched off, and its result is the driver's verdict on the response; it fails with
  an exception of the parameters or of the client only.\<close>

theorem drivers_contact_their_provider:
  assumes "(name, gen, hosts) \<in> set (provider_drivers l)" "opt_verify_server_cert opts \<noteq> Some False"
    and "execute gen check (transient_exchange lib env version send opts) config ctx = Inr ok"
  shows "\<exists>host\<in>set hosts. \<exists>client call. cl_base_url client = ''https://'' @ host @ '':443'' \<and> cl_verify client \<noteq> Some False \<and>
    ok = (case send client call of Inl _ \<Rightarrow> False | Inr r \<Rightarrow> check r)"
  by (rule provider.execute_contacts_host [OF provider_drivers_provide [OF assms(1)] assms(2,3)])

text \<open>A DuckDNS token with a character that could end the host elsewhere.\<close>

definition sample_duckdns :: "string \<Rightarrow> duckdns_params option" where
  "sample_duckdns _ = Some \<lparr>dd_token = ''x@evil.example:80/'', dd_verbose = None\<rparr>"

definition sample_ca :: ca_env where
  "sample_ca = \<lparr>ssl_cert_file = None, openssl_default_file = None, is_regular_file = \<lambda>_. Inr True\<rparr>"

definition no_options :: http_client_options where
  "no_options = \<lparr>opt_address_family = None, opt_interface = None, opt_ca_cert_path = None, opt_verify_server_cert = None,
     opt_connection_timeout = None, opt_read_timeout = None, opt_write_timeout = None, opt_follow_location = None,
     opt_keep_alive = None, opt_default_headers = None\<rparr>"

definition sample_libs :: driver_libs where
  "sample_libs = \<lparr>l_write = \<lambda>_. None, l_encode = \<lambda>s. s, l_evp = sample_evp, l_xml = sample_libxml, l_clock1 = None, l_clock2 = None,
     l_nanos = 0, l_random = 0, l_cloudflare = \<lambda>_. None, l_digital_ocean = \<lambda>_. None, l_dnspod = \<lambda>_. None,
     l_duckdns = sample_duckdns, l_godaddy = \<lambda>_. None, l_linode = \<lambda>_. None, l_porkbun = \<lambda>_. None, l_vultr = \<lambda>_. None,
     l_route53 = \<lambda>_. None, l_alibaba = \<lambda>_. None, l_namecheap = \<lambda>_. None\<rparr>"

text \<open>A library that answers OK to the provider and fails for every other host.\<close>

definition duck_only :: httplib where
  "duck_only client call =
     (if cl_base_url client = ''https://www.duckdns.org:443'' then Inr \<lparr>cr_status = 200, cr_body = ''OK'', cr_headers = []\<rparr>
      else Inl ''refused'')"

theorem drivers_contact_their_provider_witness:
  "\<exists>client call. cl_base_url client = ''https://www.duckdns.org:443'' \<and>
     duckdns_check (projr (duck_only client call)) \<and>
     execute (duckdns_generate sample_duckdns) duckdns_check (transient_exchange letters_lib sample_ca ''v'' duck_only no_options)
       [] sample_update = Inr True"
proof -
  have x: "execute (duckdns_generate sample_duckdns) duckdns_check
      (transient_exchange letters_lib sample_ca ''v'' duck_only no_options) [] sample_update = Inr True" by code_simp
  have m: "(''duckdns'', duckdns_generate sample_duckdns, [''www.duckdns.org'']) \<in> set (provider_drivers sample_libs)"
    by (simp add: provider_drivers_def sample_libs_def)
  have "opt_verify_server_cert no_options \<noteq> Some False" by (simp add: no_options_def)
  from drivers_contact_their_provider [OF m this x] obtain client call where
    "cl_base_url client = ''https://www.duckdns.org:443''" "case duck_only client call of Inl _ \<Rightarrow> False | Inr r \<Rightarrow> duckdns_check r"
    by auto
  with x show ?thesis by (intro exI [of _ client] exI [of _ call]) (auto split: sum.splits)
qed

end
