(* ===== verification/System_Resolver.thy ===== *)
theory System_Resolver
  imports Parser_Native Yad_Errors
begin

text \<open>
  The resolver and the parser of the build without the native DNS stack
  (\<^verbatim>\<open>src/dns/resolver/classic_system.cpp\<close>, \<^verbatim>\<open>src/dns/parser/parser_system.cpp\<close>). libresolv is an argument:
  \<open>res k len\<close> is what the k-th call of \<^verbatim>\<open>res_nquery\<close> with a buffer of that size gives, the value of
  \<^verbatim>\<open>h_errno\<close> or the message, of which only the part that fits is in the buffer; \<open>ns_lib\<close> is what
  \<^verbatim>\<open>ns_initparse\<close>, \<^verbatim>\<open>ns_parserr\<close> and \<^verbatim>\<open>ns_name_uncompress\<close> answer. The set-up of the name server list
  is in \<open>Res_Context\<close>.
\<close>

section \<open>Queries\<close>

datatype h_errno = HOST_NOT_FOUND | TRY_AGAIN | NO_RECOVERY | NO_DATA | NETDB_SUCCESS | NETDB_INTERNAL

fun get_dns_lookup_err :: "h_errno \<Rightarrow> dns_error" where
  "get_dns_lookup_err HOST_NOT_FOUND = NX_DOMAIN"
| "get_dns_lookup_err NO_DATA = NODATA"
| "get_dns_lookup_err NETDB_SUCCESS = UNKNOWN"
| "get_dns_lookup_err TRY_AGAIN = RETRY"
| "get_dns_lookup_err _ = UNKNOWN"

type_synonym res_lib = "nat \<Rightarrow> nat \<Rightarrow> h_errno + byte list"

text \<open>The loop grows the buffer by the size it received. It may not end, hence a partial function.\<close>

partial_function (option) query_loop :: "res_lib \<Rightarrow> nat \<Rightarrow> nat \<Rightarrow> nat \<Rightarrow> byte list result option" where
  "query_loop res k received_size buffer_size =
     (let buffer_size = received_size + buffer_size in
      case res k buffer_size of
        Inl herr \<Rightarrow> Some (Inl (DnsLookupException (get_dns_lookup_err herr)))
      | Inr msg \<Rightarrow>
          if length msg \<ge> buffer_size then query_loop res (Suc k) (length msg) buffer_size
          else Some (Inr msg))"

abbreviation (input) MAXIMUM_UDP_SIZE :: nat where "MAXIMUM_UDP_SIZE \<equiv> 512"

definition do_query :: "res_lib \<Rightarrow> byte list result option" where
  "do_query res = query_loop res 0 0 MAXIMUM_UDP_SIZE"

definition sys_query :: "res_lib \<Rightarrow> (dns_error + byte list) result option" where
  "sys_query res =
     map_option (\<lambda>r. case r of
        Inl (DnsLookupException e) \<Rightarrow> Inr (Inl e)
      | Inl x \<Rightarrow> Inl x
      | Inr d \<Rightarrow> Inr (Inr d)) (do_query res)"

section \<open>Parsing\<close>

record ns_rr =
  ns_rr_name :: string
  ns_rr_type :: u16
  ns_rr_class :: u16
  ns_rr_ttl :: u32
  ns_rr_pos :: nat
  ns_rr_rdlen :: nat

record ns_lib =
  ns_initparse :: "byte list \<Rightarrow> nat option"
  ns_parserr :: "byte list \<Rightarrow> nat \<Rightarrow> ns_rr option"
  ns_name_uncompress :: "byte list \<Rightarrow> nat \<Rightarrow> string option"

record sys_parser =
  sp_data :: "byte list"
  sp_count :: nat
  sp_rcode :: byte

definition SysRecordParser :: "ns_lib \<Rightarrow> byte list \<Rightarrow> sys_parser result" where
  "SysRecordParser ns data =
     (case ns_initparse ns data of
        None \<Rightarrow> parse_error
      | Some n \<Rightarrow> Inr \<lparr>sp_data = data, sp_count = n, sp_rcode = (if HEADER_SIZE \<le> length data then data ! 3 AND 0x0F else 0)\<rparr>)"

text \<open>An exception without a code has the code UNKNOWN. \<^verbatim>\<open>inet_ntop\<close> reads four or sixteen bytes from the start
  of the RDATA, whatever its length; where the packet ends before, that is outside the buffer.\<close>

abbreviation (input) lookup_error :: "'a result" where "lookup_error \<equiv> Inl (DnsLookupException UNKNOWN)"

definition parse_address_record :: "(byte list \<Rightarrow> string option) \<Rightarrow> nat \<Rightarrow> byte list \<Rightarrow> nat \<Rightarrow> string result" where
  "parse_address_record ntop n data pos =
     bindE (subspan data pos n) (\<lambda>bytes. Inr (case ntop bytes of None \<Rightarrow> [] | Some s \<Rightarrow> s))"

definition parse_txt_record :: "byte list \<Rightarrow> string result" where
  "parse_txt_record rdata =
     (case rdata of
        [] \<Rightarrow> lookup_error
      | len # rest \<Rightarrow>
          if length rdata < 1 + unat len then lookup_error
          else Inr (bytes_to_string (take (unat len) rest)))"

definition parse_domain_name_record :: "ns_lib \<Rightarrow> byte list \<Rightarrow> nat \<Rightarrow> string result" where
  "parse_domain_name_record ns data pos = (case ns_name_uncompress ns data pos of None \<Rightarrow> lookup_error | Some s \<Rightarrow> Inr s)"

definition sys_parse_record :: "inet_lib \<Rightarrow> ns_lib \<Rightarrow> sys_parser \<Rightarrow> nat \<Rightarrow> string result" where
  "sys_parse_record lib ns parser index =
     (let data = sp_data parser in
      case ns_parserr ns data index of
        None \<Rightarrow> parse_error
      | Some rr \<Rightarrow>
          let t = ns_rr_type rr; pos = ns_rr_pos rr in
          if t = record_type_val Type_A then parse_address_record (inet_ntop4 lib) 4 data pos
          else if t = record_type_val Type_AAAA then parse_address_record (inet_ntop6 lib) 16 data pos
          else if t = record_type_val Type_TXT then parse_txt_record (substr data pos (ns_rr_rdlen rr))
          else if t = record_type_val Type_NS \<or> t = record_type_val Type_SOA \<or> t = record_type_val Type_CNAME
            then parse_domain_name_record ns data pos
          else if t = record_type_val Type_MX then parse_domain_name_record ns data (pos + 2)
          else lookup_error)"

definition sys_parse_response :: "ns_lib \<Rightarrow> byte list \<Rightarrow> parsed_response result" where
  "sys_parse_response ns data =
     bindE (SysRecordParser ns data) (\<lambda>parser.
     bindE (if sp_rcode parser = NOERROR then
              mapE (\<lambda>i. case ns_parserr ns data i of
                None \<Rightarrow> parse_error
              | Some rr \<Rightarrow> Inr \<lparr>rr_name = ns_rr_name rr, rr_type = ns_rr_type rr, rr_qclass = ns_rr_class rr,
                  rr_ttl = ns_rr_ttl rr, rr_rdata = substr data (ns_rr_pos rr) (ns_rr_rdlen rr), rr_rdata_offset = 0\<rparr>)
                [0..<sp_count parser]
            else Inr []) (\<lambda>answers.
     Inr \<lparr>resp_rcode = sp_rcode parser, resp_answers = answers\<rparr>))"

definition sys_parse_strings :: "inet_lib \<Rightarrow> ns_lib \<Rightarrow> byte list \<Rightarrow> formatted_response result" where
  "sys_parse_strings lib ns data =
     bindE (SysRecordParser ns data) (\<lambda>parser.
     bindE (if sp_rcode parser = NOERROR then mapE (sys_parse_record lib ns parser) [0..<sp_count parser] else Inr []) (\<lambda>records.
     Inr \<lparr>fmt_rcode = sp_rcode parser, fmt_records = records\<rparr>))"

section \<open>What the query loop guarantees\<close>

text \<open>A call that does not end the loop at least doubles the buffer.\<close>

lemma query_loop_returns:
  assumes "\<And>k len msg. res k len = Inr msg \<Longrightarrow> length msg \<le> bound"
  shows "0 < received + buffer \<Longrightarrow> \<exists>r. query_loop res k received buffer = Some r \<and>
    (\<forall>d. r = Inr d \<longrightarrow> (\<exists>k len. res k len = Inr d \<and> length d < len)) \<and>
    (\<forall>x. r = Inl x \<longrightarrow> (\<exists>e. x = DnsLookupException e))"
proof (induction "Suc bound - (received + buffer)" arbitrary: k received buffer rule: less_induct)
  case less
  show ?case
  proof (cases "res k (received + buffer)")
    case (Inl herr)
    then show ?thesis by (subst query_loop.simps) simp
  next
    case (Inr msg)
    show ?thesis
    proof (cases "length msg \<ge> received + buffer")
      case True
      have "length msg \<le> bound" using assms Inr by blast
      with True less.prems have "Suc bound - (length msg + (received + buffer)) < Suc bound - (received + buffer)" by linarith
      from less.hyps [OF this] less.prems True Inr show ?thesis
        by (subst query_loop.simps) simp
    next
      case False
      with Inr show ?thesis by (subst query_loop.simps) (auto simp: Let_def not_le)
    qed
  qed
qed

section \<open>Properties\<close>

text \<open>A query over libresolv ends when no message is longer than the 65535 bytes of a DNS message, and what
  it returns is a whole message, received in a call whose buffer had room for it.\<close>

theorem system_query_returns_whole_message:
  assumes "\<And>k len msg. res k len = Inr msg \<Longrightarrow> length msg \<le> 65535"
  shows "\<exists>r. sys_query res = Some (Inr r) \<and> (\<forall>d. r = Inr d \<longrightarrow> (\<exists>k len. res k len = Inr d \<and> length d < len))"
proof -
  obtain r where r: "do_query res = Some r" "\<forall>d. r = Inr d \<longrightarrow> (\<exists>k len. res k len = Inr d \<and> length d < len)"
    "\<forall>x. r = Inl x \<longrightarrow> (\<exists>e. x = DnsLookupException e)"
    using query_loop_returns [of res 65535 0 512 0] assms unfolding do_query_def by auto
  then show ?thesis by (cases r) (auto simp: sys_query_def)
qed

end
