(* ===== verification/System_Dispatcher.thy ===== *)
theory System_Dispatcher
  imports Updater System_Resolver
begin

text \<open>
  The dispatcher of the build without the native DNS stack (\<^verbatim>\<open>src/dns/dispatcher_system.cpp\<close>). It differs
  from the native one: a failed lookup is an empty list, and the threads of a batch are detached and share
  a state under a mutex. What a thread does under the mutex is one step. \<open>parse\<close> is the parser of the build. An
  exception that leaves a detached thread ends the process; it is the outer \<open>Inl\<close> of a concurrent lookup,
  which no handler sees.
\<close>

section \<open>One query\<close>

definition sys_try_resolve :: "(byte list \<Rightarrow> formatted_response result) \<Rightarrow> (dns_error + byte list) result \<Rightarrow> lookup result" where
  "sys_try_resolve parse query =
     bindE query (\<lambda>raw.
       case raw of
         Inl e \<Rightarrow> Inr (Inl e)
       | Inr data \<Rightarrow>
           (case parse data of
              Inl (DnsLookupException e) \<Rightarrow> Inr (Inl e)
            | Inl x \<Rightarrow> Inl x
            | Inr parsed \<Rightarrow> Inr (classify parsed)))"

definition resolve_single ::
  "(byte list \<Rightarrow> formatted_response result) \<Rightarrow> resolver \<Rightarrow> string \<Rightarrow> record_kind \<Rightarrow> u32 \<Rightarrow> nat \<Rightarrow> string list result option" where
  "resolve_single parse resolver host type max_retries backoff_ms =
     map_option (\<lambda>(r, _, _). map_sum id (case_sum (\<lambda>_. []) id) (unflatten r))
       (retry_on_error (\<lambda>k. flatten (sys_try_resolve parse (resolver k host type))) max_retries
          (\<lambda>e. case e of Inl _ \<Rightarrow> False | Inr code \<Rightarrow> is_retryable code) backoff_ms)"

section \<open>Fallback\<close>

fun resolve_fallback :: "(nat \<Rightarrow> lookup result) \<Rightarrow> nat list \<Rightarrow> string list result" where
  "resolve_fallback ask [] = Inr []"
| "resolve_fallback ask (idx # indices) =
     bindE (ask idx) (\<lambda>r.
       case r of
         Inr records \<Rightarrow> Inr records
       | Inl e \<Rightarrow> if definitive e then Inl (DnsLookupException e) else resolve_fallback ask indices)"

section \<open>A concurrent batch\<close>

record concurrent_state =
  cs_result :: "string list"
  cs_has_result :: bool
  cs_has_nxdomain :: bool
  cs_definitive :: "dns_error option"
  cs_transient :: "dns_error option"
  cs_completed :: nat

definition fresh_state :: concurrent_state where
  "fresh_state = \<lparr>cs_result = [], cs_has_result = False, cs_has_nxdomain = False, cs_definitive = None, cs_transient = None,
     cs_completed = 0\<rparr>"

definition keep_first :: "dns_error \<Rightarrow> dns_error option \<Rightarrow> dns_error option" where
  "keep_first e old = (case old of None \<Rightarrow> Some e | Some _ \<Rightarrow> old)"

text \<open>The end of \<^verbatim>\<open>dispatch_query\<close>: what a thread does under the mutex with its outcome. A cancelled query
  leaves without counting itself.\<close>

definition record_outcome :: "lookup \<Rightarrow> concurrent_state \<Rightarrow> concurrent_state" where
  "record_outcome r s =
     (case r of
        Inr rs \<Rightarrow> if \<not> cs_has_result s then s\<lparr>cs_result := rs, cs_has_result := True\<rparr> else s
      | Inl e \<Rightarrow>
          if e = CANCELLED then s
          else
            (let s = (case e of
                 RETRY \<Rightarrow> s\<lparr>cs_transient := keep_first e (cs_transient s)\<rparr>
               | UNKNOWN \<Rightarrow> s\<lparr>cs_transient := keep_first e (cs_transient s)\<rparr>
               | CONNECTION \<Rightarrow> s\<lparr>cs_transient := keep_first e (cs_transient s)\<rparr>
               | NX_DOMAIN \<Rightarrow> s\<lparr>cs_has_nxdomain := True, cs_definitive := keep_first e (cs_definitive s)\<rparr>
               | SERVER_REFUSED \<Rightarrow> (if cs_definitive s \<noteq> Some NX_DOMAIN then s\<lparr>cs_definitive := Some e\<rparr> else s)
               | NODATA \<Rightarrow> s
               | _ \<Rightarrow> s\<lparr>cs_definitive := keep_first e (cs_definitive s)\<rparr>)
             in s\<lparr>cs_completed := cs_completed s + 1\<rparr>))"

text \<open>The threads that have not finished are querying; one that is querying when the first answer triggers
  the cancellation source may be cancelled.\<close>

record sys_batch =
  sb_state :: concurrent_state
  sb_finished :: "nat set"

inductive sys_step :: "nat \<Rightarrow> (nat \<Rightarrow> lookup) \<Rightarrow> sys_batch \<Rightarrow> sys_batch \<Rightarrow> bool" for n outcome where
  finish: "i < n \<Longrightarrow> i \<notin> sb_finished b \<Longrightarrow>
    sys_step n outcome b \<lparr>sb_state = record_outcome (outcome i) (sb_state b), sb_finished = insert i (sb_finished b)\<rparr>"
| cancel: "i < n \<Longrightarrow> i \<notin> sb_finished b \<Longrightarrow> cs_has_result (sb_state b) \<Longrightarrow>
    sys_step n outcome b \<lparr>sb_state = sb_state b, sb_finished = insert i (sb_finished b)\<rparr>"

inductive sys_reach :: "nat \<Rightarrow> (nat \<Rightarrow> lookup) \<Rightarrow> sys_batch \<Rightarrow> bool" for n outcome where
  start: "sys_reach n outcome \<lparr>sb_state = fresh_state, sb_finished = {}\<rparr>"
| step: "sys_reach n outcome b \<Longrightarrow> sys_step n outcome b b' \<Longrightarrow> sys_reach n outcome b'"

text \<open>The predicate the main thread waits for.\<close>

definition woken :: "nat \<Rightarrow> concurrent_state \<Rightarrow> bool" where
  "woken n s = (cs_has_result s \<or> cs_completed s = n)"

text \<open>What the main thread does with the state of a batch: return, throw, or go on with a last error.\<close>

datatype batch_verdict = Return "string list" | Throw dns_error | Next dns_error | Undefined

definition verdict_of :: "concurrent_state \<Rightarrow> dns_error \<Rightarrow> batch_verdict" where
  "verdict_of s last_error =
     (if cs_has_result s then Return (cs_result s)
      else if cs_has_nxdomain s then (case cs_definitive s of None \<Rightarrow> Undefined | Some e \<Rightarrow> Throw e)
      else case cs_definitive s of
        Some e \<Rightarrow> if \<not> is_retryable e \<and> e \<noteq> SERVER_REFUSED then Throw e else Next e
      | None \<Rightarrow> (case cs_transient s of Some e \<Rightarrow> Next e | None \<Rightarrow> Next last_error))"

text \<open>\<open>run offset qs\<close> is the state in which the batch at that offset wakes the main thread, \<open>None\<close> where it
  never does.\<close>

function resolve_concurrent ::
  "(nat \<Rightarrow> lookup list \<Rightarrow> concurrent_state option) \<Rightarrow> ('r \<Rightarrow> lookup result) \<Rightarrow> 'r list \<Rightarrow> nat \<Rightarrow> dns_error \<Rightarrow> lookup result option" where
  "resolve_concurrent run ask resolvers offset last_error =
     (if offset < length resolvers then
        (case mapE ask (take MAX_CONCURRENT_RESOLVERS (drop offset resolvers)) of
           Inl x \<Rightarrow> Some (Inl x)
         | Inr qs \<Rightarrow>
             (case run offset qs of
                None \<Rightarrow> None
              | Some s \<Rightarrow>
                  (case verdict_of s last_error of
                     Return rs \<Rightarrow> Some (Inr (Inr rs))
                   | Throw e \<Rightarrow> Some (Inr (Inl e))
                   | Undefined \<Rightarrow> Some (Inl OutOfBounds)
                   | Next e \<Rightarrow> resolve_concurrent run ask resolvers (offset + MAX_CONCURRENT_RESOLVERS) e)))
      else Some (Inr (Inr [])))"
  by pat_completeness auto
termination by (relation "measure (\<lambda>(_, _, rs, offset, _). length rs - offset)") auto

declare resolve_concurrent.simps [simp del]

definition sys_resolve ::
  "(byte list \<Rightarrow> formatted_response result) \<Rightarrow> nat list \<Rightarrow> (nat \<Rightarrow> lookup list \<Rightarrow> concurrent_state option) \<Rightarrow> resolver list \<Rightarrow>
   resolver_strategy \<Rightarrow> string \<Rightarrow> record_kind \<Rightarrow> u32 \<Rightarrow> nat \<Rightarrow> lookup result option" where
  "sys_resolve parse indices run resolvers strategy host type max_retries backoff_ms =
     (let ask = (\<lambda>r. sys_try_resolve parse (r 0 host type)) in
      if length resolvers = 1 then
        map_option (\<lambda>r. catch_lookup (map_sum id Inr r)) (resolve_single parse (resolvers ! 0) host type max_retries backoff_ms)
      else if strategy = FALLBACK then Some (catch_lookup (map_sum id Inr (resolve_fallback (\<lambda>i. ask (resolvers ! i)) indices)))
      else resolve_concurrent run ask resolvers 0 NODATA)"

section \<open>Invariant of a batch\<close>

text \<open>Until there is an answer, every finished thread has counted its own failure unless it was cancelled, and
  an NXDOMAIN has left a definitive error.\<close>

definition batch_inv :: "nat \<Rightarrow> (nat \<Rightarrow> lookup) \<Rightarrow> sys_batch \<Rightarrow> bool" where
  "batch_inv n outcome b \<longleftrightarrow> sb_finished b \<subseteq> {..<n} \<and>
     (cs_has_nxdomain (sb_state b) \<longrightarrow> cs_definitive (sb_state b) \<noteq> None) \<and>
     (if cs_has_result (sb_state b) then \<exists>i<n. outcome i = Inr (cs_result (sb_state b))
      else (\<forall>i\<in>sb_finished b. \<exists>e. outcome i = Inl e) \<and>
        cs_completed (sb_state b) = card {i \<in> sb_finished b. outcome i \<noteq> Inl CANCELLED})"

lemma record_failure:
  assumes "e \<noteq> CANCELLED"
  shows "cs_completed (record_outcome (Inl e) s) = cs_completed s + 1" "cs_has_result (record_outcome (Inl e) s) = cs_has_result s"
    "cs_result (record_outcome (Inl e) s) = cs_result s"
    "(cs_has_nxdomain s \<longrightarrow> cs_definitive s \<noteq> None) \<Longrightarrow>
      cs_has_nxdomain (record_outcome (Inl e) s) \<longrightarrow> cs_definitive (record_outcome (Inl e) s) \<noteq> None"
  using assms by (cases e; auto simp: record_outcome_def keep_first_def split: option.splits)+

lemma batch_inv_finish:
  assumes "batch_inv n outcome b" "i < n" "i \<notin> sb_finished b"
  shows "batch_inv n outcome \<lparr>sb_state = record_outcome (outcome i) (sb_state b), sb_finished = insert i (sb_finished b)\<rparr>"
proof (cases "outcome i")
  case (Inr rs)
  with assms show ?thesis by (auto simp: batch_inv_def record_outcome_def)
next
  case (Inl e)
  have fin: "finite (sb_finished b)" using assms(1) finite_subset by (auto simp: batch_inv_def)
  show ?thesis
  proof (cases "e = CANCELLED")
    case True
    have "{j \<in> insert i (sb_finished b). outcome j \<noteq> Inl CANCELLED} = {j \<in> sb_finished b. outcome j \<noteq> Inl CANCELLED}"
      using Inl True by auto
    with assms Inl True show ?thesis by (auto simp: batch_inv_def record_outcome_def)
  next
    case False
    have "{j \<in> insert i (sb_finished b). outcome j \<noteq> Inl CANCELLED} = insert i {j \<in> sb_finished b. outcome j \<noteq> Inl CANCELLED}"
      using Inl False by auto
    with assms Inl fin record_failure [OF False, of "sb_state b"] show ?thesis by (auto simp: batch_inv_def)
  qed
qed

lemma sys_reach_inv: "sys_reach n outcome b \<Longrightarrow> batch_inv n outcome b"
proof (induction rule: sys_reach.induct)
  case start
  then show ?case by (simp add: batch_inv_def fresh_state_def)
next
  case (step b b')
  from step(2) show ?case
  proof cases
    case (finish i)
    with batch_inv_finish [OF step(3)] show ?thesis by simp
  next
    case (cancel i)
    with step(3) show ?thesis by (auto simp: batch_inv_def)
  qed
qed

lemma sys_batch_waits_iff:
  assumes "sys_reach n outcome b" "sb_finished b = {..<n}"
  shows "\<not> woken n (sb_state b) \<longleftrightarrow> (\<forall>i<n. \<exists>e. outcome i = Inl e) \<and> (\<exists>i<n. outcome i = Inl CANCELLED)"
proof -
  have inv: "batch_inv n outcome b" by (rule sys_reach_inv [OF assms(1)])
  let ?C = "{i. i < n \<and> outcome i \<noteq> Inl CANCELLED}"
  have c: "card ?C = n \<longleftrightarrow> (\<forall>i<n. outcome i \<noteq> Inl CANCELLED)"
  proof
    assume "card ?C = n"
    then have "?C = {..<n}" by (intro card_subset_eq) auto
    then show "\<forall>i<n. outcome i \<noteq> Inl CANCELLED" by auto
  next
    assume "\<forall>i<n. outcome i \<noteq> Inl CANCELLED"
    then have "?C = {..<n}" by auto
    then show "card ?C = n" by simp
  qed
  show ?thesis
  proof (cases "cs_has_result (sb_state b)")
    case True
    with inv have "\<exists>i<n. \<exists>rs. outcome i = Inr rs" by (auto simp: batch_inv_def)
    with True show ?thesis by (fastforce simp: woken_def)
  next
    case False
    with inv c assms(2) show ?thesis by (auto simp: batch_inv_def woken_def)
  qed
qed

section \<open>Agreement with the native dispatcher\<close>

text \<open>An answer that is an error code or a packet the parser accepts or rejects with a lookup exception.\<close>

definition clean_answer :: "inet_lib \<Rightarrow> (dns_error + byte list) result \<Rightarrow> bool" where
  "clean_answer lib query =
     (case query of
        Inl _ \<Rightarrow> False
      | Inr (Inl _) \<Rightarrow> True
      | Inr (Inr d) \<Rightarrow> (case parse_strings lib d of Inr _ \<Rightarrow> True | Inl (DnsLookupException _) \<Rightarrow> True | Inl _ \<Rightarrow> False))"

lemma sys_try_resolve_native:
  assumes "clean_answer lib query"
  shows "sys_try_resolve (parse_strings lib) query = try_resolve lib query"
proof (cases query)
  case (Inl x)
  with assms show ?thesis by (simp add: clean_answer_def)
next
  case (Inr raw)
  show ?thesis
  proof (cases raw)
    case (Inl e)
    with Inr show ?thesis by (simp add: sys_try_resolve_def try_resolve_def catch_lookup_def)
  next
    case (Inr d)
    with \<open>query = Inr raw\<close> assms show ?thesis
      by (cases "parse_strings lib d")
         (auto simp: clean_answer_def sys_try_resolve_def try_resolve_def catch_lookup_def split: exn.splits)
  qed
qed

lemma clean_try_resolve: "clean_answer lib query \<Longrightarrow> \<exists>r. try_resolve lib query = Inr r"
  by (cases "try_resolve lib query") (auto simp: clean_answer_def try_resolve_undefined)

lemma resolve_fallback_cong: "(\<And>i. i \<in> set is \<Longrightarrow> f i = g i) \<Longrightarrow> resolve_fallback f is = resolve_fallback g is"
  by (induction "is") (simp_all cong: if_cong)

lemma resolve_fallback_native:
  assumes "\<forall>i\<in>set indices. \<exists>r. ask i = Inr r"
  shows "\<exists>r q. fallback_loop ask indices le qs = Inr (r, q) \<and>
    (case r of Inr rs \<Rightarrow> resolve_fallback ask indices = Inr rs
     | Inl e \<Rightarrow> resolve_fallback ask indices = Inr [] \<or> resolve_fallback ask indices = Inl (DnsLookupException e))"
  using assms
proof (induction indices arbitrary: le qs)
  case (Cons i "is")
  then obtain r where r: "ask i = Inr r" by auto
  show ?case
  proof (cases r)
    case (Inl e)
    with r Cons.prems Cons.IH [of e "qs @ [i]"] show ?thesis by (auto split: sum.splits)
  qed (use r in auto)
qed simp

definition records_or_empty :: "lookup result \<Rightarrow> string list result" where
  "records_or_empty r = map_sum id (case_sum (\<lambda>_. []) id) r"

lemma dns_lookup_records: "dns_lookup dispatcher host type = records_or_empty (dispatcher host type)"
  by (simp add: dns_lookup_def records_or_empty_def)

lemma catch_lookup_records: "catch_lookup (map_sum id Inr (Inr rs)) = Inr (Inr rs)"
  by (simp add: catch_lookup_def)

lemma resolve_single_agrees:
  assumes "\<forall>k. clean_answer lib (resolver k host type)" "unat max_retries < 2 ^ 32 - 1"
  shows "map_option (\<lambda>r. records_or_empty (catch_lookup (map_sum id Inr r)))
      (resolve_single (parse_strings lib) resolver host type max_retries backoff_ms) =
    map_option records_or_empty (single_run lib resolver host type max_retries backoff_ms)"
proof -
  let ?f = "\<lambda>k. flatten (try_resolve lib (resolver k host type))"
  have t: "sys_try_resolve (parse_strings lib) (resolver k host type) = try_resolve lib (resolver k host type)" for k
    using assms(1) by (intro sys_try_resolve_native) auto
  obtain k c sl where r: "retry_on_error ?f max_retries (\<lambda>e. case e of Inl _ \<Rightarrow> False | Inr code \<Rightarrow> is_retryable code) backoff_ms =
      Some (?f k, c, sl)"
    using retry_loop_returns [OF assms(2), of 0 ?f "\<lambda>e. case e of Inl _ \<Rightarrow> False | Inr code \<Rightarrow> is_retryable code" backoff_ms 0 "[]"]
    unfolding retry_on_error_def by auto
  obtain l where "try_resolve lib (resolver k host type) = Inr l" using clean_try_resolve assms(1) by blast
  then show ?thesis
    using r by (cases l) (simp_all add: resolve_single_def single_run_def t flatten_def unflatten_def records_or_empty_def catch_lookup_def)
qed

lemma sys_resolve_agrees:
  assumes "\<forall>x\<in>set resolvers. \<forall>k. clean_answer lib (x k host type)" "unat max_retries < 2 ^ 32 - 1"
    and "set indices \<subseteq> {..<length resolvers}" "length resolvers = 1 \<or> strategy = FALLBACK"
  shows "map_option records_or_empty (sys_resolve (parse_strings lib) indices sys_run resolvers strategy host type max_retries backoff_ms) =
    map_option records_or_empty (resolve lib indices run resolvers strategy host type max_retries backoff_ms)"
proof (cases "length resolvers = 1")
  case True
  then have "resolvers ! 0 \<in> set resolvers" by simp
  with assms(1) have "\<forall>k. clean_answer lib ((resolvers ! 0) k host type)" by blast
  from resolve_single_agrees [of lib "resolvers ! 0" host type, OF this assms(2), of backoff_ms] True show ?thesis
    by (simp add: sys_resolve_def resolve_def option.map_comp comp_def)
next
  case False
  let ?ask = "\<lambda>i. try_resolve lib ((resolvers ! i) 0 host type)"
  have x: "clean_answer lib ((resolvers ! i) 0 host type)" if "i \<in> set indices" for i using assms(1,3) that by auto
  have f: "resolve_fallback (\<lambda>i. sys_try_resolve (parse_strings lib) ((resolvers ! i) 0 host type)) indices = resolve_fallback ?ask indices"
    by (rule resolve_fallback_cong) (simp add: sys_try_resolve_native [OF x])
  have "\<forall>i\<in>set indices. \<exists>r. ?ask i = Inr r" using clean_try_resolve [OF x] by blast
  from resolve_fallback_native [OF this, of NODATA "[]"] obtain r q where
    r: "fallback_loop ?ask indices NODATA [] = Inr (r, q)"
    "case r of Inr rs \<Rightarrow> resolve_fallback ?ask indices = Inr rs
     | Inl e \<Rightarrow> resolve_fallback ?ask indices = Inr [] \<or> resolve_fallback ?ask indices = Inl (DnsLookupException e)"
    by (elim exE conjE) (rule that)
  have "records_or_empty (catch_lookup (map_sum id Inr (resolve_fallback ?ask indices))) = records_or_empty (Inr r)"
    using r(2) by (cases r) (auto simp: records_or_empty_def catch_lookup_def)
  with r(1) f False assms(4) show ?thesis
    by (simp add: sys_resolve_def resolve_def resolve_multi_def fallback_run_def)
qed

section \<open>Properties\<close>



text \<open>A batch of the system dispatcher can wait for ever. When all threads of a batch have left, whatever the
  order, the main thread still waits exactly when none of them has an answer and the query of one reports
  CANCELLED: a cancelled thread leaves without counting itself.\<close>

theorem system_batch_waits_forever_iff:
  assumes "sys_reach n outcome b" "sb_finished b = {..<n}"
  shows "\<not> woken n (sb_state b) \<longleftrightarrow> (\<forall>i<n. \<exists>e. outcome i = Inl e) \<and> (\<exists>i<n. outcome i = Inl CANCELLED)"
  using assms by (rule sys_batch_waits_iff)

theorem system_batch_waits_forever_iff_witness:
  "\<exists>b. sys_reach 1 (\<lambda>_. Inl CANCELLED) b \<and> sb_finished b = {..<1} \<and> \<not> woken 1 (sb_state b)"
proof -
  let ?b = "\<lparr>sb_state = record_outcome (Inl CANCELLED) fresh_state, sb_finished = {0}\<rparr>"
  have "sys_reach 1 (\<lambda>_. Inl CANCELLED) ?b"
    using sys_reach.step [OF sys_reach.start sys_step.finish [of 0 1 "\<lparr>sb_state = fresh_state, sb_finished = {}\<rparr>"]] by simp
  moreover have "sb_finished ?b = {..<1}" by auto
  ultimately show ?thesis using system_batch_waits_forever_iff [of 1 "\<lambda>_. Inl CANCELLED" ?b] by auto
qed

end
