(* ===== verification/Signal_Watcher.thy ===== *)
theory Signal_Watcher
  imports Main
begin

text \<open>
  The signal watcher (\<^verbatim>\<open>src/core/signal_watcher.cpp\<close>): the checks of its constructor and the thread that takes
  SIGINT and SIGTERM with \<^verbatim>\<open>sigwait\<close>. Every thread of the process blocks both signals, so a signal sent to
  the process stays in its pending set until the watcher takes it, and a second one of the same number
  adds nothing. Which pending signal \<^verbatim>\<open>sigwait\<close> takes is left open, hence a step relation.
\<close>

datatype signal = SIGINT | SIGTERM

text \<open>Where the watching thread is: at the head of its loop, in \<^verbatim>\<open>sigwait\<close>, or returned.\<close>

datatype watcher_position = Loop_Head | In_Sigwait | Left_Loop

record watcher =
  pending_signals :: "signal set"
  position :: watcher_position
  sigint_count :: nat
  thread_stop :: bool
  wake_sent :: bool
  stop_source :: bool
  hard_killed :: bool

section \<open>Construction and destruction\<close>

record watcher_statics =
  signals_blocked :: bool
  instance_created :: bool

datatype logic_error = Install_Not_Called | Second_Instance

text \<open>\<open>None\<close> is \<^verbatim>\<open>std::terminate\<close>. The argument says whether the mask could be set.\<close>

definition watcher_install :: "bool \<Rightarrow> watcher_statics \<Rightarrow> watcher_statics option" where
  "watcher_install mask_set st = (if \<not> mask_set then None else Some (st\<lparr>signals_blocked := True\<rparr>))"

definition new_watcher :: watcher where
  "new_watcher = \<lparr>pending_signals = {}, position = Loop_Head, sigint_count = 0, thread_stop = False, wake_sent = False,
     stop_source = False, hard_killed = False\<rparr>"

definition SignalWatcher :: "watcher_statics \<Rightarrow> (logic_error + watcher) \<times> watcher_statics" where
  "SignalWatcher st =
     (if \<not> signals_blocked st then (Inl Install_Not_Called, st)
      else if instance_created st then (Inl Second_Instance, st)
      else (Inr new_watcher, st\<lparr>instance_created := True\<rparr>))"

definition kill_self :: "signal \<Rightarrow> watcher \<Rightarrow> watcher" where
  "kill_self s w = w\<lparr>pending_signals := insert s (pending_signals w)\<rparr>"

text \<open>The two calls of the destructor before the join. The thread may run between them. A thread object is
  joinable although its function has returned.\<close>

definition destroy_request :: "watcher \<Rightarrow> watcher" where
  "destroy_request w = w\<lparr>thread_stop := True\<rparr>"

definition destroy_wake :: "watcher \<Rightarrow> watcher" where
  "destroy_wake w = kill_self SIGINT (w\<lparr>wake_sent := True\<rparr>)"

section \<open>The watching thread\<close>

definition request_stop :: "watcher \<Rightarrow> watcher" where
  "request_stop w = w\<lparr>stop_source := True\<rparr>"

fun handle_signal :: "signal \<Rightarrow> watcher \<Rightarrow> watcher" where
  "handle_signal SIGINT w =
     (let w = w\<lparr>sigint_count := Suc (sigint_count w)\<rparr> in
      if sigint_count w = 1 then request_stop w
      else if sigint_count w = 2 then kill_self SIGTERM w
      else w\<lparr>hard_killed := True\<rparr>)"
| "handle_signal SIGTERM w = (if sigint_count w = 0 then request_stop w else w)"

definition loop_head :: "watcher \<Rightarrow> watcher" where
  "loop_head w = w\<lparr>position := if thread_stop w then Left_Loop else In_Sigwait\<rparr>"

definition take_signal :: "signal \<Rightarrow> watcher \<Rightarrow> watcher" where
  "take_signal s w =
     (let w = w\<lparr>pending_signals := pending_signals w - {s}\<rparr> in
      if thread_stop w then w\<lparr>position := Left_Loop\<rparr> else (handle_signal s w)\<lparr>position := Loop_Head\<rparr>)"

text \<open>A step of the thread. Nothing runs in a process that SIGKILL has ended.\<close>

inductive watcher_step :: "watcher \<Rightarrow> watcher \<Rightarrow> bool" where
  head: "\<not> hard_killed w \<Longrightarrow> position w = Loop_Head \<Longrightarrow> watcher_step w (loop_head w)"
| sigwait: "\<not> hard_killed w \<Longrightarrow> position w = In_Sigwait \<Longrightarrow> s \<in> pending_signals w \<Longrightarrow> watcher_step w (take_signal s w)"

inductive_cases watcher_stepE: "watcher_step w w'"

text \<open>A run, with the signals that came from outside in the order they were sent.\<close>

inductive watcher_run :: "signal list \<Rightarrow> watcher \<Rightarrow> bool" where
  start: "watcher_run [] new_watcher"
| send: "watcher_run ss w \<Longrightarrow> \<not> hard_killed w \<Longrightarrow> watcher_run (ss @ [s]) (kill_self s w)"
| request: "watcher_run ss w \<Longrightarrow> \<not> hard_killed w \<Longrightarrow> watcher_run ss (destroy_request w)"
| wake: "watcher_run ss w \<Longrightarrow> \<not> hard_killed w \<Longrightarrow> thread_stop w \<Longrightarrow> watcher_run ss (destroy_wake w)"
| thread: "watcher_run ss w \<Longrightarrow> watcher_step w w' \<Longrightarrow> watcher_run ss w'"

section \<open>The invariant\<close>

text \<open>Signals taken or pending never exceed those sent; the stop source follows the count; the process is
  killed by a third SIGINT only; the wake-up signal of the destructor is there until the thread has left; and
  no signal that was sent is lost before the stop source is set.\<close>

definition watcher_inv :: "signal list \<Rightarrow> watcher \<Rightarrow> bool" where
  "watcher_inv ss w \<longleftrightarrow>
     (0 < sigint_count w \<longrightarrow> stop_source w) \<and>
     (hard_killed w \<longleftrightarrow> 3 \<le> sigint_count w) \<and>
     (\<not> thread_stop w \<longrightarrow> sigint_count w + (if SIGINT \<in> pending_signals w then 1 else 0) \<le> count_list ss SIGINT) \<and>
     sigint_count w \<le> count_list ss SIGINT \<and>
     (stop_source w \<longrightarrow> ss \<noteq> []) \<and>
     (pending_signals w \<noteq> {} \<longrightarrow> ss \<noteq> [] \<or> thread_stop w) \<and>
     (wake_sent w \<longrightarrow> thread_stop w \<and> (SIGINT \<in> pending_signals w \<or> position w = Left_Loop)) \<and>
     (ss \<noteq> [] \<longrightarrow> stop_source w \<or> pending_signals w \<noteq> {} \<or> thread_stop w) \<and>
     (position w = Left_Loop \<longrightarrow> thread_stop w)"

lemmas watcher_defs = new_watcher_def kill_self_def destroy_request_def destroy_wake_def request_stop_def loop_head_def take_signal_def Let_def

lemma watcher_inv_step:
  assumes "watcher_inv ss w" "watcher_step w w'"
  shows "watcher_inv ss w'"
  using assms(2)
proof (cases rule: watcher_step.cases)
  case head
  with assms(1) show ?thesis by (auto simp: watcher_inv_def watcher_defs)
next
  case (sigwait s)
  with assms(1) show ?thesis
    by (cases s) (auto simp: watcher_inv_def watcher_defs split: if_splits)
qed

lemma watcher_run_inv: "watcher_run ss w \<Longrightarrow> watcher_inv ss w"
proof (induction rule: watcher_run.induct)
  case start
  show ?case by (simp add: watcher_inv_def watcher_defs)
next
  case (send ss w s)
  then show ?case by (cases s) (auto simp: watcher_inv_def watcher_defs)
next
  case (request ss w)
  then show ?case by (auto simp: watcher_inv_def watcher_defs)
next
  case (wake ss w)
  then show ?case by (auto simp: watcher_inv_def watcher_defs)
next
  case (thread ss w w')
  then show ?case using watcher_inv_step by blast
qed

text \<open>A thread that is not blocked by the kernel can always go on, and after the request to stop its next
  step leaves the loop.\<close>

lemma watcher_progress:
  assumes "\<not> hard_killed w" "position w \<noteq> Left_Loop" "position w = In_Sigwait \<Longrightarrow> pending_signals w \<noteq> {}"
  shows "\<exists>w'. watcher_step w w'"
  using assms by (cases "position w") (auto intro: watcher_step.intros)

lemma watcher_step_leaves: "watcher_step w w' \<Longrightarrow> thread_stop w \<Longrightarrow> position w' = Left_Loop"
  by (auto elim!: watcher_stepE simp: watcher_defs)

lemma watcher_run_head:
  "watcher_run ss w \<Longrightarrow> \<not> hard_killed w \<Longrightarrow> position w = Loop_Head \<Longrightarrow> watcher_run ss (loop_head w)"
  by (rule watcher_run.thread [OF _ watcher_step.head])

text \<open>One turn of the loop: a pending signal is taken and the thread waits again.\<close>

lemma watcher_run_turn:
  assumes "watcher_run ss w" "\<not> hard_killed w" "position w = In_Sigwait" "s \<in> pending_signals w" "\<not> thread_stop w"
    and "\<not> hard_killed (take_signal s w)"
  shows "watcher_run ss (loop_head (take_signal s w))"
  by (rule watcher_run_head [OF watcher_run.thread [OF assms(1) watcher_step.sigwait]])
    (use assms in \<open>simp_all add: take_signal_def Let_def\<close>)

section \<open>Properties\<close>

text \<open>C25. In every run of the watcher, whatever signals arrive and however the thread is interleaved with
  them: the process is killed only after three SIGINTs from outside; as long as the watcher is not being
  destroyed and has taken all signals, the stop source is set exactly if a signal was sent; and once the
  destructor has sent its wake-up, the thread has returned or is not blocked, and its next step returns, so
  that the join ends.\<close>

theorem signal_watcher_stops_and_joins:
  assumes "watcher_run ss w"
  shows "(hard_killed w \<longrightarrow> 3 \<le> count_list ss SIGINT) \<and>
    (pending_signals w = {} \<and> \<not> thread_stop w \<longrightarrow> (stop_source w \<longleftrightarrow> ss \<noteq> [])) \<and>
    (wake_sent w \<and> \<not> hard_killed w \<and> position w \<noteq> Left_Loop \<longrightarrow>
       (\<exists>w'. watcher_step w w') \<and> (\<forall>w'. watcher_step w w' \<longrightarrow> position w' = Left_Loop))"
proof -
  have inv: "watcher_inv ss w" using watcher_run_inv [OF assms] .
  then have "\<exists>w'. watcher_step w w'" if "wake_sent w" "\<not> hard_killed w" "position w \<noteq> Left_Loop"
    using that by (intro watcher_progress) (auto simp: watcher_inv_def)
  with inv show ?thesis by (auto simp: watcher_inv_def dest: watcher_step_leaves)
qed

definition one_sigint :: watcher where
  "one_sigint = loop_head (take_signal SIGINT (loop_head (kill_self SIGINT new_watcher)))"

lemma one_sigint_run: "watcher_run [SIGINT] one_sigint"
proof -
  have "watcher_run ([] @ [SIGINT]) (kill_self SIGINT new_watcher)"
    by (intro watcher_run.send watcher_run.start) (simp add: watcher_defs)
  then have "watcher_run [SIGINT] (loop_head (kill_self SIGINT new_watcher))"
    by (intro watcher_run_head) (simp_all add: watcher_defs)
  then show ?thesis unfolding one_sigint_def by (rule watcher_run_turn) (simp_all add: watcher_defs)
qed

lemma one_sigint_state:
  "one_sigint = \<lparr>pending_signals = {}, position = In_Sigwait, sigint_count = 1, thread_stop = False, wake_sent = False,
     stop_source = True, hard_killed = False\<rparr>"
  by (simp add: one_sigint_def watcher_defs)

theorem signal_watcher_stops_and_joins_witness:
  "\<exists>w. watcher_run [SIGINT] w \<and> wake_sent w \<and> stop_source w \<and> position w = In_Sigwait \<and> \<not> hard_killed w \<and>
    (\<exists>w'. watcher_step w w') \<and> (\<forall>w'. watcher_step w w' \<longrightarrow> position w' = Left_Loop)"
proof -
  have r: "watcher_run [SIGINT] (destroy_wake (destroy_request one_sigint))"
    by (intro watcher_run.wake watcher_run.request one_sigint_run) (simp_all add: one_sigint_state destroy_request_def)
  have "wake_sent w \<and> stop_source w \<and> position w = In_Sigwait \<and> \<not> hard_killed w"
    if "w = destroy_wake (destroy_request one_sigint)" for w
    unfolding that by (simp add: one_sigint_state destroy_request_def destroy_wake_def kill_self_def)
  with signal_watcher_stops_and_joins [OF r] r show ?thesis by auto
qed

text \<open>The second SIGINT does not escalate. The SIGTERM the watcher sends to its own process is blocked in
  every thread and is taken by the watcher itself, which ignores it: after the second SIGINT and its SIGTERM
  the watcher waits again, and nothing but the count has changed.\<close>

theorem second_sigint_swallowed:
  assumes "watcher_run ss w" "position w = In_Sigwait" "sigint_count w = 1" "\<not> thread_stop w" "SIGINT \<in> pending_signals w"
  shows "watcher_run ss (loop_head (take_signal SIGTERM (loop_head (take_signal SIGINT w)))) \<and>
    loop_head (take_signal SIGTERM (loop_head (take_signal SIGINT w))) =
      w\<lparr>sigint_count := 2, pending_signals := pending_signals w - {SIGINT, SIGTERM}\<rparr>"
proof -
  have nk: "\<not> hard_killed w" using watcher_run_inv [OF assms(1)] assms(3) by (simp add: watcher_inv_def)
  have one: "watcher_run ss (loop_head (take_signal SIGINT w))"
    using assms nk by (intro watcher_run_turn) (simp_all add: watcher_defs)
  have "watcher_run ss (loop_head (take_signal SIGTERM (loop_head (take_signal SIGINT w))))"
    by (rule watcher_run_turn [OF one]) (use assms nk in \<open>simp_all add: watcher_defs\<close>)
  moreover have "loop_head (take_signal SIGTERM (loop_head (take_signal SIGINT w))) =
      w\<lparr>sigint_count := 2, pending_signals := pending_signals w - {SIGINT, SIGTERM}\<rparr>"
    using assms nk by (cases w) (auto simp: watcher_defs)
  ultimately show ?thesis by blast
qed

theorem second_sigint_swallowed_witness:
  "\<exists>w. watcher_run [SIGINT, SIGINT] w \<and> sigint_count w = 2 \<and> pending_signals w = {} \<and> position w = In_Sigwait"
proof -
  have r: "watcher_run [SIGINT, SIGINT] (kill_self SIGINT one_sigint)"
    using watcher_run.send [OF one_sigint_run, of SIGINT] by (simp add: one_sigint_state)
  have "watcher_run [SIGINT, SIGINT] (loop_head (take_signal SIGTERM (loop_head (take_signal SIGINT (kill_self SIGINT one_sigint))))) \<and>
    loop_head (take_signal SIGTERM (loop_head (take_signal SIGINT (kill_self SIGINT one_sigint)))) =
      (kill_self SIGINT one_sigint)\<lparr>sigint_count := 2, pending_signals := pending_signals (kill_self SIGINT one_sigint) - {SIGINT, SIGTERM}\<rparr>"
    by (rule second_sigint_swallowed [OF r]) (simp_all add: one_sigint_state kill_self_def)
  then show ?thesis by (auto simp: one_sigint_state kill_self_def)
qed

end
