(* ===== verification/Descriptors.thy ===== *)
theory Descriptors
  imports Main
begin

text \<open>
  Descriptor ownership (\<^verbatim>\<open>src/util/fd.hpp\<close>) and the cancellation pipe (\<^verbatim>\<open>src/util/cancellation_token.hpp\<close>).
  A \<^verbatim>\<open>UniqueFd\<close> is its field \<^verbatim>\<open>fd_\<close>. The objects of a program are a map from their names to that field;
  the kernel is the set of open descriptors and the list of \<^verbatim>\<open>close\<close> calls that hit a closed one.
\<close>

section \<open>UniqueFd\<close>

record fd_state =
  objects :: "nat \<Rightarrow> int option"
  open_fds :: "int set"
  raw_fds :: "int set"
  bad_closes :: "int list"

text \<open>\<open>raw_fds\<close> are the open descriptors the program owns through no object: those that system calls have
  just returned, and those released.\<close>

definition no_objects :: fd_state where
  "no_objects = \<lparr>objects = \<lambda>_. None, open_fds = {}, raw_fds = {}, bad_closes = []\<rparr>"

definition sys_close :: "int \<Rightarrow> fd_state \<Rightarrow> fd_state" where
  "sys_close fd st =
     (if fd \<in> open_fds st then st\<lparr>open_fds := open_fds st - {fd}, raw_fds := raw_fds st - {fd}\<rparr>
      else st\<lparr>bad_closes := bad_closes st @ [fd]\<rparr>)"

definition field_of :: "nat \<Rightarrow> fd_state \<Rightarrow> int" where
  "field_of x st = (case objects st x of Some fd \<Rightarrow> fd | None \<Rightarrow> -1)"

definition set_field :: "nat \<Rightarrow> int \<Rightarrow> fd_state \<Rightarrow> fd_state" where
  "set_field x fd st = st\<lparr>objects := (objects st)(x \<mapsto> fd)\<rparr>"

definition fd_close :: "nat \<Rightarrow> fd_state \<Rightarrow> fd_state" where
  "fd_close x st =
     (if field_of x st \<ge> 0 then let old_fd = field_of x st in sys_close old_fd (set_field x (-1) st) else st)"

definition own :: "int \<Rightarrow> fd_state \<Rightarrow> fd_state" where
  "own fd st = st\<lparr>raw_fds := raw_fds st - {fd}\<rparr>"

definition UniqueFd :: "nat \<Rightarrow> int \<Rightarrow> fd_state \<Rightarrow> fd_state" where
  "UniqueFd x fd st = set_field x fd (own fd st)"

definition fd_destroy :: "nat \<Rightarrow> fd_state \<Rightarrow> fd_state" where
  "fd_destroy x st = (let st = fd_close x st in st\<lparr>objects := (objects st)(x := None)\<rparr>)"

definition fd_exchange :: "nat \<Rightarrow> fd_state \<Rightarrow> int \<times> fd_state" where
  "fd_exchange x st = (field_of x st, set_field x (-1) st)"

definition fd_move_construct :: "nat \<Rightarrow> nat \<Rightarrow> fd_state \<Rightarrow> fd_state" where
  "fd_move_construct x other st = (let (fd, st) = fd_exchange other st in set_field x fd st)"

definition fd_move_assign :: "nat \<Rightarrow> nat \<Rightarrow> fd_state \<Rightarrow> fd_state" where
  "fd_move_assign x other st =
     (if x \<noteq> other then let st = fd_close x st; (fd, st) = fd_exchange other st in set_field x fd st else st)"

definition fd_reset :: "nat \<Rightarrow> int \<Rightarrow> fd_state \<Rightarrow> fd_state" where
  "fd_reset x fd st = (let st = fd_close x st in set_field x fd (own fd st))"

definition fd_release :: "nat \<Rightarrow> fd_state \<Rightarrow> int \<times> fd_state" where
  "fd_release x st =
     (let (fd, st) = fd_exchange x st in (fd, if fd \<ge> 0 then st\<lparr>raw_fds := insert fd (raw_fds st)\<rparr> else st))"

text \<open>\<^verbatim>\<open>make_pipe\<close>: the kernel gives two new descriptors, or the pair stays \<open>-1\<close>.\<close>

definition make_pipe :: "(int \<times> int) option \<Rightarrow> nat \<Rightarrow> nat \<Rightarrow> fd_state \<Rightarrow> fd_state" where
  "make_pipe sys r w st =
     (let (fds, st) = (case sys of
          Some (a, b) \<Rightarrow> ((a, b), st\<lparr>open_fds := open_fds st \<union> {a, b}, raw_fds := raw_fds st \<union> {a, b}\<rparr>)
        | None \<Rightarrow> ((-1, -1), st))
      in UniqueFd w (snd fds) (UniqueFd r (fst fds) st))"

text \<open>What a program does with descriptors. The conditions are the caller's part of the contract: a
  constructor makes a new object, a member function has one, a descriptor handed over is not owned by another
  object, and the kernel returns descriptors that were not open.\<close>

definition handover :: "int \<Rightarrow> fd_state \<Rightarrow> bool" where
  "handover fd st \<longleftrightarrow> fd < 0 \<or> fd \<in> raw_fds st"

inductive fd_run :: "fd_state \<Rightarrow> bool" where
  start: "fd_run no_objects"
| sys_open: "fd_run st \<Longrightarrow> 0 \<le> fd \<Longrightarrow> fd \<notin> open_fds st \<Longrightarrow>
    fd_run (st\<lparr>open_fds := insert fd (open_fds st), raw_fds := insert fd (raw_fds st)\<rparr>)"
| raw_close: "fd_run st \<Longrightarrow> fd \<in> raw_fds st \<Longrightarrow> fd_run (sys_close fd st)"
| construct: "fd_run st \<Longrightarrow> objects st x = None \<Longrightarrow> handover fd st \<Longrightarrow> fd_run (UniqueFd x fd st)"
| move_construct: "fd_run st \<Longrightarrow> objects st x = None \<Longrightarrow> objects st y \<noteq> None \<Longrightarrow> fd_run (fd_move_construct x y st)"
| move_assign: "fd_run st \<Longrightarrow> objects st x \<noteq> None \<Longrightarrow> objects st y \<noteq> None \<Longrightarrow> fd_run (fd_move_assign x y st)"
| reset: "fd_run st \<Longrightarrow> objects st x \<noteq> None \<Longrightarrow> handover fd st \<Longrightarrow> fd_run (fd_reset x fd st)"
| release: "fd_run st \<Longrightarrow> objects st x \<noteq> None \<Longrightarrow> fd_run (snd (fd_release x st))"
| pipe: "fd_run st \<Longrightarrow> objects st r = None \<Longrightarrow> objects st w = None \<Longrightarrow> r \<noteq> w \<Longrightarrow>
    (\<forall>a b. sys = Some (a, b) \<longrightarrow> 0 \<le> a \<and> 0 \<le> b \<and> a \<noteq> b \<and> a \<notin> open_fds st \<and> b \<notin> open_fds st) \<Longrightarrow>
    fd_run (make_pipe sys r w st)"
| destroy: "fd_run st \<Longrightarrow> objects st x \<noteq> None \<Longrightarrow> fd_run (fd_destroy x st)"

section \<open>The ownership invariant\<close>

definition owns_fd :: "fd_state \<Rightarrow> nat \<Rightarrow> int \<Rightarrow> bool" where
  "owns_fd st x fd \<longleftrightarrow> objects st x = Some fd \<and> 0 \<le> fd"

text \<open>Every open descriptor has exactly one owner, an object or the program itself, and no \<^verbatim>\<open>close\<close> has missed.\<close>

definition fd_inv :: "fd_state \<Rightarrow> bool" where
  "fd_inv st \<longleftrightarrow> bad_closes st = [] \<and> (\<forall>fd\<in>raw_fds st. 0 \<le> fd) \<and>
     (\<forall>fd. fd \<in> open_fds st \<longleftrightarrow> fd \<in> raw_fds st \<or> (\<exists>x. owns_fd st x fd)) \<and>
     (\<forall>x y fd. owns_fd st x fd \<and> owns_fd st y fd \<longrightarrow> x = y) \<and>
     (\<forall>x fd. owns_fd st x fd \<longrightarrow> fd \<notin> raw_fds st)"

lemma owns_fd_simps [simp]:
  "owns_fd (set_field x fd st) y g \<longleftrightarrow> (if y = x then g = fd \<and> 0 \<le> fd else owns_fd st y g)"
  "owns_fd (st\<lparr>open_fds := A\<rparr>) = owns_fd st" "owns_fd (st\<lparr>raw_fds := A\<rparr>) = owns_fd st"
  "owns_fd (st\<lparr>objects := (objects st)(x := None)\<rparr>) y g \<longleftrightarrow> y \<noteq> x \<and> owns_fd st y g"
  by (auto simp: owns_fd_def set_field_def fun_eq_iff)

lemma set_field_simps [simp]:
  "open_fds (set_field x fd st) = open_fds st" "raw_fds (set_field x fd st) = raw_fds st"
  "bad_closes (set_field x fd st) = bad_closes st" "objects (set_field x fd st) = (objects st)(x \<mapsto> fd)"
  "(set_field x fd st)\<lparr>raw_fds := A\<rparr> = set_field x fd (st\<lparr>raw_fds := A\<rparr>)"
  by (simp_all add: set_field_def)

lemma fd_invD:
  assumes "fd_inv st"
  shows "bad_closes st = []" "fd \<in> raw_fds st \<Longrightarrow> 0 \<le> fd"
    "fd \<in> open_fds st \<longleftrightarrow> fd \<in> raw_fds st \<or> (\<exists>x. owns_fd st x fd)"
    "owns_fd st x fd \<Longrightarrow> owns_fd st y fd \<Longrightarrow> x = y" "owns_fd st x fd \<Longrightarrow> fd \<notin> raw_fds st"
  using assms unfolding fd_inv_def by (simp_all, blast)

lemma owns_fd_unique: "owns_fd st x f \<Longrightarrow> owns_fd st x g \<Longrightarrow> f = g"
  by (simp add: owns_fd_def)

lemma owns_fd_nonneg: "owns_fd st x f \<Longrightarrow> 0 \<le> f"
  by (simp add: owns_fd_def)

lemma fd_invI:
  assumes "bad_closes st = []" "\<And>fd. fd \<in> raw_fds st \<Longrightarrow> 0 \<le> fd"
    "\<And>fd. fd \<in> open_fds st \<longleftrightarrow> fd \<in> raw_fds st \<or> (\<exists>x. owns_fd st x fd)"
    "\<And>x y fd. owns_fd st x fd \<Longrightarrow> owns_fd st y fd \<Longrightarrow> x = y" "\<And>x fd. owns_fd st x fd \<Longrightarrow> fd \<notin> raw_fds st"
  shows "fd_inv st"
  using assms unfolding fd_inv_def by blast

text \<open>The four ways ownership changes: an object gives its descriptor to the program, it takes one from the
  program, the program closes one, or a field that owns nothing gets another such value.\<close>

lemma fd_inv_give:
  assumes "fd_inv st" "owns_fd st x fd"
  shows "fd_inv ((set_field x (-1) st)\<lparr>raw_fds := insert fd (raw_fds st)\<rparr>)"
proof (rule fd_invI, goal_cases)
  case (3 f)
  have "(\<exists>y. owns_fd st y f) \<longleftrightarrow> f = fd \<or> (\<exists>y. y \<noteq> x \<and> owns_fd st y f)"
    using assms(2) owns_fd_unique by metis
  then show ?case using fd_invD(3) [OF assms(1), of f] by simp blast
qed (use fd_invD(1,2) [OF assms(1)] owns_fd_nonneg [OF assms(2)] in \<open>auto split: if_splits dest: fd_invD(4) [OF assms(1)] fd_invD(5) [OF assms(1)] fd_invD(4) [OF assms(1,2)]\<close>)

lemma fd_inv_take:
  assumes "fd_inv st" "fd \<in> raw_fds st" "\<And>g. \<not> owns_fd st x g"
  shows "fd_inv (set_field x fd (own fd st))"
proof (rule fd_invI, goal_cases)
  case (3 f)
  have "(\<exists>y. y \<noteq> x \<and> owns_fd st y f) \<longleftrightarrow> (\<exists>y. owns_fd st y f)" using assms(3) by metis
  then show ?case using fd_invD(3) [OF assms(1), of f] fd_invD(2) [OF assms(1,2)] assms(2)
    by (auto simp: own_def)
qed (use fd_invD(1,2) [OF assms(1)] assms(2) in \<open>auto simp: own_def split: if_splits dest: fd_invD(4) [OF assms(1)] fd_invD(5) [OF assms(1)]\<close>)

lemma fd_inv_neutral:
  assumes "fd_inv st" "fd < 0" "\<And>g. \<not> owns_fd st x g"
  shows "fd_inv (set_field x fd st)" "fd_inv (st\<lparr>objects := (objects st)(x := None)\<rparr>)"
proof -
  have owns: "owns_fd (set_field x fd st) = owns_fd st" "owns_fd (st\<lparr>objects := (objects st)(x := None)\<rparr>) = owns_fd st"
    using assms(2,3) by (auto simp: fun_eq_iff)
  show "fd_inv (set_field x fd st)" "fd_inv (st\<lparr>objects := (objects st)(x := None)\<rparr>)"
    using assms(1) by (simp_all add: fd_inv_def owns)
qed

lemma fd_inv_close_raw:
  assumes "fd_inv st" "fd \<in> raw_fds st"
  shows "fd_inv (sys_close fd st)"
proof -
  have o: "fd \<in> open_fds st" "\<not> owns_fd st x fd" for x using fd_invD(3,5) [OF assms(1)] assms(2) by blast+
  show ?thesis
  proof (rule fd_invI, goal_cases)
    case (3 f)
    with o fd_invD(3) [OF assms(1), of f] show ?case by (auto simp: sys_close_def)
  qed (use o fd_invD(1,2) [OF assms(1)] in \<open>auto simp: sys_close_def dest: fd_invD(4) [OF assms(1)] fd_invD(5) [OF assms(1)]\<close>)
qed

lemma field_of_owns: "owns_fd st x (field_of x st) \<longleftrightarrow> 0 \<le> field_of x st" "owns_fd st x fd \<Longrightarrow> field_of x st = fd"
  by (auto simp: owns_fd_def field_of_def split: option.splits)

lemma fd_close_inv:
  assumes "fd_inv st"
  shows "fd_inv (fd_close x st)" "\<not> owns_fd (fd_close x st) x g" "raw_fds (fd_close x st) = raw_fds st"
    "y \<noteq> x \<Longrightarrow> objects (fd_close x st) y = objects st y"
proof -
  show "fd_inv (fd_close x st)"
  proof (cases "0 \<le> field_of x st")
    case True
    then have o: "owns_fd st x (field_of x st)" by (simp add: field_of_owns)
    have "fd_inv (sys_close (field_of x st) ((set_field x (-1) st)\<lparr>raw_fds := insert (field_of x st) (raw_fds st)\<rparr>))"
      by (rule fd_inv_close_raw [OF fd_inv_give [OF assms o]]) simp
    moreover have "field_of x st \<in> open_fds st" "field_of x st \<notin> raw_fds st" using fd_invD(3,5) [OF assms] o by blast+
    ultimately show ?thesis using True by (simp add: fd_close_def sys_close_def Let_def set_field_def)
  qed (simp add: fd_close_def assms)
qed (auto simp: fd_close_def sys_close_def Let_def owns_fd_def set_field_def field_of_def fd_invD(3,5) [OF assms] split: option.splits if_splits)

lemma handover_inv:
  assumes "fd_inv st" "handover fd st" "\<And>g. \<not> owns_fd st x g"
  shows "fd_inv (UniqueFd x fd st)"
proof (cases "fd \<in> raw_fds st")
  case True
  then show ?thesis using fd_inv_take [OF assms(1) _ assms(3)] by (simp add: UniqueFd_def)
next
  case False
  then have "own fd st = st" by (simp add: own_def)
  with False assms fd_inv_neutral(1) show ?thesis by (simp add: UniqueFd_def handover_def)
qed

text \<open>Moving a field is giving its descriptor to the program and taking it back into the other object.\<close>

lemma move_inv:
  assumes "fd_inv st" "\<And>g. \<not> owns_fd st x g" "x \<noteq> y"
  shows "fd_inv (set_field x (field_of y st) (set_field y (-1) st))"
proof (cases "0 \<le> field_of y st")
  case True
  then have o: "owns_fd st y (field_of y st)" by (simp add: field_of_owns)
  have "fd_inv (set_field x (field_of y st) (own (field_of y st) ((set_field y (-1) st)\<lparr>raw_fds := insert (field_of y st) (raw_fds st)\<rparr>)))"
    by (rule fd_inv_take [OF fd_inv_give [OF assms(1) o]]) (use assms in auto)
  then show ?thesis using fd_invD(5) [OF assms(1) o] by (simp add: own_def)
next
  case False
  then have "\<not> owns_fd st y g" for g using field_of_owns [of st y] by auto
  with False assms show ?thesis by (auto intro!: fd_inv_neutral(1))
qed

lemma release_inv:
  assumes "fd_inv st"
  shows "fd_inv (snd (fd_release x st))"
proof (cases "0 \<le> field_of x st")
  case True
  then have "owns_fd st x (field_of x st)" by (simp add: field_of_owns)
  with fd_inv_give [OF assms this] True show ?thesis by (simp add: fd_release_def fd_exchange_def)
next
  case False
  then have "\<not> owns_fd st x g" for g using field_of_owns [of st x] by auto
  with False assms show ?thesis by (auto simp: fd_release_def fd_exchange_def intro!: fd_inv_neutral(1))
qed

lemma sys_open_inv:
  assumes "fd_inv st" "0 \<le> fd" "fd \<notin> open_fds st"
  shows "fd_inv (st\<lparr>open_fds := insert fd (open_fds st), raw_fds := insert fd (raw_fds st)\<rparr>)"
proof -
  have "owns_fd (st\<lparr>open_fds := A, raw_fds := B\<rparr>) = owns_fd st" for A B by (auto simp: fun_eq_iff owns_fd_def)
  moreover have "\<not> owns_fd st x fd" for x using fd_invD(3) [OF assms(1)] assms(3) by blast
  ultimately show ?thesis using assms(1,2) by (auto simp: fd_inv_def)
qed

lemma UniqueFd_other: "y \<noteq> x \<Longrightarrow> objects (UniqueFd x fd st) y = objects st y" "raw_fds (UniqueFd x fd st) = raw_fds st - {fd}"
  by (simp_all add: UniqueFd_def own_def)

lemma make_pipe_inv:
  assumes "fd_inv st" "objects st r = None" "objects st w = None" "r \<noteq> w"
    and "\<forall>a b. sys = Some (a, b) \<longrightarrow> 0 \<le> a \<and> 0 \<le> b \<and> a \<noteq> b \<and> a \<notin> open_fds st \<and> b \<notin> open_fds st"
  shows "fd_inv (make_pipe sys r w st)"
proof -
  have both: "fd_inv (UniqueFd w b (UniqueFd r a st'))"
    if "fd_inv st'" "handover a st'" "handover b st'" "a = b \<longrightarrow> a < 0" "objects st' = objects st" for st' a b
  proof -
    have "fd_inv (UniqueFd r a st')" using that assms(2) by (intro handover_inv) (simp_all add: owns_fd_def)
    moreover have "handover b (UniqueFd r a st')"
      using that(2-4) by (cases "b < 0") (auto simp: handover_def UniqueFd_other)
    moreover have "\<not> owns_fd (UniqueFd r a st') w g" for g
      using that(5) assms(3,4) by (simp add: owns_fd_def UniqueFd_other)
    ultimately show ?thesis by (rule handover_inv)
  qed
  show ?thesis
  proof (cases sys)
    case None
    with both [OF assms(1), of "-1" "-1"] show ?thesis by (simp add: make_pipe_def handover_def)
  next
    case (Some p)
    obtain a b where p: "p = (a, b)" by (cases p)
    let ?st = "st\<lparr>open_fds := open_fds st \<union> {a, b}, raw_fds := raw_fds st \<union> {a, b}\<rparr>"
    have "fd_inv ?st" using sys_open_inv [OF sys_open_inv [OF assms(1), of a], of b] assms(5) Some p
      by (simp add: insert_commute)
    with both [of ?st a b] assms(5) Some p show ?thesis by (simp add: make_pipe_def handover_def)
  qed
qed

lemma fd_run_inv: "fd_run st \<Longrightarrow> fd_inv st"
proof (induction rule: fd_run.induct)
  case start
  show ?case by (auto simp: fd_inv_def no_objects_def owns_fd_def)
next
  case (move_construct st x y)
  then have "\<And>g. \<not> owns_fd st x g" "x \<noteq> y" by (auto simp: owns_fd_def)
  with move_inv move_construct.IH show ?case by (simp add: fd_move_construct_def fd_exchange_def)
next
  case (move_assign st x y)
  show ?case
  proof (cases "x = y")
    case True
    with move_assign.IH show ?thesis by (simp add: fd_move_assign_def)
  next
    case False
    then show ?thesis using move_inv [OF fd_close_inv(1,2) [OF move_assign.IH] False]
      by (simp add: fd_move_assign_def fd_exchange_def Let_def)
  qed
next
  case (reset st x fd)
  have "handover fd (fd_close x st)" using reset fd_close_inv(3) by (simp add: handover_def)
  from handover_inv [OF fd_close_inv(1) [OF reset.IH] this fd_close_inv(2) [OF reset.IH]]
  show ?case by (simp add: fd_reset_def UniqueFd_def)
next
  case (destroy st x)
  from fd_inv_neutral(2) [OF fd_close_inv(1) [OF destroy.IH] _ fd_close_inv(2) [OF destroy.IH], of "-1"]
  show ?case by (simp add: fd_destroy_def Let_def)
next
  case (construct st x fd)
  then show ?case by (intro handover_inv) (simp_all add: owns_fd_def)
qed (simp_all add: sys_open_inv fd_inv_close_raw release_inv make_pipe_inv)

section \<open>The cancellation pipe\<close>

text \<open>A source, while it exists, and the threads that poll its token. \<open>pipe_bytes\<close> is what the pipe holds. The pipe blocks: a
  read from it waits for a byte, a write waits for room. A thread that polls waits in \<^verbatim>\<open>poll\<close>, or has seen
  \<^verbatim>\<open>POLLIN\<close> and is in \<^verbatim>\<open>drain\<close>, or has returned \<^verbatim>\<open>CANCELLED\<close>.\<close>

datatype poller = In_Poll | In_Drain | Was_Cancelled

record cancellation =
  read_end :: int
  write_end :: int
  pipe_bytes :: nat
  triggers :: nat
  pollers :: "poller list"

definition CancellationSource :: "(int \<times> int) option \<Rightarrow> nat \<Rightarrow> cancellation" where
  "CancellationSource sys n =
     (let (r, w) = (case sys of Some p \<Rightarrow> p | None \<Rightarrow> (-1, -1))
      in \<lparr>read_end = r, write_end = w, pipe_bytes = 0, triggers = 0, pollers = replicate n In_Poll\<rparr>)"

definition pipe_capacity :: nat where
  "pipe_capacity = 65536"

definition native_handle :: "cancellation \<Rightarrow> int" where
  "native_handle c = read_end c"

text \<open>\<open>None\<close> is a call that waits.\<close>

definition trigger :: "cancellation \<Rightarrow> cancellation option" where
  "trigger c =
     (if write_end c \<ge> 0 then
        if pipe_bytes c + 8 \<le> pipe_capacity then Some (c\<lparr>pipe_bytes := pipe_bytes c + 8, triggers := Suc (triggers c)\<rparr>) else None
      else Some c)"

definition is_triggered :: "cancellation \<Rightarrow> bool" where
  "is_triggered c = (if read_end c < 0 then False else 0 < pipe_bytes c)"

definition drain :: "cancellation \<Rightarrow> cancellation option" where
  "drain c =
     (if native_handle c \<ge> 0 then
        if pipe_bytes c = 0 then None else Some (c\<lparr>pipe_bytes := pipe_bytes c - min 8 (pipe_bytes c)\<rparr>)
      else Some c)"

definition move_poller :: "nat \<Rightarrow> poller \<Rightarrow> cancellation \<Rightarrow> cancellation" where
  "move_poller i p c = c\<lparr>pollers := (pollers c)[i := p]\<rparr>"

inductive poller_step :: "cancellation \<Rightarrow> cancellation \<Rightarrow> bool" where
  poll: "i < length (pollers c) \<Longrightarrow> pollers c ! i = In_Poll \<Longrightarrow> is_triggered c \<Longrightarrow> poller_step c (move_poller i In_Drain c)"
| drain: "i < length (pollers c) \<Longrightarrow> pollers c ! i = In_Drain \<Longrightarrow> drain c = Some c' \<Longrightarrow>
    poller_step c (move_poller i Was_Cancelled c')"

inductive cancel_run :: "(int \<times> int) option \<Rightarrow> nat \<Rightarrow> cancellation \<Rightarrow> bool" for sys n where
  start: "cancel_run sys n (CancellationSource sys n)"
| trigger: "cancel_run sys n c \<Longrightarrow> trigger c = Some c' \<Longrightarrow> cancel_run sys n c'"
| step: "cancel_run sys n c \<Longrightarrow> poller_step c c' \<Longrightarrow> cancel_run sys n c'"

text \<open>Every cancelled thread has taken the eight bytes of one trigger.\<close>

definition cancel_inv :: "(int \<times> int) option \<Rightarrow> nat \<Rightarrow> cancellation \<Rightarrow> bool" where
  "cancel_inv sys n c \<longleftrightarrow> read_end c = fst (case sys of Some p \<Rightarrow> p | None \<Rightarrow> (-1, -1)) \<and> length (pollers c) = n \<and>
     pipe_bytes c + 8 * count_list (pollers c) Was_Cancelled = 8 * triggers c"

lemma count_list_update:
  "i < length xs \<Longrightarrow> count_list (xs[i := y]) a + (if xs ! i = a then 1 else 0) = count_list xs a + (if y = a then 1 else 0)"
proof (induction xs arbitrary: i)
  case (Cons x xs)
  show ?case
  proof (cases i)
    case (Suc k)
    with Cons.prems have "k < length xs" by simp
    from Cons.IH [OF this] Suc show ?thesis by (auto split: if_splits)
  qed simp
qed simp

lemma cancel_run_inv:
  assumes "cancel_run sys n c" "sys = Some (r, w)" "0 \<le> r"
  shows "cancel_inv sys n c"
  using assms(1)
proof (induction rule: cancel_run.induct)
  case start
  have "count_list (replicate n In_Poll) Was_Cancelled = 0" by (induction n) simp_all
  then show ?case using assms(2) by (simp add: CancellationSource_def cancel_inv_def)
next
  case (trigger c c')
  then show ?case by (auto simp: trigger_def cancel_inv_def split: if_splits)
next
  case (step c c')
  from step.hyps(2) show ?case
  proof (cases rule: poller_step.cases)
    case (poll i)
    with step.IH count_list_update [OF poll(2), of In_Drain Was_Cancelled] show ?thesis
      by (simp add: cancel_inv_def move_poller_def)
  next
    case (drain i c1)
    have le: "8 \<le> pipe_bytes c \<or> pipe_bytes c = 0" using step.IH by (auto simp: cancel_inv_def) presburger
    with drain(4) step.IH assms(2,3) have c1: "c1 = c\<lparr>pipe_bytes := pipe_bytes c - 8\<rparr>" "8 \<le> pipe_bytes c"
      by (auto simp: drain_def native_handle_def cancel_inv_def split: if_splits)
    with step.IH count_list_update [OF drain(2), of Was_Cancelled Was_Cancelled] drain(1,3) show ?thesis
      by (simp add: cancel_inv_def move_poller_def)
  qed
qed

section \<open>Properties\<close>

text \<open>C28. In every program that hands a descriptor over at most once, however its objects are constructed,
  moved, assigned (to themselves too), reset, released and destroyed: no descriptor is closed twice and none is
  closed that is not open; two objects never own the same descriptor; and when the objects are gone and the
  program holds no descriptor itself, nothing is left open.\<close>

theorem unique_fd_closes_once:
  assumes "fd_run st"
  shows "bad_closes st = [] \<and> (\<forall>x y fd. objects st x = Some fd \<and> objects st y = Some fd \<and> 0 \<le> fd \<longrightarrow> x = y) \<and>
    ((\<forall>x. objects st x = None) \<and> raw_fds st = {} \<longrightarrow> open_fds st = {})"
  using fd_run_inv [OF assms] fd_invD(4) [OF fd_run_inv [OF assms]] unfolding fd_inv_def owns_fd_def by auto

lemma sample_fd_run: "fd_run (fd_destroy 0 (fd_destroy 1 (fd_move_assign 1 0 (make_pipe (Some (3, 4)) 0 1 no_objects))))"
proof -
  have "fd_run (make_pipe (Some (3, 4)) 0 1 no_objects)"
    by (rule fd_run.pipe [OF fd_run.start]) (simp_all add: no_objects_def)
  then have "fd_run (fd_move_assign 1 0 (make_pipe (Some (3, 4)) 0 1 no_objects))"
    by (rule fd_run.move_assign) (simp_all add: make_pipe_def UniqueFd_def own_def)
  then show ?thesis
    by (intro fd_run.destroy) (simp_all add: fd_destroy_def fd_close_def Let_def fd_move_assign_def fd_exchange_def make_pipe_def
        UniqueFd_def sys_close_def field_of_def set_field_def own_def)
qed

theorem unique_fd_closes_once_witness:
  "\<exists>st. fd_run st \<and> (\<forall>x. objects st x = None) \<and> raw_fds st = {} \<and> open_fds st = {} \<and> bad_closes st = []"
proof -
  have "(\<forall>x. objects st x = None) \<and> raw_fds st = {}"
    if "st = fd_destroy 0 (fd_destroy 1 (fd_move_assign 1 0 (make_pipe (Some (3, 4)) 0 1 no_objects)))" for st
    unfolding that by (auto simp: fd_destroy_def fd_close_def Let_def fd_move_assign_def fd_exchange_def make_pipe_def
        UniqueFd_def sys_close_def field_of_def set_field_def own_def no_objects_def)
  with unique_fd_closes_once [OF sample_fd_run] sample_fd_run show ?thesis by blast
qed

text \<open>While a source exists, a trigger cancels at most one of the threads that share its token, since the
  thread that sees it drains it. A thread with a pipe of its own, as the batch runner gives each, is always cancelled by one
  trigger: until it has returned it can take a step.\<close>

theorem trigger_cancels_one_poller:
  assumes "cancel_run (Some (r, w)) n c" "0 \<le> r"
  shows "count_list (pollers c) Was_Cancelled \<le> triggers c \<and>
    (n = 1 \<and> 0 < triggers c \<longrightarrow> pollers c = [Was_Cancelled] \<or> (\<exists>c'. poller_step c c'))"
proof -
  have inv: "cancel_inv (Some (r, w)) n c" using cancel_run_inv [OF assms(1) refl assms(2)] .
  have "pollers c = [Was_Cancelled] \<or> (\<exists>c'. poller_step c c')" if "n = 1" "0 < triggers c"
  proof (cases "pollers c ! 0")
    case In_Poll
    with inv that assms(2) have "is_triggered c"
      by (cases "pollers c") (auto simp: cancel_inv_def is_triggered_def)
    with In_Poll inv that poller_step.poll [of 0 c] show ?thesis by (auto simp: cancel_inv_def)
  next
    case In_Drain
    with inv that have "pipe_bytes c \<noteq> 0" by (cases "pollers c") (auto simp: cancel_inv_def)
    then obtain c' where "drain c = Some c'" by (cases "0 \<le> native_handle c") (auto simp: drain_def)
    with In_Drain inv that poller_step.drain [of 0 c] show ?thesis by (auto simp: cancel_inv_def)
  next
    case Was_Cancelled
    with inv that show ?thesis by (cases "pollers c") (auto simp: cancel_inv_def)
  qed
  with inv show ?thesis by (auto simp: cancel_inv_def)
qed

definition sample_cancel :: "poller list \<Rightarrow> nat \<Rightarrow> nat \<Rightarrow> cancellation" where
  "sample_cancel ps k n = \<lparr>read_end = 3, write_end = 4, pipe_bytes = k, triggers = n, pollers = ps\<rparr>"

lemma sample_triggered: "cancel_run (Some (3, 4)) n (sample_cancel (replicate n In_Poll) 8 1)"
proof -
  have "trigger (CancellationSource (Some (3, 4)) n) = Some (sample_cancel (replicate n In_Poll) 8 1)"
    by (simp add: trigger_def CancellationSource_def sample_cancel_def pipe_capacity_def)
  then show ?thesis by (rule cancel_run.trigger [OF cancel_run.start])
qed

theorem trigger_cancels_one_poller_witness:
  "cancel_run (Some (3, 4)) 1 (sample_cancel [In_Poll] 8 1) \<and> (\<exists>c'. poller_step (sample_cancel [In_Poll] 8 1) c')"
  using trigger_cancels_one_poller [OF sample_triggered [of 1]] sample_triggered [of 1] by (simp add: sample_cancel_def)

text \<open>Where two threads share a token, as those of a batch of the system dispatcher do, one trigger can leave
  the second of them in \<^verbatim>\<open>drain\<close>: both see the pipe readable, the first empties it, and the read of the second
  does not return before another trigger or the end of the source.\<close>

theorem shared_token_blocks_in_drain:
  "\<exists>c. cancel_run (Some (3, 4)) 2 c \<and> triggers c = 1 \<and> pollers c = [Was_Cancelled, In_Drain] \<and> (\<nexists>c'. poller_step c c')"
proof -
  have st: "poller_step (sample_cancel [In_Poll, In_Poll] 8 1) (sample_cancel [In_Drain, In_Poll] 8 1)"
    "poller_step (sample_cancel [In_Drain, In_Poll] 8 1) (sample_cancel [In_Drain, In_Drain] 8 1)"
    "poller_step (sample_cancel [In_Drain, In_Drain] 8 1) (sample_cancel [Was_Cancelled, In_Drain] 0 1)"
    using poller_step.poll [of 0 "sample_cancel [In_Poll, In_Poll] 8 1"] poller_step.poll [of 1 "sample_cancel [In_Drain, In_Poll] 8 1"]
      poller_step.drain [of 0 "sample_cancel [In_Drain, In_Drain] 8 1" "sample_cancel [In_Drain, In_Drain] 0 1"]
    by (simp_all add: sample_cancel_def is_triggered_def move_poller_def drain_def native_handle_def)
  have "cancel_run (Some (3, 4)) 2 (sample_cancel [In_Poll, In_Poll] 8 1)"
    using sample_triggered [of 2] by (simp add: numeral_2_eq_2)
  with st have "cancel_run (Some (3, 4)) 2 (sample_cancel [Was_Cancelled, In_Drain] 0 1)" by (blast intro: cancel_run.step)
  moreover have "\<nexists>c'. poller_step (sample_cancel [Was_Cancelled, In_Drain] 0 1) c'"
    by (auto elim!: poller_step.cases simp: sample_cancel_def less_Suc_eq drain_def native_handle_def)
  ultimately show ?thesis by (auto simp: sample_cancel_def)
qed

end
