(* ===== verification/Net_Devices.thy ===== *)
theory Net_Devices
  imports Ip_Sources "HOL-Library.List_Lexorder" "HOL-Library.Char_ord"
begin

text \<open>
  The network devices (\<^verbatim>\<open>src/network/net_devices.cpp\<close>), the interface table built from them
  (\<^verbatim>\<open>src/ip_source/iface_util.cpp\<close>) and the multicast set-up of the mDNS source (\<^verbatim>\<open>src/ip_source/mdns.cpp\<close>). The
  kernel is an argument: the list of \<^verbatim>\<open>getifaddrs\<close>, \<open>None\<close> when the call fails, and the tables of interface
  indices. A socket address is what the casts of the code can read from it.
\<close>

abbreviation (input) AF_UNSPEC :: nat where "AF_UNSPEC \<equiv> 0"
abbreviation (input) AF_INET :: nat where "AF_INET \<equiv> 2"
abbreviation (input) AF_INET6 :: nat where "AF_INET6 \<equiv> 10"
abbreviation (input) IFF_UP :: u32 where "IFF_UP \<equiv> 0x1"
abbreviation (input) IFF_LOOPBACK :: u32 where "IFF_LOOPBACK \<equiv> 0x8"
abbreviation (input) IFF_POINTOPOINT :: u32 where "IFF_POINTOPOINT \<equiv> 0x10"

record sockaddr =
  sa_family :: nat
  sin_addr :: "byte list"
  sin6_addr :: "byte list"
  sin6_scope_id :: u32

record ifaddr =
  ifa_name :: string
  ifa_flags :: u32
  ifa_addr :: "sockaddr option"
  ifa_netmask :: "sockaddr option"

record dev_env =
  getifaddrs :: "ifaddr list option"
  if_nametoindex :: "string \<Rightarrow> u32"
  if_indextoname :: "u32 \<Rightarrow> string option"

definition query_ifaddrs :: "dev_env \<Rightarrow> ifaddr list result" where
  "query_ifaddrs env = (case getifaddrs env of None \<Rightarrow> Inl RuntimeError | Some l \<Rightarrow> Inr l)"

section \<open>Enumeration\<close>

text \<open>\<^verbatim>\<open>result[name].emplace_back(a)\<close> on a \<^verbatim>\<open>std::map\<close>, a list sorted by its keys.\<close>

fun map_push :: "string \<Rightarrow> 'a \<Rightarrow> (string \<times> 'a list) list \<Rightarrow> (string \<times> 'a list) list" where
  "map_push name a [] = [(name, [a])]"
| "map_push name a ((n, as) # m) =
     (if name = n then (n, as @ [a]) # m
      else if name < n then (name, [a]) # (n, as) # m
      else (n, as) # map_push name a m)"

definition address_of :: "ifaddr \<Rightarrow> inet_address option" where
  "address_of ifa =
     (case ifa_addr ifa of
        None \<Rightarrow> None
      | Some sa \<Rightarrow>
          if sa_family sa = AF_INET then Some (V4 (inet4_from_bytes (sin_addr sa)))
          else if sa_family sa = AF_INET6 then Some (V6 (set_scope_id (sin6_scope_id sa) (inet6_from_bytes (sin6_addr sa))))
          else None)"

fun enumerate_loop :: "ifaddr list \<Rightarrow> (string \<times> inet_address list) list \<Rightarrow> (string \<times> inet_address list) list" where
  "enumerate_loop [] result = result"
| "enumerate_loop (ifa # l) result =
     enumerate_loop l (case address_of ifa of None \<Rightarrow> result | Some a \<Rightarrow> map_push (ifa_name ifa) a result)"

definition enumerate_interfaces :: "dev_env \<Rightarrow> (string \<times> inet_address list) list result" where
  "enumerate_interfaces env = bindE (query_ifaddrs env) (\<lambda>l. Inr (enumerate_loop l []))"

record ipv4_subnet =
  sn_address :: inet4_address
  sn_netmask :: inet4_address

fun subnet_loop :: "string \<Rightarrow> ifaddr list \<Rightarrow> ipv4_subnet list \<Rightarrow> ipv4_subnet list" where
  "subnet_loop name [] result = result"
| "subnet_loop name (ifa # l) result =
     subnet_loop name l
       (case (ifa_addr ifa, ifa_netmask ifa) of
          (Some sa, Some nm) \<Rightarrow>
            if name \<noteq> ifa_name ifa \<or> sa_family sa \<noteq> AF_INET then result
            else result @ [\<lparr>sn_address = inet4_from_bytes (sin_addr sa), sn_netmask = inet4_from_bytes (sin_addr nm)\<rparr>]
        | _ \<Rightarrow> result)"

definition get_ipv4_subnets :: "dev_env \<Rightarrow> string \<Rightarrow> ipv4_subnet list result" where
  "get_ipv4_subnets env name = bindE (query_ifaddrs env) (\<lambda>l. Inr (subnet_loop name l []))"

fun default_index_loop :: "dev_env \<Rightarrow> nat \<Rightarrow> ifaddr list \<Rightarrow> u32" where
  "default_index_loop env family [] = 0"
| "default_index_loop env family (ifa # l) =
     (case ifa_addr ifa of
        None \<Rightarrow> default_index_loop env family l
      | Some sa \<Rightarrow>
          if family \<noteq> AF_UNSPEC \<and> sa_family sa \<noteq> family then default_index_loop env family l
          else if ifa_flags ifa AND IFF_UP = 0 \<or> ifa_flags ifa AND IFF_LOOPBACK \<noteq> 0 \<or> ifa_flags ifa AND IFF_POINTOPOINT \<noteq> 0
          then default_index_loop env family l
          else let index = if_nametoindex env (ifa_name ifa)
               in if index > 0 then index else default_index_loop env family l)"

definition find_default_interface_index :: "dev_env \<Rightarrow> nat \<Rightarrow> u32 result" where
  "find_default_interface_index env family = bindE (query_ifaddrs env) (\<lambda>l. Inr (default_index_loop env family l))"

definition name_to_index :: "dev_env \<Rightarrow> string \<Rightarrow> u32" where
  "name_to_index env name = if_nametoindex env (c_str name)"

definition index_to_name :: "dev_env \<Rightarrow> u32 \<Rightarrow> string" where
  "index_to_name env index = (case if_indextoname env index of Some n \<Rightarrow> n | None \<Rightarrow> [])"

fun loopback_loop :: "ifaddr list \<Rightarrow> string" where
  "loopback_loop [] = []"
| "loopback_loop (ifa # l) = (if ifa_flags ifa AND IFF_LOOPBACK \<noteq> 0 then ifa_name ifa else loopback_loop l)"

definition loopback_name :: "dev_env \<Rightarrow> string result" where
  "loopback_name env = bindE (query_ifaddrs env) (\<lambda>l. Inr (loopback_loop l))"

section \<open>The interface table\<close>

text \<open>Both functions look at the table the cache gives them.\<close>

definition get_interfaces :: "(string \<times> inet_address list) list \<Rightarrow> string list" where
  "get_interfaces interface_map = map fst interface_map"

text \<open>The environment of the address sources when the interfaces come from the devices.\<close>

definition with_table :: "(string \<times> inet_address list) list \<Rightarrow> ip_env \<Rightarrow> ip_env" where
  "with_table table env = env\<lparr>ie_interfaces := map_of table\<rparr>"

section \<open>The multicast socket\<close>

datatype ip_tag = Ipv4Tag | Ipv6Tag

datatype mreq = Ip_Mreq inet4_address | Ipv6_Mreq u32

datatype mdns_call =
    Set_Reuse_Addr | Set_Reuse_Port | Bind_To_Device string | Set_V6_Only | Bind_Any ip_tag
  | Set_Multicast_If ip_tag u32 | Set_Multicast_Hops ip_tag nat | Join_Group mreq | Send_Query ip_tag | Leave_Group mreq

definition INADDR_ANY :: inet4_address where
  "INADDR_ANY = \<lparr>v4_addr = [0, 0, 0, 0]\<rparr>"

definition pick_ipv4_interface_addr :: "dev_env \<Rightarrow> string \<Rightarrow> inet4_address result" where
  "pick_ipv4_interface_addr env interface =
     (if interface \<noteq> [] then
        bindE (get_ipv4_subnets env interface) (\<lambda>subnets. Inr (case subnets of sn # _ \<Rightarrow> sn_address sn | [] \<Rightarrow> INADDR_ANY))
      else Inr INADDR_ANY)"

definition bind_socket :: "ip_tag \<Rightarrow> mdns_call list" where
  "bind_socket tag = (if tag = Ipv6Tag then [Set_V6_Only] else []) @ [Bind_Any tag]"

definition resolve_multicast_if_index :: "dev_env \<Rightarrow> ip_tag \<Rightarrow> string \<Rightarrow> u32 result" where
  "resolve_multicast_if_index env tag interface =
     (if interface \<noteq> [] then Inr (name_to_index env interface)
      else if tag = Ipv6Tag then find_default_interface_index env AF_INET6
      else Inr 0)"

definition setup_multicast_output_opts :: "ip_tag \<Rightarrow> u32 \<Rightarrow> mdns_call list" where
  "setup_multicast_output_opts tag if_index =
     (if if_index > 0 then [Set_Multicast_If tag if_index] else []) @ [Set_Multicast_Hops tag 255]"

text \<open>The calls made so far, with the index, or the exception. Only the outcome of \<^verbatim>\<open>bind\<close> matters: the failure
  of an option is logged.\<close>

definition setup_multicast_options :: "dev_env \<Rightarrow> bool \<Rightarrow> ip_tag \<Rightarrow> string \<Rightarrow> mdns_call list \<times> u32 result" where
  "setup_multicast_options env bind_ok tag interface =
     (if \<not> bind_ok then (bind_socket tag, Inl RuntimeError)
      else case resolve_multicast_if_index env tag interface of
        Inl x \<Rightarrow> (bind_socket tag, Inl x)
      | Inr if_index \<Rightarrow> (bind_socket tag @ setup_multicast_output_opts tag if_index, Inr if_index))"

definition membership_request :: "dev_env \<Rightarrow> ip_tag \<Rightarrow> u32 \<Rightarrow> string \<Rightarrow> mreq result" where
  "membership_request env tag if_index interface =
     (if tag = Ipv6Tag then Inr (Ipv6_Mreq if_index)
      else bindE (pick_ipv4_interface_addr env interface) (\<lambda>a. Inr (Ip_Mreq a)))"

text \<open>The life of the socket after it was created. \<open>exchange\<close> is what sending the query and receiving the
  answer give; the group is left when the scope ends, also by an exception.\<close>

definition mdns_session ::
  "dev_env \<Rightarrow> bool \<Rightarrow> bool \<Rightarrow> ip_tag \<Rightarrow> string \<Rightarrow> 'a result option \<Rightarrow> mdns_call list \<times> 'a result option" where
  "mdns_session env bind_ok join_ok tag interface exchange =
     (let opts = [Set_Reuse_Addr, Set_Reuse_Port] @ (if interface \<noteq> [] then [Bind_To_Device interface] else []);
          (calls, r) = setup_multicast_options env bind_ok tag interface
      in case r of
        Inl x \<Rightarrow> (opts @ calls, Some (Inl x))
      | Inr if_index \<Rightarrow>
          (case membership_request env tag if_index interface of
             Inl x \<Rightarrow> (opts @ calls, Some (Inl x))
           | Inr req \<Rightarrow>
               if \<not> join_ok then (opts @ calls @ [Join_Group req], Some (Inl RuntimeError))
               else (opts @ calls @ [Join_Group req, Send_Query tag] @ (case exchange of None \<Rightarrow> [] | Some _ \<Rightarrow> [Leave_Group req]),
                     exchange)))"

section \<open>Lemmas\<close>

text \<open>The addresses the kernel reports for a name, in its order.\<close>

definition addresses_of :: "string \<Rightarrow> ifaddr list \<Rightarrow> inet_address list" where
  "addresses_of name l = List.map_filter address_of (filter (\<lambda>ifa. ifa_name ifa = name) l)"

lemma map_push_sorted:
  "sorted_wrt (<) (map fst m) \<Longrightarrow> sorted_wrt (<) (map fst (map_push name a m)) \<and> set (map fst (map_push name a m)) = insert name (set (map fst m))"
proof (induction name a m rule: map_push.induct)
  case (2 name a n as m)
  then show ?case by (cases "name = n"; cases "name < n") (auto simp: not_less)
qed simp

lemma map_push_lookup:
  "sorted_wrt (<) (map fst m) \<Longrightarrow>
   map_of (map_push name a m) = (map_of m)(name \<mapsto> (case map_of m name of None \<Rightarrow> [] | Some as \<Rightarrow> as) @ [a])"
proof (induction name a m rule: map_push.induct)
  case (2 name a n as m)
  show ?case
  proof (cases "name < n")
    case True
    with "2.prems" have "map_of m name = None" by (auto simp: map_of_eq_None_iff)
    with True show ?thesis by (auto simp: fun_eq_iff)
  next
    case False
    with 2 show ?thesis by (auto simp: fun_eq_iff)
  qed
qed (simp add: fun_eq_iff)

lemma enumerate_loop_result:
  assumes "sorted_wrt (<) (map fst m)"
  shows "sorted_wrt (<) (map fst (enumerate_loop l m)) \<and>
    (\<forall>name. map_of (enumerate_loop l m) name =
       (if addresses_of name l = [] then map_of m name
        else Some ((case map_of m name of None \<Rightarrow> [] | Some as \<Rightarrow> as) @ addresses_of name l)))"
  using assms
proof (induction l m rule: enumerate_loop.induct)
  case (1 m)
  then show ?case by (simp add: addresses_of_def List.map_filter_def)
next
  case (2 ifa l m)
  show ?case
  proof (cases "address_of ifa")
    case None
    with 2 show ?thesis by (simp add: addresses_of_def List.map_filter_simps)
  next
    case (Some a)
    have "sorted_wrt (<) (map fst (map_push (ifa_name ifa) a m))" using map_push_sorted [OF 2(2)] by simp
    with 2(1) Some have IH: "sorted_wrt (<) (map fst (enumerate_loop l (map_push (ifa_name ifa) a m))) \<and>
      (\<forall>name. map_of (enumerate_loop l (map_push (ifa_name ifa) a m)) name =
       (if addresses_of name l = [] then map_of (map_push (ifa_name ifa) a m) name
        else Some ((case map_of (map_push (ifa_name ifa) a m) name of None \<Rightarrow> [] | Some as \<Rightarrow> as) @ addresses_of name l)))"
      by simp
    have a: "addresses_of name (ifa # l) = (if ifa_name ifa = name then a # addresses_of name l else addresses_of name l)" for name
      using Some by (simp add: addresses_of_def List.map_filter_simps)
    have "map_of (enumerate_loop l (map_push (ifa_name ifa) a m)) name =
       (if addresses_of name (ifa # l) = [] then map_of m name
        else Some ((case map_of m name of None \<Rightarrow> [] | Some as \<Rightarrow> as) @ addresses_of name (ifa # l)))" for name
      using IH [THEN conjunct2, rule_format, of name]
      by (cases "ifa_name ifa = name") (simp_all add: a map_push_lookup [OF 2(2)])
    with IH Some show ?thesis by simp
  qed
qed

lemma default_index_loop_sound:
  assumes "default_index_loop env family l = k" "k \<noteq> 0"
  shows "\<exists>ifa sa. ifa \<in> set l \<and> ifa_addr ifa = Some sa \<and> (family = AF_UNSPEC \<or> sa_family sa = family) \<and> if_nametoindex env (ifa_name ifa) = k \<and>
    ifa_flags ifa AND IFF_UP \<noteq> 0 \<and> ifa_flags ifa AND IFF_LOOPBACK = 0 \<and> ifa_flags ifa AND IFF_POINTOPOINT = 0"
  using assms
proof (induction l)
  case (Cons ifa l)
  show ?case
  proof (cases "default_index_loop env family l = k")
    case True
    with Cons show ?thesis by (meson list.set_intros(2))
  next
    case False
    with Cons.prems obtain sa where "ifa_addr ifa = Some sa" by (auto split: option.splits)
    with False Cons.prems show ?thesis
      by (intro exI [of _ ifa] exI [of _ sa]) (auto simp: Let_def split: if_splits)
  qed
qed simp

section \<open>Properties\<close>


definition sample_dev :: dev_env where
  "sample_dev = \<lparr>getifaddrs = Some
      [\<lparr>ifa_name = ''lo'', ifa_flags = 9, ifa_addr = Some \<lparr>sa_family = 2, sin_addr = [127, 0, 0, 1], sin6_addr = [], sin6_scope_id = 0\<rparr>, ifa_netmask = None\<rparr>,
       \<lparr>ifa_name = ''eth0'', ifa_flags = 1, ifa_addr = Some \<lparr>sa_family = 2, sin_addr = [10, 0, 0, 1], sin6_addr = [], sin6_scope_id = 0\<rparr>, ifa_netmask = None\<rparr>],
     if_nametoindex = \<lambda>n. if n = ''eth0'' then 2 else 1, if_indextoname = \<lambda>_. None\<rparr>"

lemma sample_dev_table:
  "enumerate_interfaces sample_dev = Inr [(''eth0'', [V4 \<lparr>v4_addr = [10, 0, 0, 1]\<rparr>]), (''lo'', [V4 \<lparr>v4_addr = [127, 0, 0, 1]\<rparr>])]"
  by (simp add: enumerate_interfaces_def query_ifaddrs_def sample_dev_def address_of_def inet4_from_bytes_def less_char_def)


text \<open>The group is left whenever it was joined and the exchange has ended, with the request it was joined
  with; and the result is that of the source of \<open>Ip_Sources\<close> in which a failed look-up of the interface counts
  as a failed join.\<close>

definition session_joins :: "dev_env \<Rightarrow> ip_tag \<Rightarrow> string \<Rightarrow> bool" where
  "session_joins dev tag interface \<longleftrightarrow> (case resolve_multicast_if_index dev tag interface of
     Inl _ \<Rightarrow> False | Inr i \<Rightarrow> (case membership_request dev tag i interface of Inl _ \<Rightarrow> False | Inr _ \<Rightarrow> True))"

definition mdns_exchange :: "inet_lib \<Rightarrow> mdns_env \<Rightarrow> byte list \<Rightarrow> record_kind \<Rightarrow> inet_address list result option" where
  "mdns_exchange lib env query_pkt type =
     (case send_loop False query_pkt (mn_send env) of
        None \<Rightarrow> None
      | Some (Inl _, _) \<Rightarrow> Some (Inl RuntimeError)
      | Some (Inr _, _) \<Rightarrow> recv_and_parse lib env type)"

lemma query_ifaddrs_error: "query_ifaddrs dev = Inl x \<Longrightarrow> x = RuntimeError"
  by (simp add: query_ifaddrs_def split: option.splits)

lemma lookup_errors:
  "resolve_multicast_if_index dev tag i = Inl x \<Longrightarrow> x = RuntimeError" "membership_request dev tag k i = Inl x \<Longrightarrow> x = RuntimeError"
  by (auto simp: resolve_multicast_if_index_def find_default_interface_index_def membership_request_def pick_ipv4_interface_addr_def
      get_ipv4_subnets_def bindE_eq_Inl_iff dest: query_ifaddrs_error split: if_splits)

text \<open>The multicast socket of the mDNS source gives the result of the abstract source, and whenever it has
  joined the group and the exchange has ended, normally or by an exception, its last call leaves the group with
  the same request; without a join there is no query.\<close>

theorem mdns_session_refines_source:
  assumes "build (mdns_builder hostname type) = Inr pkt" "mn_socket env"
    and "mdns_session dev (mn_bind env) (mn_join env) tag interface (mdns_exchange lib env pkt type) = (calls, r)"
  shows "r = resolve_mdns lib (env\<lparr>mn_join := mn_join env \<and> session_joins dev tag interface\<rparr>) hostname type \<and>
    (Send_Query tag \<in> set calls \<and> r \<noteq> None \<longrightarrow> (\<exists>pre req. calls = pre @ [Join_Group req, Send_Query tag, Leave_Group req]))"
proof -
  have "mn_recv (env\<lparr>mn_join := b\<rparr>) = mn_recv env" "mn_poll (env\<lparr>mn_join := b\<rparr>) = mn_poll env" for b by simp_all
  then have x: "recv_and_parse lib (env\<lparr>mn_join := b\<rparr>) type = recv_and_parse lib env type" for b
    unfolding recv_and_parse_def by presburger
  have src: "resolve_mdns lib (env\<lparr>mn_join := b\<rparr>) hostname type =
      (if \<not> mn_bind env \<or> \<not> b then Some (Inl RuntimeError) else mdns_exchange lib env pkt type)" for b
    using assms(1,2) by (auto simp: resolve_mdns_def mdns_exchange_def x split: option.splits sum.splits)
  have q: "Send_Query tag \<notin> set (bind_socket tag)" "Send_Query tag \<notin> set (setup_multicast_output_opts tag k)" for k
    by (simp_all add: bind_socket_def setup_multicast_output_opts_def)
  show ?thesis
  proof (cases "mn_bind env")
    case False
    with assms q show ?thesis by (auto simp: mdns_session_def setup_multicast_options_def src)
  next
    case bound: True
    show ?thesis
    proof (cases "resolve_multicast_if_index dev tag interface")
      case (Inl e)
      with assms q bound lookup_errors(1) [OF Inl] show ?thesis
        by (auto simp: mdns_session_def setup_multicast_options_def src session_joins_def)
    next
      case idx: (Inr k)
      show ?thesis
      proof (cases "membership_request dev tag k interface")
        case (Inl e)
        with assms q bound idx lookup_errors(2) [OF Inl] show ?thesis
          by (auto simp: mdns_session_def setup_multicast_options_def src session_joins_def)
      next
        case (Inr req)
        with assms q bound idx show ?thesis
          by (cases "mn_join env") (auto simp: mdns_session_def setup_multicast_options_def src session_joins_def Let_def split: option.splits)
      qed
    qed
  qed
qed

definition sample_mdns :: mdns_env where
  "sample_mdns = \<lparr>mn_socket = True, mn_bind = True, mn_join = True, mn_send = [Inr 100], mn_poll = [Inr PollTimeout], mn_recv = []\<rparr>"

theorem mdns_session_refines_source_witness:
  "\<exists>calls r. mdns_session sample_dev True True Ipv4Tag ''eth0'' (mdns_exchange letters_lib sample_mdns
      [0, 0, 0, 0, 0, 1, 0, 0, 0, 0, 0, 0, 1, 97, 0, 0, 1, 128, 1] Kind_A) = (calls, r) \<and> r = Some (Inl RuntimeError) \<and>
    (\<exists>pre req. calls = pre @ [Join_Group req, Send_Query Ipv4Tag, Leave_Group req])"
proof -
  have b: "build (mdns_builder ''a'' Kind_A) = Inr [0, 0, 0, 0, 0, 1, 0, 0, 0, 0, 0, 0, 1, 97, 0, 0, 1, 128, 1]"
    by code_simp
  have e: "mdns_exchange letters_lib sample_mdns [0, 0, 0, 0, 0, 1, 0, 0, 0, 0, 0, 0, 1, 97, 0, 0, 1, 128, 1] Kind_A = Some (Inl RuntimeError)"
    by (simp add: mdns_exchange_def sample_mdns_def send_loop_def recv_and_parse_def wait_for_def)
  obtain calls r where s: "mdns_session sample_dev (mn_bind sample_mdns) (mn_join sample_mdns) Ipv4Tag ''eth0''
      (mdns_exchange letters_lib sample_mdns [0, 0, 0, 0, 0, 1, 0, 0, 0, 0, 0, 0, 1, 97, 0, 0, 1, 128, 1] Kind_A) = (calls, r)"
    by (cases "mdns_session sample_dev (mn_bind sample_mdns) (mn_join sample_mdns) Ipv4Tag ''eth0''
      (mdns_exchange letters_lib sample_mdns [0, 0, 0, 0, 0, 1, 0, 0, 0, 0, 0, 0, 1, 97, 0, 0, 1, 128, 1] Kind_A)")
  have "Send_Query Ipv4Tag \<in> set calls \<and> r = Some (Inl RuntimeError)"
    using s unfolding e by (auto simp: mdns_session_def setup_multicast_options_def resolve_multicast_if_index_def membership_request_def
        pick_ipv4_interface_addr_def get_ipv4_subnets_def query_ifaddrs_def sample_dev_def sample_mdns_def Let_def)
  moreover from mdns_session_refines_source [OF b _ s] this
  have "\<exists>pre req. calls = pre @ [Join_Group req, Send_Query Ipv4Tag, Leave_Group req]" by (simp add: sample_mdns_def)
  ultimately show ?thesis using s by (auto simp: sample_mdns_def)
qed

end
