(* ===== verification/Tls_Setup.thy ===== *)
theory Tls_Setup
  imports Tls_Connection Http_Client Domain_Regex
begin

text \<open>
  The set-up of a TLS connection (\<^verbatim>\<open>src/network/tls_connection.cpp\<close>): the context shared by all connections, the
  server name that is sent and verified, and the alert that ends a connection. OpenSSL is the record \<open>openssl\<close> of
  what its calls return; a context and a connection object are what was set on them. The context is kept in a
  function-local static, so the first call that returns decides, and a call that throws leaves it unset.
\<close>

section \<open>Contexts\<close>

datatype ca_source = Ca_File string | Ca_Default_Paths

record ssl_ctx =
  min_proto :: nat
  max_proto :: nat
  verify_peer :: bool
  ca_loaded :: "ca_source option"

record openssl =
  ssl_ctx_new :: bool
  set_min_proto_version :: "nat \<Rightarrow> bool"
  set_max_proto_version :: "nat \<Rightarrow> bool"
  load_verify_locations :: "string \<Rightarrow> bool"
  set_default_verify_paths :: bool
  bio_new_ssl_connect :: bool
  bio_get_ssl :: bool
  ssl_set1_host :: "string \<Rightarrow> bool"
  ssl_set_alpn_protos :: "byte list \<Rightarrow> bool"
  bio_set_conn_hostname :: "string \<Rightarrow> bool"

abbreviation (input) TLS1_2_VERSION :: nat where "TLS1_2_VERSION \<equiv> 0x0303"
abbreviation (input) TLS1_3_VERSION :: nat where "TLS1_3_VERSION \<equiv> 0x0304"

definition new_ssl_ctx :: ssl_ctx where
  "new_ssl_ctx = \<lparr>min_proto = 0, max_proto = 0, verify_peer = False, ca_loaded = None\<rparr>"

definition create_default_ssl_ctx :: "openssl \<Rightarrow> ca_env \<Rightarrow> ssl_ctx option result" where
  "create_default_ssl_ctx ossl env =
     (if \<not> ssl_ctx_new ossl then Inr None
      else if \<not> set_min_proto_version ossl TLS1_2_VERSION then Inr None
      else if \<not> set_max_proto_version ossl TLS1_3_VERSION then Inr None
      else
        let ctx = new_ssl_ctx\<lparr>min_proto := TLS1_2_VERSION, max_proto := TLS1_3_VERSION, verify_peer := True\<rparr> in
        bindE (discover_ca_bundle env) (\<lambda>ca_path.
          case ca_path of
            Some p \<Rightarrow>
              if \<not> load_verify_locations ossl (c_str p) then Inr None
              else Inr (Some (ctx\<lparr>ca_loaded := Some (Ca_File (c_str p))\<rparr>))
          | None \<Rightarrow>
              if \<not> set_default_verify_paths ossl then Inr None
              else Inr (Some (ctx\<lparr>ca_loaded := Some Ca_Default_Paths\<rparr>))))"

type_synonym shared_ctx = "ssl_ctx option option"

definition get_shared_ssl_ctx :: "openssl \<Rightarrow> ca_env \<Rightarrow> shared_ctx \<Rightarrow> ssl_ctx option result \<times> shared_ctx" where
  "get_shared_ssl_ctx ossl env shared =
     (case shared of
        Some ctx \<Rightarrow> (Inr ctx, shared)
      | None \<Rightarrow>
          (case create_default_ssl_ctx ossl env of
             Inl x \<Rightarrow> (Inl x, None)
           | Inr ctx \<Rightarrow> (Inr ctx, Some ctx)))"

section \<open>The connection object\<close>

record tls_options =
  opt_sni_hostname :: "string option"
  opt_alpn_proto :: "byte list"
  opt_connect_timeout :: int
  opt_read_timeout :: int
  opt_write_timeout :: int

definition default_tls_options :: tls_options where
  "default_tls_options = \<lparr>opt_sni_hostname = None, opt_alpn_proto = [], opt_connect_timeout = 1500,
     opt_read_timeout = 1500, opt_write_timeout = 1500\<rparr>"

text \<open>\<open>tc_factory\<close> says whether a context factory was given; what the factory returns when it is called is an
  argument of \<open>connect_setup\<close>.\<close>

record tls_client =
  tc_server :: string
  tc_port :: u16
  tc_sni_hostname :: "string option"
  tc_connect_timeout :: int
  tc_read_timeout :: int
  tc_write_timeout :: int
  tc_alpn_proto :: "byte list"
  tc_factory :: bool
  tc_custom_ctx :: "ssl_ctx option"

definition TlsConnection :: "inet_lib \<Rightarrow> string \<Rightarrow> u16 \<Rightarrow> tls_options \<Rightarrow> bool \<Rightarrow> tls_client result" where
  "TlsConnection lib server port opts context_factory =
     (if inet_parse lib server = None \<and> \<not> is_valid_domain server then Inl TlsException
      else Inr \<lparr>tc_server = server, tc_port = port, tc_sni_hostname = opt_sni_hostname opts,
        tc_connect_timeout = opt_connect_timeout opts, tc_read_timeout = opt_read_timeout opts,
        tc_write_timeout = opt_write_timeout opts, tc_alpn_proto = opt_alpn_proto opts,
        tc_factory = context_factory, tc_custom_ctx = None\<rparr>)"

definition set_sni_hostname :: "string \<Rightarrow> tls_client \<Rightarrow> tls_client" where
  "set_sni_hostname hostname cl = cl\<lparr>tc_sni_hostname := Some hostname\<rparr>"

definition set_read_timeout :: "int \<Rightarrow> tls_client \<Rightarrow> tls_client" where
  "set_read_timeout timeout cl = cl\<lparr>tc_read_timeout := timeout\<rparr>"

definition set_write_timeout :: "int \<Rightarrow> tls_client \<Rightarrow> tls_client" where
  "set_write_timeout timeout cl = cl\<lparr>tc_write_timeout := timeout\<rparr>"

section \<open>Opening\<close>

text \<open>What was set on the SSL object before the handshake: the name sent, the name the certificate is checked
  for, the protocols offered, and the host and port to connect to.\<close>

record ssl_session =
  ses_ctx :: ssl_ctx
  ses_sni :: "string option"
  ses_host :: "string option"
  ses_alpn :: "byte list"
  ses_target :: string

definition resolve_ctx :: "openssl \<Rightarrow> ca_env \<Rightarrow> ssl_ctx option \<Rightarrow> tls_client \<Rightarrow> shared_ctx \<Rightarrow>
    ssl_ctx option result \<times> tls_client \<times> shared_ctx" where
  "resolve_ctx ossl env made cl shared =
     (if tc_factory cl then
        let cl' = (if tc_custom_ctx cl = None then cl\<lparr>tc_custom_ctx := made\<rparr> else cl)
        in (Inr (tc_custom_ctx cl'), cl', shared)
      else let (r, shared') = get_shared_ssl_ctx ossl env shared in (r, cl, shared'))"

definition effective_hostname :: "tls_client \<Rightarrow> string" where
  "effective_hostname cl = (case tc_sni_hostname cl of Some h \<Rightarrow> h | None \<Rightarrow> tc_server cl)"

definition tls_target :: "tls_client \<Rightarrow> string" where
  "tls_target cl = tc_server cl @ '':'' @ dec_string (unat (tc_port cl))"

definition configure_ssl :: "inet_lib \<Rightarrow> openssl \<Rightarrow> tls_client \<Rightarrow> ssl_session \<Rightarrow> io_status + ssl_session" where
  "configure_ssl lib ossl cl ses =
     (if \<not> bio_get_ssl ossl then Inr ses
      else
        let host = effective_hostname cl;
            ses = ses\<lparr>ses_sni := Some (c_str host)\<rparr>;
            ses = (if inet_parse lib host = None \<and> ssl_set1_host ossl (c_str host) then ses\<lparr>ses_host := Some (c_str host)\<rparr> else ses)
        in if tc_alpn_proto cl \<noteq> [] then
             (if \<not> ssl_set_alpn_protos ossl (tc_alpn_proto cl) then Inl IO_ERROR
              else Inr (ses\<lparr>ses_alpn := tc_alpn_proto cl\<rparr>))
           else Inr ses)"

definition connect_setup :: "inet_lib \<Rightarrow> openssl \<Rightarrow> ca_env \<Rightarrow> ssl_ctx option \<Rightarrow> tls_client \<Rightarrow> shared_ctx \<Rightarrow>
    (io_status + ssl_session) result \<times> tls_client \<times> shared_ctx" where
  "connect_setup lib ossl env made cl shared =
     (let (r, cl', shared') = resolve_ctx ossl env made cl shared in
      (case r of
         Inl x \<Rightarrow> Inl x
       | Inr None \<Rightarrow> Inr (Inl IO_ERROR)
       | Inr (Some ctx) \<Rightarrow>
           Inr (if \<not> bio_new_ssl_connect ossl then Inl IO_ERROR
                else
                  let ses = \<lparr>ses_ctx = ctx, ses_sni = None, ses_host = None, ses_alpn = [], ses_target = []\<rparr> in
                  case configure_ssl lib ossl cl' ses of
                    Inl e \<Rightarrow> Inl e
                  | Inr ses \<Rightarrow>
                      if \<not> bio_set_conn_hostname ossl (c_str (tls_target cl')) then Inl IO_ERROR
                      else Inr (ses\<lparr>ses_target := c_str (tls_target cl')\<rparr>)),
       cl', shared'))"

text \<open>\<^verbatim>\<open>connect\<close> as a whole: the set-up, then the handshake of \<open>tls_connect\<close>.\<close>

definition tls_open :: "inet_lib \<Rightarrow> openssl \<Rightarrow> ca_env \<Rightarrow> ssl_ctx option \<Rightarrow> int \<Rightarrow> handshake list \<Rightarrow> tls_conn \<Rightarrow>
    tls_client \<Rightarrow> shared_ctx \<Rightarrow> tls_conn \<Rightarrow> (io_status + unit) result \<times> tls_conn" where
  "tls_open lib ossl env made now hs fresh cl shared c =
     (case fst (connect_setup lib ossl env made cl shared) of
        Inl x \<Rightarrow> (Inl x, tls_close c)
      | Inr s \<Rightarrow> apfst Inr (tls_connect (\<not> isl s) now (tc_connect_timeout cl) hs fresh c))"

section \<open>Ending\<close>

datatype shutdown_answer = Shutdown_Complete | Shutdown_Sent | Shutdown_Want | Shutdown_Failed

text \<open>The answer of the first \<^verbatim>\<open>SSL_shutdown\<close>, then the polls and the answers after them. As for the other
  loops, a script that is used up is a poll that times out.\<close>

fun shutdown_loop :: "shutdown_answer \<Rightarrow> (poll_env \<times> shutdown_answer) list \<Rightarrow> io_status + unit" where
  "shutdown_loop Shutdown_Complete _ = Inr ()"
| "shutdown_loop Shutdown_Sent _ = Inr ()"
| "shutdown_loop Shutdown_Failed _ = Inl IO_ERROR"
| "shutdown_loop Shutdown_Want [] = Inl IO_TIMEOUT"
| "shutdown_loop Shutdown_Want ((env, ret) # rs) =
     (let status = poll_bio env POLLIN False in if status \<noteq> IO_OK then Inl status else shutdown_loop ret rs)"

definition get_ssl :: "bool \<Rightarrow> tls_conn \<Rightarrow> bool" where
  "get_ssl bio_ssl c = (c_connected c \<and> bio_ssl)"

definition tls_shutdown :: "bool \<Rightarrow> shutdown_answer \<Rightarrow> (poll_env \<times> shutdown_answer) list \<Rightarrow> tls_conn \<Rightarrow> io_status + unit" where
  "tls_shutdown bio_ssl ret rs c = (if \<not> get_ssl bio_ssl c then Inl IO_ERROR else shutdown_loop ret rs)"

definition negotiated_alpn :: "bool \<Rightarrow> byte list \<Rightarrow> tls_conn \<Rightarrow> byte list" where
  "negotiated_alpn bio_ssl selected c = (if \<not> get_ssl bio_ssl c then [] else selected)"

section \<open>Lemmas\<close>

definition secure_ctx :: "ssl_ctx \<Rightarrow> bool" where
  "secure_ctx ctx \<longleftrightarrow> min_proto ctx = TLS1_2_VERSION \<and> max_proto ctx = TLS1_3_VERSION \<and> verify_peer ctx \<and> ca_loaded ctx \<noteq> None"

definition shared_ok :: "shared_ctx \<Rightarrow> bool" where
  "shared_ok shared \<longleftrightarrow> (\<forall>ctx. shared = Some (Some ctx) \<longrightarrow> secure_ctx ctx)"

lemma create_default_secure: "create_default_ssl_ctx ossl env = Inr (Some ctx) \<Longrightarrow> secure_ctx ctx"
  by (auto simp: create_default_ssl_ctx_def secure_ctx_def bindE_eq_Inr_iff Let_def split: if_splits option.splits)

lemma get_shared_ok:
  assumes "shared_ok shared" "get_shared_ssl_ctx ossl env shared = (r, shared')"
  shows "shared_ok shared' \<and> (\<forall>ctx. r = Inr (Some ctx) \<longrightarrow> secure_ctx ctx)"
  using assms
  by (auto simp: get_shared_ssl_ctx_def shared_ok_def dest: create_default_secure create_default_secure [OF sym] split: option.splits sum.splits)

text \<open>The contexts the static can hold, whatever connections are opened in the process.\<close>

inductive shared_reachable :: "shared_ctx \<Rightarrow> bool" where
  unset: "shared_reachable None"
| opened: "shared_reachable shared \<Longrightarrow> shared_reachable (snd (snd (connect_setup lib ossl env made cl shared)))"

lemma connect_setup_shared:
  "snd (snd (connect_setup lib ossl env made cl shared)) =
   (if tc_factory cl then shared else snd (get_shared_ssl_ctx ossl env shared))"
  by (auto simp: connect_setup_def resolve_ctx_def Let_def split: prod.splits)

lemma shared_reachable_ok: "shared_reachable shared \<Longrightarrow> shared_ok shared"
proof (induction rule: shared_reachable.induct)
  case unset
  show ?case by (simp add: shared_ok_def)
next
  case (opened shared lib ossl env made cl)
  then show ?case using get_shared_ok by (cases "get_shared_ssl_ctx ossl env shared") (auto simp: connect_setup_shared)
qed

lemma configure_ssl_ok:
  assumes "configure_ssl lib ossl cl ses = Inr ses'" "bio_get_ssl ossl" "ses_host ses = None"
  shows "ses_ctx ses' = ses_ctx ses \<and> ses_sni ses' = Some (c_str (effective_hostname cl)) \<and>
    ses_host ses' = (if inet_parse lib (effective_hostname cl) = None \<and> ssl_set1_host ossl (c_str (effective_hostname cl))
      then Some (c_str (effective_hostname cl)) else None)"
  using assms by (auto simp: configure_ssl_def Let_def split: if_splits)

lemma connect_setup_ok:
  assumes "connect_setup lib ossl env made cl shared = (Inr (Inr ses), cl', shared')" "\<not> tc_factory cl" "shared_ok shared" "bio_get_ssl ossl"
  shows "secure_ctx (ses_ctx ses) \<and> ses_target ses = c_str (tls_target cl) \<and> ses_sni ses = Some (c_str (effective_hostname cl)) \<and>
    ses_host ses = (if inet_parse lib (effective_hostname cl) = None \<and> ssl_set1_host ossl (c_str (effective_hostname cl))
      then Some (c_str (effective_hostname cl)) else None)"
proof -
  obtain r sh where r: "get_shared_ssl_ctx ossl env shared = (r, sh)" by fastforce
  from assms(1,2) r obtain ctx ses0 where c: "r = Inr (Some ctx)"
    "configure_ssl lib ossl cl \<lparr>ses_ctx = ctx, ses_sni = None, ses_host = None, ses_alpn = [], ses_target = []\<rparr> = Inr ses0"
    "ses = ses0\<lparr>ses_target := c_str (tls_target cl)\<rparr>"
    by (auto simp: connect_setup_def resolve_ctx_def Let_def split: sum.splits option.splits if_splits)
  from configure_ssl_ok [OF c(2) assms(4)] c(1,3) get_shared_ok [OF assms(3) r] show ?thesis by simp
qed

section \<open>Properties\<close>


definition sample_openssl :: openssl where
  "sample_openssl = \<lparr>ssl_ctx_new = True, set_min_proto_version = \<lambda>_. True, set_max_proto_version = \<lambda>_. True,
     load_verify_locations = \<lambda>_. True, set_default_verify_paths = True, bio_new_ssl_connect = True, bio_get_ssl = True,
     ssl_set1_host = \<lambda>_. True, ssl_set_alpn_protos = \<lambda>_. True, bio_set_conn_hostname = \<lambda>_. True\<rparr>"

definition sample_ca_env :: ca_env where
  "sample_ca_env = \<lparr>ssl_cert_file = Some ''/ca.pem'', openssl_default_file = None, is_regular_file = \<lambda>_. Inr True\<rparr>"

definition sample_tls_client :: "string \<Rightarrow> tls_client" where
  "sample_tls_client server = \<lparr>tc_server = server, tc_port = 853, tc_sni_hostname = None, tc_connect_timeout = 1500,
     tc_read_timeout = 1500, tc_write_timeout = 1500, tc_alpn_proto = [], tc_factory = False, tc_custom_ctx = None\<rparr>"

definition sample_tls_conn :: tls_conn where
  "sample_tls_conn = \<lparr>c_connected = False, c_pending = [], c_reads = [], c_writes = [], c_sent = []\<rparr>"

definition sample_handshake :: "handshake list" where
  "sample_handshake = [\<lparr>h_connect = BioDone (), h_now = 0,
     h_poll = \<lparr>pe_fd = 3, pe_should_read = False, pe_should_write = False, pe_poll = []\<rparr>\<rparr>]"


text \<open>A server given by its IP address is not authenticated: no name is set to be verified, so every certificate
  that a trusted authority issued to anybody is accepted, and the address is sent as the server name.\<close>

theorem tls_ip_server_name_unchecked:
  assumes "fst (connect_setup lib ossl env made cl shared) = Inr (Inr ses)" "tc_sni_hostname cl = None"
    and "inet_parse lib (tc_server cl) \<noteq> None"
  shows "ses_host ses = None"
  using assms
  by (auto simp: connect_setup_def resolve_ctx_def configure_ssl_def effective_hostname_def Let_def
      split: prod.splits sum.splits option.splits if_splits)

theorem tls_ip_server_name_unchecked_witness:
  "\<exists>ses. fst (connect_setup letters_lib sample_openssl sample_ca_env None (sample_tls_client ''fAAAAAAAA'') None) = Inr (Inr ses) \<and> ses_host ses = None"
proof -
  have "(case fst (connect_setup letters_lib sample_openssl sample_ca_env None (sample_tls_client ''fAAAAAAAA'') None) of Inr (Inr _) \<Rightarrow> True | _ \<Rightarrow> False)"
    by code_simp
  then obtain ses where s: "fst (connect_setup letters_lib sample_openssl sample_ca_env None (sample_tls_client ''fAAAAAAAA'') None) = Inr (Inr ses)"
    by (auto split: sum.splits)
  moreover have "inet_parse letters_lib (tc_server (sample_tls_client ''fAAAAAAAA'')) \<noteq> None" by code_simp
  ultimately show ?thesis using tls_ip_server_name_unchecked [OF s] by (auto simp: sample_tls_client_def)
qed

text \<open>The static is decided once: after one call that returned, no later connection changes it, so a CA bundle that
  could not be loaded at first is never tried again.\<close>

theorem shared_ctx_decided_once:
  assumes "shared = Some d"
  shows "snd (snd (connect_setup lib ossl env made cl shared)) = shared \<and>
    (d = None \<and> \<not> tc_factory cl \<longrightarrow> fst (connect_setup lib ossl env made cl shared) = Inr (Inl IO_ERROR))"
  using assms by (auto simp: connect_setup_def resolve_ctx_def get_shared_ssl_ctx_def Let_def)

text \<open>The alert loop returns, and it succeeds exactly when \<^verbatim>\<open>SSL_shutdown\<close> sent the alert, at once or after polls
  that all reported readiness.\<close>

theorem shutdown_loop_succeeds_iff:
  "shutdown_loop ret rs = Inr () \<longleftrightarrow>
   (\<exists>waits last later. ((ret # map snd rs) = replicate waits Shutdown_Want @ last # later) \<and>
      last \<in> {Shutdown_Complete, Shutdown_Sent} \<and> (\<forall>env\<in>set (take waits (map fst rs)). poll_bio env POLLIN False = IO_OK))"
proof (induction ret rs rule: shutdown_loop.induct)
  case (5 env ret rs)
  show ?case
  proof
    assume "shutdown_loop Shutdown_Want ((env, ret) # rs) = Inr ()"
    with 5 obtain waits last later where w: "poll_bio env POLLIN False = IO_OK" "(ret # map snd rs) = replicate waits Shutdown_Want @ last # later"
      "last \<in> {Shutdown_Complete, Shutdown_Sent}" "\<forall>env\<in>set (take waits (map fst rs)). poll_bio env POLLIN False = IO_OK"
      by (auto simp: Let_def split: if_splits)
    then show "\<exists>waits last later. (Shutdown_Want # map snd ((env, ret) # rs)) = replicate waits Shutdown_Want @ last # later \<and>
      last \<in> {Shutdown_Complete, Shutdown_Sent} \<and> (\<forall>env\<in>set (take waits (map fst ((env, ret) # rs))). poll_bio env POLLIN False = IO_OK)"
      by (intro exI [of _ "Suc waits"] exI [of _ last] exI [of _ later]) auto
  next
    assume "\<exists>waits last later. (Shutdown_Want # map snd ((env, ret) # rs)) = replicate waits Shutdown_Want @ last # later \<and>
      last \<in> {Shutdown_Complete, Shutdown_Sent} \<and> (\<forall>env\<in>set (take waits (map fst ((env, ret) # rs))). poll_bio env POLLIN False = IO_OK)"
    then obtain waits last later where w: "(Shutdown_Want # map snd ((env, ret) # rs)) = replicate waits Shutdown_Want @ last # later"
      "last \<in> {Shutdown_Complete, Shutdown_Sent}" "\<forall>env\<in>set (take waits (map fst ((env, ret) # rs))). poll_bio env POLLIN False = IO_OK" by blast
    then obtain k where k: "waits = Suc k" by (cases waits) auto
    with w 5 show "shutdown_loop Shutdown_Want ((env, ret) # rs) = Inr ()" by (auto simp: Let_def)
  qed
qed (auto simp: Cons_eq_append_conv Cons_replicate_eq intro: exI [of _ 0] split: nat.splits)

end
