(* ===== verification/Socket_Objects.thy ===== *)
theory Socket_Objects
  imports Socket_Model Descriptors Classic_Resolver
begin

text \<open>
  The socket class as objects (\<^verbatim>\<open>src/network/socket.cpp\<close>): construction, moves, \<^verbatim>\<open>accept\<close>, options, addresses and the
  calls that pass the type of the socket to the loops of \<open>Socket_Model\<close>. The objects and the open descriptors are the
  \<open>fd_state\<close> of \<open>Descriptors\<close>; beside it the kernel keeps for each descriptor the type it was created with, its
  close-on-exec flag, its status flags and its options. What a system call answers is an argument. The build is one
  with \<^verbatim>\<open>MSG_NOSIGNAL\<close> and \<^verbatim>\<open>SO_REUSEPORT\<close>.
\<close>

datatype opt_value = Opt_Int int | Opt_Linger int int

record sock_state =
  ss_fds :: fd_state
  ss_type :: "nat \<Rightarrow> int"
  ss_kernel_type :: "int \<Rightarrow> int"
  ss_cloexec :: "int set"
  ss_fcntl_failed :: "int set"
  ss_status :: "int \<Rightarrow> 32 word"
  ss_opts :: "int \<Rightarrow> int \<times> int \<Rightarrow> opt_value option"

definition no_sockets :: sock_state where
  "no_sockets = \<lparr>ss_fds = no_objects, ss_type = \<lambda>_. -1, ss_kernel_type = \<lambda>_. -1, ss_cloexec = {}, ss_fcntl_failed = {},
     ss_status = \<lambda>_. 0, ss_opts = \<lambda>_ _. None\<rparr>"

abbreviation (input) SOCK_STREAM :: int where "SOCK_STREAM \<equiv> 1"
abbreviation (input) SOL_SOCKET :: int where "SOL_SOCKET \<equiv> 1"
abbreviation (input) IPPROTO_IPV6 :: int where "IPPROTO_IPV6 \<equiv> 41"
abbreviation (input) SO_REUSEADDR :: int where "SO_REUSEADDR \<equiv> 2"
abbreviation (input) SO_BROADCAST :: int where "SO_BROADCAST \<equiv> 6"
abbreviation (input) SO_KEEPALIVE :: int where "SO_KEEPALIVE \<equiv> 9"
abbreviation (input) SO_LINGER :: int where "SO_LINGER \<equiv> 13"
abbreviation (input) SO_REUSEPORT :: int where "SO_REUSEPORT \<equiv> 15"
abbreviation (input) IPV6_V6ONLY :: int where "IPV6_V6ONLY \<equiv> 26"

definition sock_fd :: "nat \<Rightarrow> sock_state \<Rightarrow> int" where
  "sock_fd x st = field_of x (ss_fds st)"

definition is_closed :: "nat \<Rightarrow> sock_state \<Rightarrow> bool" where
  "is_closed x st = (sock_fd x st < 0)"

section \<open>Construction and destruction\<close>

text \<open>A new descriptor: the kernel knows its type, and nothing is set on it. It belongs to the program until an
  object takes it.\<close>

definition sys_new_fd :: "int \<Rightarrow> int \<Rightarrow> sock_state \<Rightarrow> sock_state" where
  "sys_new_fd fd type st =
     st\<lparr>ss_fds := (ss_fds st)\<lparr>open_fds := insert fd (open_fds (ss_fds st)), raw_fds := insert fd (raw_fds (ss_fds st))\<rparr>,
        ss_kernel_type := (ss_kernel_type st)(fd := type), ss_cloexec := ss_cloexec st - {fd},
        ss_fcntl_failed := ss_fcntl_failed st - {fd}, ss_status := (ss_status st)(fd := 0),
        ss_opts := (ss_opts st)(fd := \<lambda>_. None)\<rparr>"

text \<open>The attempt to set close-on-exec; the two arguments say whether the calls of \<^verbatim>\<open>fcntl\<close> succeed.\<close>

definition set_cloexec :: "bool \<Rightarrow> bool \<Rightarrow> int \<Rightarrow> sock_state \<Rightarrow> sock_state" where
  "set_cloexec getfd setfd fd st =
     (if getfd \<and> setfd then st\<lparr>ss_cloexec := insert fd (ss_cloexec st)\<rparr>
      else st\<lparr>ss_fcntl_failed := insert fd (ss_fcntl_failed st)\<rparr>)"

definition set_members :: "nat \<Rightarrow> int \<Rightarrow> int \<Rightarrow> sock_state \<Rightarrow> sock_state" where
  "set_members x fd type st = st\<lparr>ss_fds := UniqueFd x fd (ss_fds st), ss_type := (ss_type st)(x := type)\<rparr>"

definition Socket :: "nat \<Rightarrow> errno + int \<Rightarrow> bool \<Rightarrow> bool \<Rightarrow> int \<Rightarrow> sock_state \<Rightarrow> unit result \<times> sock_state" where
  "Socket x sys getfd setfd type st =
     (case sys of
        Inl _ \<Rightarrow> (Inl SocketException, st)
      | Inr fd \<Rightarrow> (Inr (), set_cloexec getfd setfd fd (set_members x fd type (sys_new_fd fd type st))))"

definition sock_close :: "nat \<Rightarrow> sock_state \<Rightarrow> sock_state" where
  "sock_close x st =
     (if sock_fd x st < 0 then st
      else let fd = sock_fd x st in st\<lparr>ss_fds := sys_close fd (set_field x (-1) (ss_fds st))\<rparr>)"

definition sock_destroy :: "nat \<Rightarrow> sock_state \<Rightarrow> sock_state" where
  "sock_destroy x st =
     (let st = sock_close x st in st\<lparr>ss_fds := (ss_fds st)\<lparr>objects := (objects (ss_fds st))(x := None)\<rparr>\<rparr>)"

definition sock_move_construct :: "nat \<Rightarrow> nat \<Rightarrow> sock_state \<Rightarrow> sock_state" where
  "sock_move_construct x other st =
     (let fd = sock_fd other st; type = ss_type st other;
          st = st\<lparr>ss_fds := set_field x fd (set_field other (-1) (ss_fds st)), ss_type := (ss_type st)(x := type)\<rparr>
      in st\<lparr>ss_type := (ss_type st)(other := -1)\<rparr>)"

definition sock_move_assign :: "nat \<Rightarrow> nat \<Rightarrow> sock_state \<Rightarrow> sock_state" where
  "sock_move_assign x other st =
     (if x \<noteq> other then
        let st = sock_close x st; fd = sock_fd other st; type = ss_type st other
        in st\<lparr>ss_fds := set_field x fd (set_field other (-1) (ss_fds st)), ss_type := (ss_type st)(other := -1, x := type)\<rparr>
      else st)"

section \<open>Options\<close>

definition set_option_raw :: "errno option \<Rightarrow> nat \<Rightarrow> int \<Rightarrow> int \<Rightarrow> opt_value \<Rightarrow> sock_state \<Rightarrow> (errno + unit) \<times> sock_state" where
  "set_option_raw sys x level optname val st =
     (case sys of
        None \<Rightarrow> (Inr (), st\<lparr>ss_opts := (ss_opts st)(sock_fd x st := (ss_opts st (sock_fd x st))((level, optname) \<mapsto> val))\<rparr>)
      | Some e \<Rightarrow> (Inl e, st))"

definition get_option :: "errno option \<Rightarrow> nat \<Rightarrow> int \<Rightarrow> int \<Rightarrow> sock_state \<Rightarrow> errno + opt_value option" where
  "get_option sys x level optname st =
     (case sys of None \<Rightarrow> Inr (ss_opts st (sock_fd x st) (level, optname)) | Some e \<Rightarrow> Inl e)"

definition bool_opt :: "bool \<Rightarrow> opt_value" where
  "bool_opt enable = Opt_Int (if enable then 1 else 0)"

definition set_reuseaddr :: "errno option \<Rightarrow> nat \<Rightarrow> bool \<Rightarrow> sock_state \<Rightarrow> (errno + unit) \<times> sock_state" where
  "set_reuseaddr sys x enable = set_option_raw sys x SOL_SOCKET SO_REUSEADDR (bool_opt enable)"

definition set_broadcast :: "errno option \<Rightarrow> nat \<Rightarrow> bool \<Rightarrow> sock_state \<Rightarrow> (errno + unit) \<times> sock_state" where
  "set_broadcast sys x enable = set_option_raw sys x SOL_SOCKET SO_BROADCAST (bool_opt enable)"

definition set_keepalive :: "errno option \<Rightarrow> nat \<Rightarrow> bool \<Rightarrow> sock_state \<Rightarrow> (errno + unit) \<times> sock_state" where
  "set_keepalive sys x enable = set_option_raw sys x SOL_SOCKET SO_KEEPALIVE (bool_opt enable)"

definition set_linger :: "errno option \<Rightarrow> nat \<Rightarrow> bool \<Rightarrow> int \<Rightarrow> sock_state \<Rightarrow> (errno + unit) \<times> sock_state" where
  "set_linger sys x enable timeout_sec =
     set_option_raw sys x SOL_SOCKET SO_LINGER (Opt_Linger (if enable then 1 else 0) timeout_sec)"

definition set_ipv6_only :: "errno option \<Rightarrow> nat \<Rightarrow> bool \<Rightarrow> sock_state \<Rightarrow> (errno + unit) \<times> sock_state" where
  "set_ipv6_only sys x enable = set_option_raw sys x IPPROTO_IPV6 IPV6_V6ONLY (bool_opt enable)"

definition set_reuseport :: "errno option \<Rightarrow> nat \<Rightarrow> bool \<Rightarrow> sock_state \<Rightarrow> (errno + unit) \<times> sock_state" where
  "set_reuseport sys x enable = set_option_raw sys x SOL_SOCKET SO_REUSEPORT (bool_opt enable)"

definition set_nonblocking :: "errno option \<Rightarrow> errno option \<Rightarrow> nat \<Rightarrow> bool \<Rightarrow> sock_state \<Rightarrow> (errno + unit) \<times> sock_state" where
  "set_nonblocking getfl setfl x enable st =
     (case getfl of
        Some e \<Rightarrow> (Inl e, st)
      | None \<Rightarrow>
          let flags = ss_status st (sock_fd x st);
              flags = (if enable then flags OR O_NONBLOCK else flags AND NOT O_NONBLOCK)
          in case setfl of
               Some e \<Rightarrow> (Inl e, st)
             | None \<Rightarrow> (Inr (), st\<lparr>ss_status := (ss_status st)(sock_fd x st := flags)\<rparr>))"

section \<open>Addresses and connections\<close>

text \<open>\<^verbatim>\<open>SocketAddr\<close> starts with family \<^verbatim>\<open>AF_UNSPEC\<close>. \<^verbatim>\<open>from_raw\<close> copies what fits; the address is what
  the bytes mean.\<close>

definition empty_sockaddr :: socket_addr where
  "empty_sockaddr = \<lparr>sa_family = UNSPECIFIED, sa_port = 0, sa_addr = [], sa_scope_id = 0\<rparr>"

abbreviation (input) SOCKADDR_STORAGE_SIZE :: nat where "SOCKADDR_STORAGE_SIZE \<equiv> 128"

definition from_raw :: "socket_addr option \<Rightarrow> nat \<Rightarrow> socket_addr" where
  "from_raw addr len =
     (case addr of
        Some a \<Rightarrow> if len > 0 \<and> len \<le> SOCKADDR_STORAGE_SIZE then a else empty_sockaddr
      | None \<Rightarrow> empty_sockaddr)"

definition sock_bind :: "(int \<Rightarrow> socket_addr \<Rightarrow> errno option) \<Rightarrow> nat \<Rightarrow> socket_addr \<Rightarrow> sock_state \<Rightarrow> errno + unit" where
  "sock_bind sys x addr st = (case sys (sock_fd x st) addr of Some e \<Rightarrow> Inl e | None \<Rightarrow> Inr ())"

definition get_sockname :: "(int \<Rightarrow> errno + socket_addr) \<Rightarrow> nat \<Rightarrow> sock_state \<Rightarrow> socket_addr result" where
  "get_sockname sys x st = (case sys (sock_fd x st) of Inl _ \<Rightarrow> Inl SocketException | Inr a \<Rightarrow> Inr a)"

definition get_peername :: "(int \<Rightarrow> errno + socket_addr) \<Rightarrow> nat \<Rightarrow> sock_state \<Rightarrow> socket_addr result" where
  "get_peername sys x st = (case sys (sock_fd x st) of Inl _ \<Rightarrow> Inl SocketException | Inr a \<Rightarrow> Inr a)"

definition sock_listen :: "(int \<Rightarrow> int \<Rightarrow> errno option) \<Rightarrow> nat \<Rightarrow> int \<Rightarrow> sock_state \<Rightarrow> unit result" where
  "sock_listen sys x backlog st = (case sys (sock_fd x st) backlog of Some _ \<Rightarrow> Inl SocketException | None \<Rightarrow> Inr ())"

text \<open>\<^verbatim>\<open>accept\<close> makes the object \<open>y\<close>. The kernel gives the new descriptor the type of the listening one, and the
  address of the peer if it is asked for. \<open>None\<close> is a call that does not return.\<close>

definition accept :: "(int \<times> socket_addr) script \<Rightarrow> bool \<Rightarrow> bool \<Rightarrow> bool \<Rightarrow> nat \<Rightarrow> nat \<Rightarrow> sock_state \<Rightarrow>
    ((errno + socket_addr option) \<times> sock_state) option" where
  "accept sys getfd setfd want_addr x y st =
     (case eintr_retry sys of
        None \<Rightarrow> None
      | Some (Inl e, _) \<Rightarrow> Some (Inl e, st)
      | Some (Inr (client_fd, peer), _) \<Rightarrow>
          let st = sys_new_fd client_fd (ss_kernel_type st (sock_fd x st)) st;
              st = set_cloexec getfd setfd client_fd st
          in Some (Inr (if want_addr then Some peer else None), set_members y client_fd (ss_type st x) st))"

section \<open>Transfer\<close>

definition sock_send :: "nat \<Rightarrow> byte list \<Rightarrow> nat script \<Rightarrow> sock_state \<Rightarrow> ((errno + nat) \<times> byte list \<times> nat script) option" where
  "sock_send x data s st = send_loop (ss_type st x = SOCK_STREAM) data s"

text \<open>The destination reaches the kernel with every part that is sent.\<close>

definition sock_send_to :: "nat \<Rightarrow> byte list \<Rightarrow> socket_addr \<Rightarrow> nat script \<Rightarrow> sock_state \<Rightarrow>
    ((errno + nat) \<times> (byte list \<times> socket_addr) \<times> nat script) option" where
  "sock_send_to x data dest s st =
     map_option (\<lambda>(r, sent, s'). (r, (sent, dest), s')) (send_loop (ss_type st x = SOCK_STREAM) data s)"

definition recv_from_impl :: "nat \<Rightarrow> bool \<Rightarrow> (byte list \<times> socket_addr) script \<Rightarrow> (errno + byte list \<times> socket_addr option) option" where
  "recv_from_impl cap want_src s =
     (case eintr_retry s of
        None \<Rightarrow> None
      | Some (Inl e, _) \<Rightarrow> Some (Inl e)
      | Some (Inr (bs, from), _) \<Rightarrow> Some (Inr (take cap bs, if want_src then Some from else None)))"

definition sock_recv_exact :: "nat \<Rightarrow> nat \<Rightarrow> byte list script \<Rightarrow> sock_state \<Rightarrow> ((errno + byte list) \<times> byte list script) option" where
  "sock_recv_exact x len s st = recv_exact (ss_type st x = SOCK_STREAM) len s"

text \<open>Scatter and gather: the kernel gets the buffers of the message, and fills those of the caller in order.\<close>

definition sendmsg :: "byte list list \<Rightarrow> nat script \<Rightarrow> ((errno + nat) \<times> byte list) option" where
  "sendmsg bufs s =
     (case eintr_retry s of
        None \<Rightarrow> None
      | Some (Inl e, _) \<Rightarrow> Some (Inl e, [])
      | Some (Inr n, _) \<Rightarrow> Some (Inr (min n (length (concat bufs))), take n (concat bufs)))"

fun scatter :: "nat list \<Rightarrow> byte list \<Rightarrow> byte list list" where
  "scatter [] bs = []"
| "scatter (n # ns) bs = take n bs # scatter ns (drop n bs)"

definition recvmsg :: "nat list \<Rightarrow> byte list script \<Rightarrow> (errno + nat \<times> byte list list) option" where
  "recvmsg caps s =
     (case eintr_retry s of
        None \<Rightarrow> None
      | Some (Inl e, _) \<Rightarrow> Some (Inl e)
      | Some (Inr bs, _) \<Rightarrow> Some (Inr (min (sum_list caps) (length bs), scatter caps bs)))"

text \<open>The calls of \<^verbatim>\<open>::shutdown\<close> so far.\<close>

datatype shut_how = SHUT_RD | SHUT_WR | SHUT_RDWR

definition sock_shutdown :: "nat \<Rightarrow> shut_how \<Rightarrow> sock_state \<Rightarrow> (int \<times> shut_how) list \<Rightarrow> (int \<times> shut_how) list" where
  "sock_shutdown x how st calls = (if sock_fd x st < 0 then calls else calls @ [(sock_fd x st, how)])"

section \<open>Runs\<close>

text \<open>What a program does with sockets. As for \<open>fd_run\<close>, a constructor makes a new object, a member function has one,
  and the kernel returns descriptors that were not open.\<close>

definition fresh_fd :: "int \<Rightarrow> sock_state \<Rightarrow> bool" where
  "fresh_fd fd st \<longleftrightarrow> 0 \<le> fd \<and> fd \<notin> open_fds (ss_fds st)"

inductive sock_run :: "sock_state \<Rightarrow> bool" where
  start: "sock_run no_sockets"
| create: "sock_run st \<Longrightarrow> objects (ss_fds st) x = None \<Longrightarrow> (\<forall>fd. sys = Inr fd \<longrightarrow> fresh_fd fd st) \<Longrightarrow>
    sock_run (snd (Socket x sys getfd setfd type st))"
| accepted: "sock_run st \<Longrightarrow> \<not> is_closed x st \<Longrightarrow> objects (ss_fds st) y = None \<Longrightarrow>
    (\<forall>fd peer s'. eintr_retry sys = Some (Inr (fd, peer), s') \<longrightarrow> fresh_fd fd st) \<Longrightarrow>
    accept sys getfd setfd want_addr x y st = Some (r, st') \<Longrightarrow> sock_run st'"
| move_construct: "sock_run st \<Longrightarrow> objects (ss_fds st) x = None \<Longrightarrow> objects (ss_fds st) y \<noteq> None \<Longrightarrow>
    sock_run (sock_move_construct x y st)"
| move_assign: "sock_run st \<Longrightarrow> objects (ss_fds st) x \<noteq> None \<Longrightarrow> objects (ss_fds st) y \<noteq> None \<Longrightarrow>
    sock_run (sock_move_assign x y st)"
| close: "sock_run st \<Longrightarrow> objects (ss_fds st) x \<noteq> None \<Longrightarrow> sock_run (sock_close x st)"
| destroy: "sock_run st \<Longrightarrow> objects (ss_fds st) x \<noteq> None \<Longrightarrow> sock_run (sock_destroy x st)"
| option: "sock_run st \<Longrightarrow> sock_run (snd (set_option_raw opt x level optname val st))"
| nonblocking: "sock_run st \<Longrightarrow> sock_run (snd (set_nonblocking getfl setfl x enable st))"

section \<open>The objects own descriptors as UniqueFd does\<close>

definition sock_inv :: "sock_state \<Rightarrow> bool" where
  "sock_inv st \<longleftrightarrow> fd_run (ss_fds st) \<and> (\<forall>x fd. objects (ss_fds st) x = Some fd \<longrightarrow> -1 \<le> fd) \<and>
     (\<forall>x fd. owns_fd (ss_fds st) x fd \<longrightarrow>
        ss_type st x = ss_kernel_type st fd \<and> fd \<in> ss_cloexec st \<union> ss_fcntl_failed st)"

lemma sock_fd_eq: "sock_fd x st = field_of x (ss_fds st)"
  by (simp add: sock_fd_def)

lemma sock_close_fds: "ss_fds (sock_close x st) = fd_close x (ss_fds st)"
  by (simp add: sock_close_def sock_fd_def fd_close_def Let_def)

lemma sock_close_other [simp]:
  "ss_type (sock_close x st) = ss_type st" "ss_kernel_type (sock_close x st) = ss_kernel_type st"
  "ss_cloexec (sock_close x st) = ss_cloexec st" "ss_fcntl_failed (sock_close x st) = ss_fcntl_failed st"
  by (simp_all add: sock_close_def Let_def)

text \<open>Closing is resetting to \<open>-1\<close>.\<close>

lemma fd_close_is_reset:
  assumes "fd_inv fs" "objects fs x = Some f" "-1 \<le> f"
  shows "fd_close x fs = fd_reset x (-1) fs"
proof -
  have "- 1 \<notin> raw_fds fs" using fd_invD(2) [OF assms(1), of "-1"] by auto
  then have r: "own (-1) (fd_close x fs) = fd_close x fs" using fd_close_inv(3) [OF assms(1)] by (simp add: own_def)
  have "set_field x (-1) (fd_close x fs) = fd_close x fs"
  proof (cases "0 \<le> f")
    case True
    with assms(2) show ?thesis by (auto simp: fd_close_def sys_close_def set_field_def field_of_def Let_def)
  next
    case False
    with assms(2,3) have "objects fs x = Some (-1)" by simp
    then have "set_field x (-1) fs = fs" by (simp add: set_field_def map_upd_triv)
    with False assms(2) show ?thesis by (simp add: fd_close_def field_of_def)
  qed
  with r show ?thesis by (simp add: fd_reset_def)
qed

lemma fd_close_run:
  assumes "fd_run fs" "objects fs x = Some f" "-1 \<le> f"
  shows "fd_run (fd_close x fs)"
  using fd_run.reset [OF assms(1), of x "-1"] assms fd_close_is_reset [OF fd_run_inv [OF assms(1)]] by (simp add: handover_def)

lemma fd_close_objects: "objects (fd_close x fs) y = Some f \<Longrightarrow> objects fs y = Some f \<or> f = -1"
  by (auto simp: fd_close_def sys_close_def Let_def split: if_splits)

lemma fd_close_owns:
  assumes "fd_inv fs" "owns_fd (fd_close x fs) y fd"
  shows "y \<noteq> x \<and> owns_fd fs y fd"
  using fd_close_inv(2) [OF assms(1), of x fd] fd_close_inv(4) [OF assms(1), of y x] assms(2)
  by (cases "y = x") (auto simp: owns_fd_def)

lemma sock_inv_close:
  assumes "sock_inv st" "objects (ss_fds st) x \<noteq> None"
  shows "sock_inv (sock_close x st)"
proof -
  from assms obtain f where f: "objects (ss_fds st) x = Some f" "-1 \<le> f" "fd_run (ss_fds st)" by (auto simp: sock_inv_def)
  have "fd_run (fd_close x (ss_fds st))" using fd_close_run [OF f(3,1,2)] .
  with assms(1) show ?thesis
    by (fastforce simp: sock_inv_def sock_close_fds dest: fd_close_objects fd_close_owns [OF fd_run_inv [OF f(3)]])
qed

lemma sock_inv_new:
  assumes "sock_inv st" "objects (ss_fds st) x = None" "fresh_fd fd st"
  shows "sock_inv (set_cloexec g s fd (set_members x fd type (sys_new_fd fd type st)))"
proof -
  let ?fs = "(ss_fds st)\<lparr>open_fds := insert fd (open_fds (ss_fds st)), raw_fds := insert fd (raw_fds (ss_fds st))\<rparr>"
  from assms have "fd_run ?fs" by (auto simp: sock_inv_def fresh_fd_def intro: fd_run.sys_open)
  then have run: "fd_run (UniqueFd x fd ?fs)" using assms(2) by (intro fd_run.construct) (simp_all add: handover_def)
  have o: "owns_fd (UniqueFd x fd ?fs) y f \<longleftrightarrow> (if y = x then f = fd \<and> 0 \<le> fd else owns_fd (ss_fds st) y f)" for y f
    by (auto simp: UniqueFd_def own_def owns_fd_def)
  have ne: "f \<noteq> fd" if "owns_fd (ss_fds st) y f" for y f
    using that assms(1,3) fd_invD(3) [OF fd_run_inv] by (auto simp: sock_inv_def fresh_fd_def)
  have ob: "-1 \<le> f" if "objects (UniqueFd x fd ?fs) y = Some f" for y f
    using that assms by (auto simp: UniqueFd_def own_def sock_inv_def fresh_fd_def split: if_splits)
  show ?thesis
    using run assms(1) ne by (auto simp: sock_inv_def set_cloexec_def set_members_def sys_new_fd_def o dest: ob)
qed

lemma set_cloexec_members: "set_members x fd type (set_cloexec g s fd st) = set_cloexec g s fd (set_members x fd type st)"
  by (simp add: set_members_def set_cloexec_def)

lemma set_cloexec_type: "ss_type (set_cloexec g s fd (sys_new_fd fd type st)) = ss_type st"
  by (simp add: set_cloexec_def sys_new_fd_def)

lemma sock_inv_move:
  assumes "sock_inv st" "fd_run (set_field x (sock_fd y st) (set_field y (-1) (ss_fds st)))" "x \<noteq> y"
  shows "sock_inv (st\<lparr>ss_fds := set_field x (sock_fd y st) (set_field y (-1) (ss_fds st)), ss_type := (ss_type st)(y := -1, x := ss_type st y)\<rparr>)"
proof -
  have "owns_fd (ss_fds st) y (sock_fd y st)" if "0 \<le> sock_fd y st" using that by (simp add: sock_fd_def field_of_owns)
  moreover have "-1 \<le> sock_fd y st" using assms(1) by (auto simp: sock_fd_def field_of_def sock_inv_def split: option.splits)
  ultimately show ?thesis using assms by (auto simp: sock_inv_def split: if_splits)
qed

lemma sock_run_inv: "sock_run st \<Longrightarrow> sock_inv st"
proof (induction rule: sock_run.induct)
  case start
  show ?case by (simp add: sock_inv_def no_sockets_def no_objects_def owns_fd_def fd_run.start [unfolded no_objects_def])
next
  case (create st x sys getfd setfd type)
  then show ?case using sock_inv_new by (cases sys) (simp_all add: Socket_def)
next
  case (accepted st x y sys getfd setfd want_addr r st')
  have "ss_type st x = ss_kernel_type st (sock_fd x st)"
    using accepted by (auto simp: is_closed_def sock_inv_def sock_fd_def field_of_owns)
  moreover have "st' = st \<or> (\<exists>fd peer s'. eintr_retry sys = Some (Inr (fd, peer), s') \<and>
      st' = set_cloexec getfd setfd fd (set_members y fd (ss_type st x) (sys_new_fd fd (ss_kernel_type st (sock_fd x st)) st)))"
    using accepted.hyps(5)
    by (auto simp: accept_def Let_def set_cloexec_members set_cloexec_type split: option.splits sum.splits)
  ultimately show ?case using accepted sock_inv_new [OF accepted.IH accepted.hyps(3)] by auto
next
  case (move_construct st x y)
  then have "x \<noteq> y" by auto
  moreover have "fd_run (fd_move_construct x y (ss_fds st))" using move_construct by (auto simp: sock_inv_def intro: fd_run.move_construct)
  moreover have "(ss_type st)(x := ss_type st y, y := -1) = (ss_type st)(y := -1, x := ss_type st y)" using \<open>x \<noteq> y\<close> by (simp add: fun_upd_twist)
  ultimately show ?case using sock_inv_move [OF move_construct.IH, of x y]
    by (simp add: sock_move_construct_def fd_move_construct_def fd_exchange_def sock_fd_def Let_def)
next
  case (move_assign st x y)
  show ?case
  proof (cases "x = y")
    case False
    have "fd_run (fd_move_assign x y (ss_fds st))" using move_assign by (auto simp: sock_inv_def intro: fd_run.move_assign)
    with False sock_inv_move [OF sock_inv_close [OF move_assign.IH move_assign.hyps(2)] _ False] show ?thesis
      by (simp add: sock_move_assign_def fd_move_assign_def fd_exchange_def sock_fd_def sock_close_fds Let_def)
  qed (use move_assign.IH in \<open>simp add: sock_move_assign_def\<close>)
next
  case (close st x)
  then show ?case by (simp add: sock_inv_close)
next
  case (destroy st x)
  have c: "sock_inv (sock_close x st)" using destroy by (simp add: sock_inv_close)
  have "fd_run (fd_destroy x (ss_fds st))" using destroy by (auto simp: sock_inv_def intro: fd_run.destroy)
  with c show ?case by (auto simp: sock_inv_def sock_destroy_def fd_destroy_def sock_close_fds Let_def split: if_splits)
next
  case (option st opt x level optname val)
  then show ?case by (cases opt) (simp_all add: set_option_raw_def sock_inv_def)
next
  case (nonblocking st getfl setfl x enable)
  then show ?case by (auto simp: set_nonblocking_def sock_inv_def Let_def split: option.splits)
qed

section \<open>Properties\<close>

text \<open>C27. Socket objects own descriptors exactly as \<open>UniqueFd\<close> objects do: every run of constructors, \<open>accept\<close>, moves,
  closes and destructors is a run of descriptor owners, so no descriptor is closed twice or owned twice; the type an
  object hands to the send and receive loops is that of its kernel socket, through every move and \<open>accept\<close>; and a
  descriptor lacks close-on-exec only if \<^verbatim>\<open>fcntl\<close> failed.\<close>

theorem socket_objects_refine_descriptors:
  assumes "sock_run st"
  shows "fd_run (ss_fds st) \<and> bad_closes (ss_fds st) = [] \<and>
    (\<forall>x fd. owns_fd (ss_fds st) x fd \<longrightarrow> fd \<in> open_fds (ss_fds st) \<and> fd \<in> ss_cloexec st \<union> ss_fcntl_failed st \<and>
      sock_send x data s st = send_loop (ss_kernel_type st fd = SOCK_STREAM) data s \<and>
      sock_recv_exact x n r st = recv_exact (ss_kernel_type st fd = SOCK_STREAM) n r)"
  using sock_run_inv [OF assms] fd_invD(1,3) [OF fd_run_inv, of "ss_fds st"]
  by (auto simp: sock_inv_def sock_send_def sock_recv_exact_def)

text \<open>A listening socket, one connection, and the object moved once.\<close>

definition sample_accepted :: sock_state where
  "sample_accepted = (case accept [Inl EINTR, Inr (4, empty_sockaddr)] True True False 0 1
     (snd (Socket 0 (Inr 3) True True SOCK_STREAM no_sockets)) of
       Some (_, st) \<Rightarrow> sock_move_construct 2 1 st | None \<Rightarrow> no_sockets)"

lemma sample_accepted_run: "sock_run sample_accepted \<and> owns_fd (ss_fds sample_accepted) 2 4"
proof -
  let ?st = "snd (Socket 0 (Inr 3) True True SOCK_STREAM no_sockets)"
  have f: "objects (ss_fds ?st) 0 = Some 3" "objects (ss_fds ?st) 1 = None" "open_fds (ss_fds ?st) = {3}" "objects (ss_fds ?st) 2 = None"
    by (simp_all add: Socket_def set_cloexec_def set_members_def sys_new_fd_def no_sockets_def no_objects_def UniqueFd_def own_def)
  obtain st where st: "accept [Inl EINTR, Inr (4, empty_sockaddr)] True True False 0 1 ?st = Some (Inr None, st)"
    "objects (ss_fds st) = (objects (ss_fds ?st))(1 \<mapsto> 4)"
    by (simp add: accept_def Let_def set_members_def set_cloexec_def sys_new_fd_def UniqueFd_def own_def)
  have "sock_run ?st" by (rule sock_run.create [OF sock_run.start]) (simp_all add: no_sockets_def no_objects_def fresh_fd_def)
  then have "sock_run st" by (rule sock_run.accepted [OF _ _ _ _ st(1)]) (use f in \<open>simp_all add: is_closed_def sock_fd_def field_of_def fresh_fd_def\<close>)
  then have "sock_run (sock_move_construct 2 1 st)" by (rule sock_run.move_construct) (use st(2) f in simp_all)
  moreover have "owns_fd (ss_fds (sock_move_construct 2 1 st)) 2 4"
    using st(2) by (simp add: sock_move_construct_def Let_def sock_fd_def field_of_def)
  ultimately show ?thesis using st(1) by (simp add: sample_accepted_def)
qed

theorem socket_objects_refine_descriptors_witness:
  "4 \<in> open_fds (ss_fds sample_accepted) \<and> bad_closes (ss_fds sample_accepted) = [] \<and>
   sock_send 2 [1, 2] [Inr 1, Inr 1] sample_accepted = send_loop (ss_kernel_type sample_accepted 4 = SOCK_STREAM) [1, 2] [Inr 1, Inr 1]"
  using socket_objects_refine_descriptors [of sample_accepted "[1, 2]" "[Inr 1, Inr 1]" 0 "[]"] sample_accepted_run by blast

text \<open>What is set on a socket is read back, until the same option is set again; setting it leaves every other option
  and every other descriptor as it was.\<close>

theorem option_round_trip:
  assumes "set_option_raw None x level optname val st = (r, st')"
  shows "r = Inr () \<and> get_option None x level optname st' = Inr (Some val) \<and>
    (\<forall>y l n. (sock_fd y st, l, n) \<noteq> (sock_fd x st, level, optname) \<longrightarrow> get_option None y l n st' = get_option None y l n st)"
  using assms by (auto simp: set_option_raw_def get_option_def sock_fd_def)

text \<open>\<open>set_nonblocking\<close> changes one bit of the status flags.\<close>

theorem set_nonblocking_flag:
  assumes "set_nonblocking None None x enable st = (r, st')"
  shows "(ss_status st' (sock_fd x st) AND O_NONBLOCK \<noteq> 0) = enable \<and>
    ss_status st' (sock_fd x st) AND NOT O_NONBLOCK = ss_status st (sock_fd x st) AND NOT O_NONBLOCK"
proof -
  have "ss_status st' (sock_fd x st) = (if enable then ss_status st (sock_fd x st) OR O_NONBLOCK else ss_status st (sock_fd x st) AND NOT O_NONBLOCK)"
    using assms by (auto simp: set_nonblocking_def Let_def)
  moreover have "(w OR O_NONBLOCK) AND O_NONBLOCK = O_NONBLOCK" "(w AND NOT O_NONBLOCK) AND O_NONBLOCK = 0"
    "(w OR O_NONBLOCK) AND NOT O_NONBLOCK = w AND NOT O_NONBLOCK" for w :: "32 word"
    by (auto simp: bit_eq_iff bit_simps)
  moreover have "(O_NONBLOCK :: 32 word) \<noteq> 0" by simp
  ultimately show ?thesis by (simp add: and.assoc)
qed

text \<open>A message received into several buffers is the data in order.\<close>

theorem recvmsg_in_order:
  "recvmsg caps [Inr bs] = Some (Inr (n, bufs)) \<Longrightarrow> concat bufs = take n bs \<and> list_all2 (\<lambda>b c. length b \<le> c) bufs caps"
proof -
  assume r: "recvmsg caps [Inr bs] = Some (Inr (n, bufs))"
  have "concat (scatter caps bs) = take (sum_list caps) bs" "list_all2 (\<lambda>b c. length b \<le> c) (scatter caps bs) caps"
    by (induction caps bs rule: scatter.induct) (simp_all add: take_add)
  with r show ?thesis by (auto simp: recvmsg_def min_def)
qed

end
