(* ===== verification/Res_Context.thy ===== *)
theory Res_Context
  imports System_Resolver Config_Types
begin

text \<open>
  The state of libresolv as the system backend prepares it (\<^verbatim>\<open>src/dns/resolver/classic_system.cpp\<close>, the build for
  glibc): the name servers read from \<^verbatim>\<open>resolv.conf\<close> are replaced by the configured one. An IPv6 server stands in the
  extension of the structure, with an empty IPv4 entry before it. \<^verbatim>\<open>inet_addr\<close> and the calls of libresolv are
  arguments; \<open>None\<close> is \<^verbatim>\<open>std::bad_alloc\<close>.
\<close>

abbreviation (input) MAXNS :: nat where "MAXNS \<equiv> 3"
abbreviation (input) NS_AF_INET :: nat where "NS_AF_INET \<equiv> 2"

record ns4_entry =
  ns4_family :: nat
  ns4_addr :: "byte list"
  ns4_port :: u16

record ns6_entry =
  ns6_addr :: "byte list"
  ns6_port :: u16

record res_state =
  rs_nscount :: nat
  rs_nsaddr_list :: "ns4_entry list"
  rs_ext_nscount :: nat
  rs_ext_nscount6 :: nat
  rs_ext_nsmap :: "nat list"
  rs_ext_nsaddrs :: "ns6_entry option list"
  rs_retrans :: nat
  rs_retry :: nat

definition zero_ns4 :: ns4_entry where
  "zero_ns4 = \<lparr>ns4_family = 0, ns4_addr = [0, 0, 0, 0], ns4_port = 0\<rparr>"

text \<open>The constructor, after \<^verbatim>\<open>res_ninit\<close> has filled the state.\<close>

definition ResolverContext :: "res_state \<Rightarrow> res_state" where
  "ResolverContext initial = initial\<lparr>rs_retrans := 1, rs_retry := 1\<rparr>"

definition set_ipv6_nameserver :: "inet_lib \<Rightarrow> bool \<Rightarrow> dns_server \<Rightarrow> res_state \<Rightarrow> res_state option" where
  "set_ipv6_nameserver lib alloc server st =
     (let st = st\<lparr>rs_nsaddr_list := replicate (min (rs_nscount st) (length (rs_nsaddr_list st))) zero_ns4 @ drop (rs_nscount st) (rs_nsaddr_list st)\<rparr>;
          st = st\<lparr>rs_nscount := 1, rs_ext_nscount := 1\<rparr>;
          st = st\<lparr>rs_ext_nsaddrs := replicate MAXNS None\<rparr>;
          st = st\<lparr>rs_nscount := 1, rs_ext_nscount := 1, rs_ext_nscount6 := 1, rs_ext_nsmap := (rs_ext_nsmap st)[0 := MAXNS + 1]\<rparr>
      in if \<not> alloc then None
         else Some (st\<lparr>rs_ext_nsaddrs := (rs_ext_nsaddrs st)[0 := Some
           \<lparr>ns6_addr = (case inet_pton6 lib (c_str (srv_address server)) of Some b \<Rightarrow> b | None \<Rightarrow> replicate 16 0),
            ns6_port = srv_port server\<rparr>]\<rparr>))"

definition set_nameserver :: "inet_lib \<Rightarrow> (string \<Rightarrow> byte list) \<Rightarrow> bool \<Rightarrow> dns_server \<Rightarrow> res_state \<Rightarrow> res_state option" where
  "set_nameserver lib inet_addr alloc server st =
     (if inet4_parse lib (srv_address server) \<noteq> None then
        Some (st\<lparr>rs_nscount := 1,
          rs_nsaddr_list := (rs_nsaddr_list st)[0 := \<lparr>ns4_family = NS_AF_INET, ns4_addr = inet_addr (c_str (srv_address server)),
            ns4_port = srv_port server\<rparr>]\<rparr>)
      else set_ipv6_nameserver lib alloc server st)"

text \<open>One query: a context of its own, the configured server, then the loop of \<open>do_query\<close>.\<close>

definition context_query :: "inet_lib \<Rightarrow> (string \<Rightarrow> byte list) \<Rightarrow> bool \<Rightarrow> (res_state \<Rightarrow> res_lib) \<Rightarrow> res_state \<Rightarrow> dns_server \<Rightarrow>
    (dns_error + byte list) result option option" where
  "context_query lib inet_addr alloc res initial server =
     map_option (\<lambda>st. sys_query (res st)) (set_nameserver lib inet_addr alloc server (ResolverContext initial))"

section \<open>Properties\<close>

text \<open>The servers a state names: entry \<open>i\<close> is the IPv4 one, or the IPv6 one of the extension if the family of that is unset.\<close>

definition named_servers :: "res_state \<Rightarrow> (byte list \<times> u16) option list" where
  "named_servers st = map (\<lambda>i.
     if ns4_family (rs_nsaddr_list st ! i) \<noteq> 0 then Some (ns4_addr (rs_nsaddr_list st ! i), ns4_port (rs_nsaddr_list st ! i))
     else map_option (\<lambda>e. (ns6_addr e, ns6_port e)) (rs_ext_nsaddrs st ! i)) [0..<rs_nscount st]"

text \<open>A query goes to the configured server and no other, whatever \<^verbatim>\<open>resolv.conf\<close> held, for every address that
  \<^verbatim>\<open>inet_pton\<close> accepts; and at most two attempts of a second are made.\<close>

theorem only_configured_server_queried:
  assumes "length (rs_nsaddr_list initial) = MAXNS" "length (rs_ext_nsmap initial) = MAXNS" "0 < rs_nscount initial"
    and "set_nameserver lib inet_addr alloc server (ResolverContext initial) = Some st"
    and "\<And>s b. inet_pton4 lib s = Some b \<Longrightarrow> inet_addr s = b" "srv_address server \<noteq> []"
    and "inet_pton4 lib (c_str (srv_address server)) = Some addr \<or>
      inet_pton4 lib (c_str (srv_address server)) = None \<and> inet_pton6 lib (c_str (srv_address server)) = Some addr"
  shows "named_servers st = [Some (addr, srv_port server)] \<and> rs_retrans st = 1 \<and> rs_retry st = 1"
proof (cases "inet_pton4 lib (c_str (srv_address server))")
  case (Some b)
  with assms(5) [OF Some] assms(1,4,6,7) show ?thesis
    by (auto simp: set_nameserver_def inet4_parse_def ResolverContext_def named_servers_def)
next
  case None
  have z: "(replicate (min (rs_nscount initial) MAXNS) zero_ns4 @ xs) ! 0 = zero_ns4" for xs
    using assms(3) by (simp add: nth_append)
  from None assms(1,4,6,7) z have "rs_nscount st = 1" "rs_nsaddr_list st ! 0 = zero_ns4" "rs_ext_nsaddrs st ! 0 = Some \<lparr>ns6_addr = addr, ns6_port = srv_port server\<rparr>"
    "rs_retrans st = 1" "rs_retry st = 1"
    by (auto simp: set_nameserver_def inet4_parse_def set_ipv6_nameserver_def ResolverContext_def Let_def split: if_splits)
  then show ?thesis by (simp add: named_servers_def zero_ns4_def)
qed

text \<open>An address with a zone, such as that of a link-local server, passes the validator but not \<^verbatim>\<open>inet_pton\<close>, whose
  result is ignored: the query goes to the unspecified address.\<close>

theorem zone_server_becomes_unspecified:
  assumes "length (rs_nsaddr_list initial) = MAXNS" "0 < rs_nscount initial" "srv_address server \<noteq> []"
    and "inet_pton4 lib (c_str (srv_address server)) = None" "inet_pton6 lib (c_str (srv_address server)) = None"
    and "set_nameserver lib inet_addr alloc server (ResolverContext initial) = Some st"
  shows "named_servers st = [Some (replicate 16 0, srv_port server)]"
proof -
  have z: "(replicate (min (rs_nscount initial) MAXNS) zero_ns4 @ xs) ! 0 = zero_ns4" for xs
    using assms(2) by (simp add: nth_append)
  from assms z have "rs_nscount st = 1" "rs_nsaddr_list st ! 0 = zero_ns4"
    "rs_ext_nsaddrs st ! 0 = Some \<lparr>ns6_addr = replicate 16 0, ns6_port = srv_port server\<rparr>"
    by (auto simp: set_nameserver_def inet4_parse_def set_ipv6_nameserver_def ResolverContext_def Let_def split: if_splits)
  then show ?thesis by (simp add: named_servers_def zero_ns4_def)
qed

end
