(* ===== verification/Command_Line.thy ===== *)
theory Command_Line
  imports Manager_Model Resolver_Factory Net_Devices Signal_Watcher
begin

text \<open>
  The program as it is started (\<^verbatim>\<open>src/main.cpp\<close>, \<^verbatim>\<open>src/config/config.cpp\<close>, \<^verbatim>\<open>src/cli\<close>): the commands, the daemon and
  the exit status. The argument parser and the JSON library are arguments: what the parser makes of the command line,
  what a file holds, what a configuration prints as. The interface table of the \<open>k\<close>-th call is that of the devices when
  the table was made. The output of a command is what it prints, without the fixed words; the lines of a command that
  throws are not kept. A \<open>None\<close> is a call that has not returned.
\<close>

abbreviation (input) EXIT_SUCCESS :: int where "EXIT_SUCCESS \<equiv> 0"
abbreviation (input) EXIT_FAILURE :: int where "EXIT_FAILURE \<equiv> 1"

record 'json program_env =
  pg_lib :: inet_lib
  pg_exists :: "string \<Rightarrow> bool option"
  pg_read_json :: "string \<Rightarrow> 'json app_config option"
  pg_write_json :: "'json app_config \<Rightarrow> string option"
  pg_drivers :: driver_env
  pg_devices :: "nat \<Rightarrow> dev_env"
  pg_ip :: ip_env
  pg_default_server :: dns_server
  pg_min_interval :: int
  pg_enum_cast :: "string \<Rightarrow> record_kind option"
  pg_indices :: "nat list"
  pg_run :: "nat \<Rightarrow> lookup list \<Rightarrow> lookup"
  pg_world :: "nat \<Rightarrow> resolver_world"
  pg_mask_set :: bool
  pg_clock :: "nat \<Rightarrow> int"
  pg_rounds :: "Manager_Model.round list"

section \<open>The configuration file\<close>

text \<open>\<^verbatim>\<open>exists\<close> may throw \<^verbatim>\<open>filesystem_error\<close>, the \<open>None\<close> of \<open>pg_exists\<close>.\<close>

definition load_config :: "'json program_env \<Rightarrow> string \<Rightarrow> 'json app_config result" where
  "load_config env config_path =
     (case pg_exists env config_path of
        None \<Rightarrow> Inl RuntimeError
      | Some exists \<Rightarrow>
          if \<not> exists then Inl RuntimeError
          else case pg_read_json env config_path of None \<Rightarrow> Inl RuntimeError | Some cfg \<Rightarrow> Inr cfg)"

section \<open>Exceptions\<close>

text \<open>The handlers of \<^verbatim>\<open>main\<close> and \<^verbatim>\<open>execute_config_test\<close>, in their order. An access that C++ leaves undefined is
  no exception.\<close>

datatype handler = Verification_Handler | Yaddnsc_Handler | Std_Handler

fun catch_handler :: "exn \<Rightarrow> handler option" where
  "catch_handler ConfigVerificationException = Some Verification_Handler"
| "catch_handler (DnsLookupException _) = Some Yaddnsc_Handler"
| "catch_handler DnsPacketException = Some Yaddnsc_Handler"
| "catch_handler DriverException = Some Yaddnsc_Handler"
| "catch_handler ParamParseException = Some Yaddnsc_Handler"
| "catch_handler SocketException = Some Yaddnsc_Handler"
| "catch_handler BadDriverException = Some Yaddnsc_Handler"
| "catch_handler DriverNotFoundException = Some Yaddnsc_Handler"
| "catch_handler TlsException = Some Std_Handler"
| "catch_handler RuntimeError = Some Std_Handler"
| "catch_handler InvalidArgument = Some Std_Handler"
| "catch_handler OutOfRange = Some Std_Handler"
| "catch_handler OutOfBounds = None"

section \<open>The commands\<close>

datatype cli_output =
    No_Drivers | Driver_List "(string \<times> driver result) list" | Driver_Detail driver
  | No_Interfaces | Interface_List "(string \<times> string list) list" | Interface_Addresses string "(string \<times> bool) list"
  | Lookup_Failed string string dns_error | No_Records string string | Lookup_Records string string "string list"
  | Resolver_Settings bool resolver_strategy "string list"
  | Json_Text string | Test_Passed | Build_Info | Error_Text | No_Output

definition interface_names :: "'json program_env \<Rightarrow> nat \<Rightarrow> string list result" where
  "interface_names env k = bindE (enumerate_interfaces (pg_devices env k)) (\<lambda>table. Inr (get_interfaces table))"

definition interface_addresses :: "'json program_env \<Rightarrow> nat \<Rightarrow> string \<Rightarrow> inet_address list result" where
  "interface_addresses env k name =
     bindE (enumerate_interfaces (pg_devices env k)) (\<lambda>table. get_addresses (with_table table (pg_ip env)) name)"

definition execute_driver_list :: "'json program_env \<Rightarrow> string \<Rightarrow> (int \<times> cli_output) result" where
  "execute_driver_list env config_path =
     bindE (load_config env config_path) (\<lambda>config.
     bindE (load_drivers (pg_drivers env) (cfg_driver config) []) (\<lambda>manager.
     let drivers = get_loaded_drivers manager in
     if drivers = [] then Inr (EXIT_SUCCESS, No_Drivers)
     else Inr (EXIT_SUCCESS, Driver_List (map (\<lambda>name. (name, get_driver name manager)) drivers))))"

definition execute_driver_info :: "'json program_env \<Rightarrow> string \<Rightarrow> string \<Rightarrow> (int \<times> cli_output) result" where
  "execute_driver_info env config_path driver_name =
     bindE (load_config env config_path) (\<lambda>config.
     bindE (load_drivers (pg_drivers env) (cfg_driver config) []) (\<lambda>manager.
     case get_driver driver_name manager of
       Inr d \<Rightarrow> Inr (EXIT_SUCCESS, Driver_Detail d)
     | Inl _ \<Rightarrow> Inr (EXIT_FAILURE, Error_Text)))"

fun list_interfaces :: "'json program_env \<Rightarrow> nat \<Rightarrow> string list \<Rightarrow> (string \<times> string list) list result" where
  "list_interfaces env k [] = Inr []"
| "list_interfaces env k (name # names) =
     bindE (interface_addresses env k name) (\<lambda>addrs.
     bindE (list_interfaces env (Suc k) names) (\<lambda>rest.
     Inr ((name, map (inet_to_string (pg_lib env)) addrs) # rest)))"

definition execute_interface_list :: "'json program_env \<Rightarrow> (int \<times> cli_output) result" where
  "execute_interface_list env =
     bindE (interface_names env 0) (\<lambda>interfaces.
     if interfaces = [] then Inr (EXIT_SUCCESS, No_Interfaces)
     else bindE (list_interfaces env 1 interfaces) (\<lambda>lines. Inr (EXIT_SUCCESS, Interface_List lines)))"

definition execute_interface_ip :: "'json program_env \<Rightarrow> string \<Rightarrow> (int \<times> cli_output) result" where
  "execute_interface_ip env interface_name =
     (case interface_addresses env 0 interface_name of
        Inl x \<Rightarrow> if catch_handler x = None then Inl x else Inr (EXIT_FAILURE, Error_Text)
      | Inr addrs \<Rightarrow>
          Inr (EXIT_SUCCESS, Interface_Addresses interface_name
            (map (\<lambda>a. (inet_to_string (pg_lib env) a, get_family a = IPV4)) addrs)))"

text \<open>The defaults of \<^verbatim>\<open>ResolverDispatcher::resolve\<close> are one retry and 50 milliseconds.\<close>

definition execute_dns_resolve :: "'json program_env \<Rightarrow> string \<Rightarrow> string \<Rightarrow> string \<Rightarrow> (int \<times> cli_output) result option" where
  "execute_dns_resolve env config_path host type_str =
     (case pg_enum_cast env type_str of
        None \<Rightarrow> Some (Inr (EXIT_FAILURE, Error_Text))
      | Some type \<Rightarrow>
          (case bindE (load_config env config_path) (factory_create (pg_lib env) (pg_default_server env)) of
             Inl x \<Rightarrow> Some (Inl x)
           | Inr (insts, strategy) \<Rightarrow>
               (case resolve (pg_lib env) (pg_indices env) (pg_run env) (instance_resolvers (pg_world env) insts) strategy host type 1 50 of
                  None \<Rightarrow> None
                | Some (Inl x) \<Rightarrow> Some (Inl x)
                | Some (Inr (Inl err)) \<Rightarrow> Some (Inr (EXIT_SUCCESS, Lookup_Failed host type_str err))
                | Some (Inr (Inr rs)) \<Rightarrow>
                    Some (Inr (EXIT_SUCCESS, if rs = [] then No_Records host type_str else Lookup_Records host type_str rs)))))"

definition show_server :: "inet_lib \<Rightarrow> dns_server \<Rightarrow> string result" where
  "show_server lib srv =
     bindE (uri_parse lib (srv_address srv)) (\<lambda>u.
     if get_schema u \<noteq> [] then
       bindE (get_origin u) (\<lambda>display.
       Inr (if get_path u \<noteq> [] \<and> get_path u \<noteq> ''/'' then display @ get_path u else display))
     else Inr (get_host_literal u @ '':'' @ dec_string (unat (srv_port srv))))"

definition execute_dns_resolver :: "'json program_env \<Rightarrow> string \<Rightarrow> (int \<times> cli_output) result" where
  "execute_dns_resolver env config_path =
     bindE (load_config env config_path) (\<lambda>config.
     let r = cfg_resolver config in
     bindE (if res_servers r \<noteq> [] then mapE (show_server (pg_lib env)) (res_servers r)
            else if use_custom_server r \<and> res_address r \<noteq> [] then Inr [res_address r @ '':'' @ dec_string (unat (res_port r))]
            else Inr []) (\<lambda>servers.
     Inr (EXIT_SUCCESS, Resolver_Settings (use_custom_server r) (res_strategy r) servers)))"

definition execute_config_show :: "'json program_env \<Rightarrow> string \<Rightarrow> (int \<times> cli_output) result" where
  "execute_config_show env config_path =
     bindE (load_config env config_path) (\<lambda>config.
     case pg_write_json env config of
       None \<Rightarrow> Inr (EXIT_FAILURE, Error_Text)
     | Some json \<Rightarrow> Inr (EXIT_SUCCESS, Json_Text json))"

definition config_test_body :: "'json program_env \<Rightarrow> string \<Rightarrow> unit result" where
  "config_test_body env config_path =
     bindE (load_config env config_path) (\<lambda>config.
     bindE (load_drivers (pg_drivers env) (cfg_driver config) []) (\<lambda>manager.
     bindE (interface_names env 0) (\<lambda>interfaces.
     validate (pg_lib env) (pg_min_interval env) (get_loaded_drivers manager) interfaces config)))"

text \<open>\<open>quiet\<close> is what the callback reads: the flag is a local variable of the function that registers the command.\<close>

definition execute_config_test :: "'json program_env \<Rightarrow> string \<Rightarrow> bool \<Rightarrow> (int \<times> cli_output) result" where
  "execute_config_test env config_path quiet =
     (case config_test_body env config_path of
        Inr _ \<Rightarrow> Inr (EXIT_SUCCESS, if quiet then No_Output else Test_Passed)
      | Inl x \<Rightarrow> if catch_handler x = None then Inl x else Inr (EXIT_FAILURE, Error_Text))"

section \<open>Dispatch\<close>

datatype command =
    Cmd_Run string bool
  | Cmd_Driver_List string
  | Cmd_Driver_Info string string
  | Cmd_Interface_List
  | Cmd_Interface_Ip string
  | Cmd_Dns_Resolve string string string
  | Cmd_Dns_Resolver string
  | Cmd_Config_Show string
  | Cmd_Config_Test string bool
  | Cmd_Info

text \<open>What the parser makes of the arguments: an error with its exit status (help and version are errors with status
  0), or the callbacks it calls, in order, and whether there was a subcommand at all.\<close>

datatype parse_result = Parse_Error int | Parsed "command list" bool

record cli_outcome =
  should_run :: bool
  exit_code :: int
  exit_early :: bool
  config_path :: string
  verbose :: bool

definition exit_with :: "int \<Rightarrow> cli_outcome" where
  "exit_with code = \<lparr>should_run = False, exit_code = code, exit_early = True, config_path = ''config.json'', verbose = False\<rparr>"

fun execute_command :: "'json program_env \<Rightarrow> command \<Rightarrow> (int \<times> cli_output) result option" where
  "execute_command env (Cmd_Driver_List path) = Some (execute_driver_list env path)"
| "execute_command env (Cmd_Driver_Info path name) = Some (execute_driver_info env path name)"
| "execute_command env Cmd_Interface_List = Some (execute_interface_list env)"
| "execute_command env (Cmd_Interface_Ip name) = Some (execute_interface_ip env name)"
| "execute_command env (Cmd_Dns_Resolve path host type_str) = execute_dns_resolve env path host type_str"
| "execute_command env (Cmd_Dns_Resolver path) = Some (execute_dns_resolver env path)"
| "execute_command env (Cmd_Config_Show path) = Some (execute_config_show env path)"
| "execute_command env (Cmd_Config_Test path quiet) = Some (execute_config_test env path quiet)"
| "execute_command env Cmd_Info = Some (Inr (EXIT_SUCCESS, Build_Info))"
| "execute_command env (Cmd_Run path verb) = Some (Inr (EXIT_SUCCESS, No_Output))"

text \<open>The callbacks: that of \<^verbatim>\<open>run\<close> only sets a flag, the others set the exit status.\<close>

fun run_callbacks :: "'json program_env \<Rightarrow> command list \<Rightarrow> int \<Rightarrow> (string \<times> bool) option \<Rightarrow>
    (int \<times> (string \<times> bool) option) result option \<times> cli_output list" where
  "run_callbacks env [] code requested = (Some (Inr (code, requested)), [])"
| "run_callbacks env (Cmd_Run path verb # cs) code requested = run_callbacks env cs code (Some (path, verb))"
| "run_callbacks env (c # cs) code requested =
     (case execute_command env c of
        None \<Rightarrow> (None, [])
      | Some (Inl x) \<Rightarrow> (Some (Inl x), [])
      | Some (Inr (code', out)) \<Rightarrow> apsnd (Cons out) (run_callbacks env cs code' requested))"

definition parse_and_dispatch :: "'json program_env \<Rightarrow> parse_result \<Rightarrow> cli_outcome result option \<times> cli_output list" where
  "parse_and_dispatch env parsed =
     (case parsed of
        Parse_Error code \<Rightarrow> (Some (Inr (exit_with code)), [])
      | Parsed cs no_subcommand \<Rightarrow>
          let (r, outs) = run_callbacks env cs EXIT_SUCCESS None in
          (case r of
             None \<Rightarrow> (None, outs)
           | Some (Inl x) \<Rightarrow> if catch_handler x = None then (Some (Inl x), outs) else (Some (Inr (exit_with EXIT_FAILURE)), outs @ [Error_Text])
           | Some (Inr (code, None)) \<Rightarrow>
               if no_subcommand then (Some (Inr (exit_with EXIT_FAILURE)), outs @ [Error_Text])
               else (Some (Inr (exit_with code)), outs)
           | Some (Inr (code, Some (path, verb))) \<Rightarrow>
               (Some (Inr \<lparr>should_run = True, exit_code = 0, exit_early = False, config_path = path, verbose = verb\<rparr>), outs)))"

section \<open>The daemon\<close>

datatype failure = Thrown exn | Logic_Error logic_error

fun failure_handler :: "failure \<Rightarrow> handler option" where
  "failure_handler (Thrown x) = catch_handler x"
| "failure_handler (Logic_Error _) = Some Std_Handler"

text \<open>The manager from its constructor to its loop: the dispatcher is built first, the interfaces are listed once for
  the validation and once for the log.\<close>

definition manager_new :: "'json program_env \<Rightarrow> 'json app_config \<Rightarrow> (resolver_instance list \<times> resolver_strategy) result" where
  "manager_new env config = factory_create (pg_lib env) (pg_default_server env) config"

definition manager_prepare :: "'json program_env \<Rightarrow> 'json app_config \<Rightarrow> driver_map result" where
  "manager_prepare env config =
     bindE (manager_new env config) (\<lambda>_.
     bindE (load_drivers (pg_drivers env) (cfg_driver config) []) (\<lambda>drivers.
     bindE (interface_names env 0) (\<lambda>interfaces.
     bindE (validate (pg_lib env) (pg_min_interval env) (get_loaded_drivers drivers) interfaces config) (\<lambda>_.
     bindE (interface_names env 1) (\<lambda>_. Inr drivers)))))"

definition run_daemon :: "'json program_env \<Rightarrow> string \<Rightarrow> watcher_statics \<Rightarrow> (failure + 'json manager_event list list) option" where
  "run_daemon env path statics =
     (case load_config env path of
        Inl x \<Rightarrow> Some (Inl (Thrown x))
      | Inr config \<Rightarrow>
          (case fst (SignalWatcher statics) of
             Inl l \<Rightarrow> Some (Inl (Logic_Error l))
           | Inr _ \<Rightarrow>
               (case manager_prepare env config of
                  Inl x \<Rightarrow> Some (Inl (Thrown x))
                | Inr drivers \<Rightarrow>
                    map_option (\<lambda>(events, _). Inr events)
                      (manager_run drivers (pg_rounds env) (scheduler_init (pg_clock env) config)))))"

datatype exit_status = Exited int | Undefined_Behaviour | Terminated | Never_Returns

text \<open>The exit status, with the handler that logged the failure of the daemon.\<close>

definition main :: "'json program_env \<Rightarrow> parse_result \<Rightarrow> exit_status \<times> handler option" where
  "main env parsed =
     (case fst (parse_and_dispatch env parsed) of
        None \<Rightarrow> (Never_Returns, None)
      | Some (Inl _) \<Rightarrow> (Undefined_Behaviour, None)
      | Some (Inr outcome) \<Rightarrow>
          if \<not> should_run outcome then (Exited (exit_code outcome), None)
          else
            (case watcher_install (pg_mask_set env) \<lparr>signals_blocked = False, instance_created = False\<rparr> of
               None \<Rightarrow> (Terminated, None)
             | Some statics \<Rightarrow>
                 (case run_daemon env (config_path outcome) statics of
                    None \<Rightarrow> (Never_Returns, None)
                  | Some (Inr _) \<Rightarrow> (Exited EXIT_SUCCESS, None)
                  | Some (Inl f) \<Rightarrow>
                      (case failure_handler f of
                         Some h \<Rightarrow> (Exited EXIT_FAILURE, Some h)
                       | None \<Rightarrow> (Undefined_Behaviour, None)))))"

section \<open>How the steps of the start fail\<close>

definition null_driver :: "driver_env \<Rightarrow> bool" where
  "null_driver env \<longleftrightarrow> (\<exists>p lib. dlopen env p = Some lib \<and> dl_create lib = Some None)"

lemma load_driver_undefined: "load_driver env p m = Inl OutOfBounds \<Longrightarrow> null_driver env"
  by (auto simp: load_driver_def driver_module_def verify_magic_def verify_compiler_def create_driver_def resolve_symbol_def
      register_driver_def null_driver_def bindE_eq_Inl_iff split: option.splits if_splits)

lemma load_each_undefined: "load_each env ps m = Inl OutOfBounds \<Longrightarrow> null_driver env"
  by (induction env ps m rule: load_each.induct) (auto simp: bindE_eq_Inl_iff dest: load_driver_undefined)

lemma load_drivers_undefined: "load_drivers env cfg m = Inl OutOfBounds \<Longrightarrow> null_driver env"
  by (auto simp: load_drivers_def load_auto_discover_def load_manual_def resolve_driver_base_def Let_def bindE_eq_Inl_iff
      dest: load_each_undefined split: if_splits option.splits)

lemma load_config_error: "load_config env path = Inl x \<Longrightarrow> x = RuntimeError"
  by (auto simp: load_config_def split: option.splits if_splits)

lemma interface_names_error: "interface_names env k = Inl x \<Longrightarrow> x = RuntimeError"
  by (auto simp: interface_names_def enumerate_interfaces_def query_ifaddrs_def bindE_eq_Inl_iff split: option.splits)

lemma factory_create_error: "factory_create lib dflt cfg = Inl x \<Longrightarrow> x \<noteq> OutOfBounds"
  using factory_create_outcome [of lib dflt cfg] by auto

lemma factory_create_ok:
  "(\<exists>r. factory_create lib dflt cfg = Inr r) \<longleftrightarrow> list_all (buildable lib) (dns_servers dflt (cfg_resolver cfg))"
  using factory_create_outcome [of lib dflt cfg] by (auto split: sum.splits)

lemma catch_handler_None: "catch_handler x = None \<longleftrightarrow> x = OutOfBounds"
  by (cases x) simp_all

text \<open>What a start needs.\<close>

definition test_passes :: "'json program_env \<Rightarrow> 'json app_config \<Rightarrow> bool" where
  "test_passes env cfg \<longleftrightarrow> (\<exists>drivers interfaces. load_drivers (pg_drivers env) (cfg_driver cfg) [] = Inr drivers \<and>
     interface_names env 0 = Inr interfaces \<and>
     list_all (domain_ok (pg_lib env) (pg_min_interval env) (get_loaded_drivers drivers) interfaces) (cfg_domains cfg) \<and>
     resolver_ok (pg_lib env) (cfg_resolver cfg))"

definition starts :: "'json program_env \<Rightarrow> string \<Rightarrow> bool" where
  "starts env path \<longleftrightarrow> (\<exists>cfg. load_config env path = Inr cfg \<and> test_passes env cfg \<and>
     list_all (buildable (pg_lib env)) (dns_servers (pg_default_server env) (cfg_resolver cfg)) \<and>
     (\<exists>interfaces. interface_names env 1 = Inr interfaces))"

lemma config_test_body_ok:
  "config_test_body env path = Inr () \<longleftrightarrow> (\<exists>cfg. load_config env path = Inr cfg \<and> test_passes env cfg)"
  by (auto simp: config_test_body_def test_passes_def validate_ok)

lemma config_test_body_error: "config_test_body env path = Inl OutOfBounds \<Longrightarrow> null_driver (pg_drivers env)"
  by (auto simp: config_test_body_def bindE_eq_Inl_iff
      dest: load_config_error load_drivers_undefined interface_names_error validate_error)

lemma manager_prepare_ok:
  "(\<exists>drivers. manager_prepare env cfg = Inr drivers) \<longleftrightarrow> test_passes env cfg \<and>
     list_all (buildable (pg_lib env)) (dns_servers (pg_default_server env) (cfg_resolver cfg)) \<and>
     (\<exists>interfaces. interface_names env 1 = Inr interfaces)"
  unfolding manager_prepare_def manager_new_def test_passes_def factory_create_ok [symmetric] by (auto simp: validate_ok)

lemma manager_prepare_error: "manager_prepare env cfg = Inl OutOfBounds \<Longrightarrow> null_driver (pg_drivers env)"
  by (auto simp: manager_prepare_def manager_new_def bindE_eq_Inl_iff
      dest: factory_create_error load_drivers_undefined interface_names_error validate_error)

text \<open>A daemon that has started runs its loop to the end.\<close>

lemma prepared_manager_runs:
  assumes "manager_prepare env cfg = Inr drivers" "0 < pg_min_interval env"
  shows "\<exists>events h. manager_run drivers rounds (scheduler_init clock cfg) = Some (events, h)"
proof -
  from assms(1) obtain interfaces where
    v: "validate (pg_lib env) (pg_min_interval env) (get_loaded_drivers drivers) interfaces cfg = Inr ()"
    by (auto simp: manager_prepare_def)
  show ?thesis using manager_run_inv [OF sched_inv_init [OF v] assms(2) v] by blast
qed

lemma run_daemon_outcome:
  assumes "0 < pg_min_interval env" "signals_blocked statics" "\<not> instance_created statics"
  shows "case run_daemon env path statics of
      None \<Rightarrow> False
    | Some (Inr _) \<Rightarrow> starts env path
    | Some (Inl f) \<Rightarrow> \<not> starts env path \<and> (failure_handler f = None \<longrightarrow> null_driver (pg_drivers env))"
proof (cases "load_config env path")
  case (Inl x)
  with load_config_error [OF Inl] show ?thesis by (simp add: run_daemon_def starts_def)
next
  case (Inr cfg)
  have w: "\<exists>w. fst (SignalWatcher statics) = Inr w" using assms(2,3) by (simp add: SignalWatcher_def)
  show ?thesis
  proof (cases "manager_prepare env cfg")
    case (Inl x)
    then have "\<not> starts env path" using Inr manager_prepare_ok [of env cfg] by (simp add: starts_def)
    with Inl Inr w manager_prepare_error [of env cfg] show ?thesis by (auto simp: run_daemon_def catch_handler_None)
  next
    case prep: (Inr drivers)
    then have "starts env path" using Inr manager_prepare_ok [of env cfg] by (simp add: starts_def)
    with prep Inr w prepared_manager_runs [OF prep assms(1), of "pg_rounds env" "pg_clock env"] show ?thesis
      by (auto simp: run_daemon_def)
  qed
qed

lemma main_daemon:
  assumes "fst (parse_and_dispatch env parsed) = Some (Inr outcome)" "should_run outcome" "pg_mask_set env" "0 < pg_min_interval env"
  shows "case main env parsed of
      (Exited code, h) \<Rightarrow> (code = EXIT_SUCCESS \<and> starts env (config_path outcome) \<and> h = None) \<or>
        (code = EXIT_FAILURE \<and> \<not> starts env (config_path outcome) \<and> h \<noteq> None)
    | (Undefined_Behaviour, _) \<Rightarrow> null_driver (pg_drivers env) \<and> \<not> starts env (config_path outcome)
    | _ \<Rightarrow> False"
  using run_daemon_outcome [OF assms(4), of "\<lparr>signals_blocked = True, instance_created = False\<rparr>" "config_path outcome"] assms(1-3)
  by (auto simp: main_def watcher_install_def split: option.splits sum.splits)

section \<open>Properties\<close>


definition sample_program :: "(nat \<Rightarrow> resolver_world) \<Rightarrow> unit program_env" where
  "sample_program w = \<lparr>pg_lib = letters_lib, pg_exists = \<lambda>p. Some (p = ''c.json''), pg_read_json = \<lambda>_. Some sample_config,
     pg_write_json = \<lambda>_. None, pg_drivers = sample_driver_env, pg_devices = \<lambda>_. sample_dev, pg_ip = sample_ip_env,
     pg_default_server = \<lparr>srv_address = ''tls://h'', srv_port = 53\<rparr>, pg_min_interval = 60, pg_enum_cast = \<lambda>_. Some Kind_A,
     pg_indices = [], pg_run = \<lambda>_ _. Inl UNKNOWN, pg_world = w, pg_mask_set = True, pg_clock = \<lambda>_. 5, pg_rounds = []\<rparr>"

lemma sample_program_starts: "starts (sample_program w) ''c.json''"
proof -
  have names: "interface_names (sample_program w) k = Inr [''eth0'', ''lo'']" for k
    by (simp add: interface_names_def sample_program_def sample_dev_table get_interfaces_def)
  have "validate letters_lib 60 [''simple''] [''eth0'', ''lo''] sample_config = Inr ()"
    by (simp add: validate_ok sample_config_def sample_domain_def Scheduler.sample_subdomain_def domain_ok_def subdomain_ok_def
        ip_source_ok_def resolver_ok_def)
  moreover have "load_drivers sample_driver_env (cfg_driver sample_config) [] = Inr [(''simple'', sample_driver)]"
    using sample_start by (auto simp: manager_start_def)
  ultimately have "test_passes (sample_program w) sample_config"
    using names [of 0] by (auto simp: test_passes_def sample_program_def validate_ok get_loaded_drivers_def)
  moreover have "list_all (buildable letters_lib) (dns_servers \<lparr>srv_address = ''tls://h'', srv_port = 53\<rparr> (cfg_resolver sample_config))"
    by code_simp
  moreover have "load_config (sample_program w) ''c.json'' = Inr sample_config" by (simp add: load_config_def sample_program_def)
  ultimately show ?thesis using names [of 1] by (auto simp: starts_def sample_program_def)
qed


lemma config_test_status:
  "fst (main env (Parsed [Cmd_Config_Test path quiet] False)) = Exited EXIT_SUCCESS \<longleftrightarrow> config_test_body env path = Inr ()"
  by (auto simp: main_def parse_and_dispatch_def execute_config_test_def exit_with_def Let_def split: sum.splits prod.splits)



text \<open>With interfaces that do not change, \<^verbatim>\<open>interface list\<close> never fails once the interfaces can be listed, and it prints
  for each interface the addresses that \<^verbatim>\<open>interface ip\<close> prints for it.\<close>

lemma interface_addresses_listed:
  assumes "interface_names env 0 = Inr names" "\<And>k. pg_devices env k = dev" "name \<in> set names"
  shows "\<exists>addrs. interface_addresses env k name = Inr addrs"
proof -
  from assms(1,2) obtain table where t: "enumerate_interfaces dev = Inr table" "names = map fst table"
    by (auto simp: interface_names_def get_interfaces_def)
  with assms(3) obtain addrs where "map_of table name = Some addrs" by (metis list.set_map map_of_eq_None_iff option.exhaust)
  with t show ?thesis by (simp add: interface_addresses_def assms(2) get_addresses_def with_table_def)
qed

lemma list_interfaces_ok:
  assumes "\<forall>name\<in>set names. \<exists>addrs. interface_addresses env 0 name = Inr addrs" "\<And>k. pg_devices env k = dev"
  shows "\<exists>lines. list_interfaces env k names = Inr lines \<and> map fst lines = names \<and>
    (\<forall>(name, texts)\<in>set lines. \<exists>addrs. interface_addresses env 0 name = Inr addrs \<and> texts = map (inet_to_string (pg_lib env)) addrs)"
  using assms(1)
proof (induction names arbitrary: k)
  case (Cons name names)
  have "interface_addresses env k name = interface_addresses env 0 name" by (simp add: interface_addresses_def assms(2))
  with Cons.prems obtain addrs where a: "interface_addresses env k name = Inr addrs" "interface_addresses env 0 name = Inr addrs" by auto
  from Cons.IH [of "Suc k"] Cons.prems obtain lines where l: "list_interfaces env (Suc k) names = Inr lines" "map fst lines = names"
    "\<forall>(name, texts)\<in>set lines. \<exists>addrs. interface_addresses env 0 name = Inr addrs \<and> texts = map (inet_to_string (pg_lib env)) addrs"
    by auto
  with a show ?case by auto
qed simp

theorem interface_list_agrees_with_ip:
  assumes "interface_names env 0 = Inr names" "names \<noteq> []" "\<And>k. pg_devices env k = dev"
  shows "\<exists>lines. execute_interface_list env = Inr (EXIT_SUCCESS, Interface_List lines) \<and> map fst lines = names \<and>
    (\<forall>(name, texts)\<in>set lines. \<exists>shown. execute_interface_ip env name = Inr (EXIT_SUCCESS, Interface_Addresses name shown) \<and> texts = map fst shown)"
proof -
  have "\<forall>name\<in>set names. \<exists>addrs. interface_addresses env 0 name = Inr addrs"
    using interface_addresses_listed [OF assms(1,3)] by blast
  from list_interfaces_ok [OF this assms(3), of 1] obtain lines where l: "list_interfaces env 1 names = Inr lines" "map fst lines = names"
    "\<forall>(name, texts)\<in>set lines. \<exists>addrs. interface_addresses env 0 name = Inr addrs \<and> texts = map (inet_to_string (pg_lib env)) addrs"
    by auto
  have "execute_interface_list env = Inr (EXIT_SUCCESS, Interface_List lines)" using assms(1,2) l(1) by (simp add: execute_interface_list_def)
  moreover have "\<exists>shown. execute_interface_ip env name = Inr (EXIT_SUCCESS, Interface_Addresses name shown) \<and> texts = map fst shown"
    if "interface_addresses env 0 name = Inr addrs" "texts = map (inet_to_string (pg_lib env)) addrs" for name texts addrs
    using that by (simp add: execute_interface_ip_def comp_def)
  ultimately show ?thesis using l(2,3) by fastforce
qed

end
