(* ===== verification/Spec2Isabelle.thy ===== *)
theory Spec2Isabelle
  imports Dns_Validator String_Util Uri_Model Domain_Regex Config_Validator Scheduler Retry_Util
    Batch_Runner Dispatcher Updater Classic_Resolver Dot_Resolver Doh_Resolver Ttl_Cache
    Driver_Manager Manager_Model Ip_Sources Resolver_Factory Driver_Suite System_Dispatcher Signal_Watcher
    Descriptors Net_Devices Tls_Setup Socket_Objects Res_Context
    Command_Line
begin

text \<open>
  A verification of yaddnsc, a dynamic-DNS client: a daemon that keeps the A, AAAA or TXT records of
  configured names equal to the addresses of the machine it runs on.

  \<^bold>\<open>The program.\<close> \<^verbatim>\<open>Manager\<close> loads driver libraries (\<^verbatim>\<open>DriverManager\<close>, \<^verbatim>\<open>driver_loader\<close>), validates the
  configuration against them (\<^verbatim>\<open>ConfigValidator\<close>) and runs a loop over \<^verbatim>\<open>Scheduler\<close>, a timer queue of
  subdomains. Each due task is handed to \<^verbatim>\<open>Updater\<close> on a thread pool. An update reads the local address
  from an IP source (an interface, an HTTP service or multicast DNS), asks the \<^verbatim>\<open>Dispatcher\<close> for the
  published records, and calls the driver when they differ. The dispatcher queries one or several resolvers,
  in order or concurrently: UDP with a TCP fallback (\<^verbatim>\<open>classic_native.cpp\<close>), DNS over TLS (\<^verbatim>\<open>dot.cpp\<close>) and
  DNS over HTTPS (\<^verbatim>\<open>doh.cpp\<close>), the last two over a persistent TLS connection. Each resolver builds its
  packet with \<^verbatim>\<open>QueryBuilder\<close>, checks the response with \<^verbatim>\<open>validate_response\<close>, and the dispatcher reads it
  with the native parser.

  \<^bold>\<open>Theories and sources\<close> (paths under \<^verbatim>\<open>src/src\<close> unless they begin with \<^verbatim>\<open>include\<close>).

  \<^item> \<open>Yad_Prelude\<close>, \<open>Yad_Errors\<close>: machine integers, the result type and \<open>bindE\<close>, the errors and
    exceptions (\<^verbatim>\<open>include/dns_error.h\<close>, \<^verbatim>\<open>dns/error.cpp\<close>).
  \<^item> \<open>Bytes\<close> (\<^verbatim>\<open>util/bytes.hpp\<close>): bounds-checked big-endian access, with the interface \<open>be_codec\<close>.
  \<^item> \<open>Dns_Types\<close>, \<open>Wire_Builder\<close>, \<open>Parser_Native\<close>, \<open>Dns_Validator\<close> (\<^verbatim>\<open>dns/types.h\<close>,
    \<^verbatim>\<open>dns/wire/builder.cpp\<close>, \<^verbatim>\<open>dns/parser/parser_native.cpp\<close>, \<^verbatim>\<open>dns/validator.cpp\<close>): the wire format.
    \<open>Parser_Lemmas\<close> specifies a compressed name by the inductive relation \<open>name_at\<close> and shows that the
    parser decides it, that it never reads outside the packet and always ends, that the copy-free path
    agrees with the copying one, and that it reads back what the builder writes.
  \<^item> \<open>String_Util\<close>, \<open>Uri_Model\<close>, \<open>Inet_Address\<close>, \<open>Domain_Regex\<close>, \<open>Retry_Util\<close>, \<open>Ttl_Cache\<close>
    (\<^verbatim>\<open>include/string_util.hpp\<close>, \<^verbatim>\<open>network/uri.cpp\<close>, \<^verbatim>\<open>network/inet_address.cpp\<close>, \<^verbatim>\<open>util/validation.hpp\<close>,
    \<^verbatim>\<open>util/retry_util.hpp\<close>, \<^verbatim>\<open>util/cache.hpp\<close>): the utilities, each against a reference: substitution by
    scanning from the left, percent coding and address printing as round trips, the regular expression as
    a description of labels, the number of calls and sleeps of the retry loop, and single flight of the
    cache for any number of threads.
  \<^item> \<open>Config_Types\<close>, \<open>Config_Validator\<close> (\<^verbatim>\<open>config/config.h\<close>, \<^verbatim>\<open>config/dns_config.h\<close>,
    \<^verbatim>\<open>config/validator.hpp\<close>): the configuration and the exact set of configurations that are accepted.
  \<^item> \<open>Scheduler\<close> (\<^verbatim>\<open>core/scheduler.cpp\<close>): the queue through the interface \<open>timer_queue\<close>; which tasks a
    round returns, when it fails to return, and that validated configurations never get there.
  \<^item> \<open>Syscalls\<close>, \<open>Socket_Model\<close>, \<open>Transport_Stream\<close>, \<open>Tls_Connection\<close>, \<open>Http_Model\<close>
    (\<^verbatim>\<open>network/socket.cpp\<close>, \<^verbatim>\<open>network/transport\<close>, \<^verbatim>\<open>network/tls_connection.cpp\<close>, \<^verbatim>\<open>http\<close>): the loops over
    the kernel and OpenSSL. \<open>byte_stream\<close> is the contract of \<^verbatim>\<open>TransportStream\<close>; the TLS stream is an
    interpretation, and the HTTP reader is proved against the contract.
  \<^item> \<open>Tls_Setup\<close>, \<open>Socket_Objects\<close> (\<^verbatim>\<open>network/tls_connection.cpp\<close>, \<^verbatim>\<open>network/socket.cpp\<close>): the shared TLS context, the
    names that are sent and verified, and the closing alert; the socket objects, as a refinement of the owners of
    descriptors in \<open>Descriptors\<close>, with their options and addresses.
  \<^item> \<open>Classic_Resolver\<close>, \<open>Persistent_Conn\<close>, \<open>Dot_Resolver\<close>, \<open>Doh_Resolver\<close>
    (\<^verbatim>\<open>dns/resolver/classic_native.cpp\<close>, \<^verbatim>\<open>network/socket_addr.cpp\<close>, \<^verbatim>\<open>dns/resolver/dot.cpp\<close>,
    \<^verbatim>\<open>dns/resolver/doh.cpp\<close>): the three resolvers. \<open>Resolver_Contract\<close> states what the dispatcher relies
    on as the locale \<open>validated_resolver\<close> and interprets it on all three.
  \<^item> \<open>Batch_Runner\<close>, \<open>Dispatcher\<close> (\<^verbatim>\<open>dns/dispatcher.cpp\<close>): the threads of a concurrent batch as a step
    relation over their atomic accesses, and the strategies over it.
  \<^item> \<open>Resolver_Factory\<close> (\<^verbatim>\<open>dns/resolver_registry.cpp\<close>, \<^verbatim>\<open>dns/factory.cpp\<close> and the registrations of the
    resolvers): which configurations give a dispatcher, and that each server gets the resolver of its scheme.
  \<^item> \<open>System_Resolver\<close>, \<open>Res_Context\<close>, \<open>System_Dispatcher\<close> (\<^verbatim>\<open>dns/resolver/classic_system.cpp\<close>, \<^verbatim>\<open>dns/parser/parser_system.cpp\<close>,
    \<^verbatim>\<open>dns/dispatcher_system.cpp\<close>): the backend over libresolv and the
    name server it is given; its dispatcher against the native one, and the
    threads of a batch with the condition the caller waits for.
  \<^item> \<open>Ip_Sources\<close>, \<open>Net_Devices\<close>, \<open>Updater\<close> (\<^verbatim>\<open>ip_source\<close>, \<^verbatim>\<open>network/net_devices.cpp\<close>,
    \<^verbatim>\<open>core/updater.cpp\<close>): the local address and one update. The interface table is what the kernel reports,
    and the multicast socket refines the abstract source.
  \<^item> \<open>Driver_Manager\<close>, \<open>Manager_Model\<close> (\<^verbatim>\<open>core/driver_manager.cpp\<close>, \<^verbatim>\<open>core/driver_loader.cpp\<close>,
    \<^verbatim>\<open>util/algorithm.hpp\<close>, \<^verbatim>\<open>core/manager.cpp\<close>): start-up and the main loop.
  \<^item> \<open>Signal_Watcher\<close>, \<open>Descriptors\<close> (\<^verbatim>\<open>core/signal_watcher.cpp\<close>, \<^verbatim>\<open>util/fd.hpp\<close>,
    \<^verbatim>\<open>util/cancellation_token.hpp\<close>): the watching thread and the pending signals, the ownership of descriptors,
    and the cancellation pipe, each as a step relation with its invariant.
  \<^item> \<open>Http_Client\<close>, \<open>Signing_Model\<close> (\<^verbatim>\<open>network/http_client.cpp\<close>, \<^verbatim>\<open>util/cert_util.cpp\<close>,
    \<^verbatim>\<open>util/signing.cpp\<close>): the client the drivers use, the search for certificates, the encoders.
  \<^item> \<open>Driver_Base\<close>, \<open>Provider_Drivers\<close>, \<open>Signed_Drivers\<close>, \<open>Driver_Suite\<close> (\<^verbatim>\<open>include/driver/base.h\<close> and
    \<^verbatim>\<open>src/driver\<close>): the twelve drivers. The locale \<open>provider\<close> says that a driver contacts its provider only and
    is interpreted on eleven of them; the twelfth, \<^verbatim>\<open>simple\<close>, fills a template of the user.
  \<^item> \<open>Command_Line\<close> (\<^verbatim>\<open>main.cpp\<close>, \<^verbatim>\<open>config/config.cpp\<close>, \<^verbatim>\<open>cli\<close>): the commands and the daemon from the parsed arguments to
    the exit status, with every exception and the handler that catches it.
  \<^item> This theory composes them: what a lookup returns answers the question asked of the program's own
    resolvers, also from the configuration on, and an update that is skipped was already published.

  \<^bold>\<open>How the code is read.\<close> A function that may throw, or returns \<^verbatim>\<open>std::expected\<close>, gives a sum with the
  error on the left; where it can do both the exception is the outer sum. \<open>OutOfBounds\<close> stands for an
  access C++ leaves undefined, so that its absence is proved. A call that may not return has an option
  type, \<open>None\<close> being the call that does not. The kernel answers from scripts, OpenSSL from rounds of
  polls and reads. Threads are step relations (\<open>batch_step\<close>, \<open>sys_step\<close>,
  \<open>cache_step\<close>, \<open>watcher_step\<close>, \<open>poller_step\<close>); where a resolver takes a
  mutex once per attempt, what other threads did in between is the field \<open>v_others\<close> of a visit. The
  random engine, the clock and the stop token are arguments. Logging and message texts are dropped.

  \<^bold>\<open>Libraries.\<close> Code outside the repository is an argument: \<^verbatim>\<open>inet_pton\<close> and \<^verbatim>\<open>inet_ntop\<close> (a record
  \<open>inet_lib\<close>; the round trip of addresses assumes that they invert each other), \<^verbatim>\<open>picohttpparser\<close>
  (assumed to end a parsed header inside its input), the file system and the dynamic linker, the JSON
  and XML libraries, the digests of OpenSSL, cpp-httplib, libresolv and \<^verbatim>\<open>getifaddrs\<close>. Every such assumption is shown satisfiable by an instance.

  \<^bold>\<open>Bounds.\<close> There is no fuel. Loops that always end are total functions with a measure, and
  \<open>retry_loop\<close>, \<open>pop_due_loop\<close>, \<open>chunk_loop\<close> and \<open>query_loop\<close> are partial functions with theorems that say when they
  return. The retry limit of a lookup is below the largest 32-bit value, because with that value the
  loop of the code does not end.

  \<^bold>\<open>Not modelled.\<close> The tables of \<^verbatim>\<open>config/parser.hpp\<close> and of the driver configurations and responses are data for a
  reflection library over JSON that is not part of the repository: what it reads is an argument. The argument parser
  of the command line is one too, and the texts it prints are dropped. The logger (\<^verbatim>\<open>core/core_logger.cpp\<close>) and the
  formatters of \<^verbatim>\<open>include/fmt.hpp\<close> only produce output. Of the code for other platforms than Linux with glibc nothing is
  modelled. The thread pool is trusted to run what it is given.
\<close>

section \<open>Properties that span components\<close>

lemma resolve_answers:
  assumes "unat max_retries < 2 ^ 32 - 1" "allowed run" "set indices \<subseteq> {..<length resolvers}"
    and "\<forall>x\<in>set resolvers. program_resolver x" "decodable host"
  shows "\<exists>r. resolve lib indices run resolvers strategy host type max_retries backoff_ms = Some r \<and>
    (\<forall>rs. r = Inr (Inr rs) \<longrightarrow> rs \<noteq> [] \<and>
      (\<exists>x\<in>set resolvers. \<exists>k data m. x k host type = Inr (Inr data) \<and> parse_message data False = Inr m \<and>
        m_qr m \<and> m_rcode m = NOERROR \<and> m_questions m = [asked_question host type] \<and>
        parse_strings lib data = Inr \<lparr>fmt_rcode = NOERROR, fmt_records = rs\<rparr>))"
proof -
  obtain r where r: "resolve lib indices run resolvers strategy host type max_retries backoff_ms = Some r"
    and g: "\<forall>rs. r = Inr (Inr rs) \<longrightarrow> rs \<noteq> [] \<and>
      (\<exists>x\<in>set resolvers. \<exists>k \<le> unat max_retries. \<exists>data. x k host type = Inr (Inr data) \<and>
        parse_strings lib data = Inr \<lparr>fmt_rcode = NOERROR, fmt_records = rs\<rparr>)"
    using resolve_genuine [OF assms(1-3), of lib strategy host type backoff_ms] by (elim exE conjE) (rule that)
  have "\<exists>x\<in>set resolvers. \<exists>k data m. x k host type = Inr (Inr data) \<and> parse_message data False = Inr m \<and>
      m_qr m \<and> m_rcode m = NOERROR \<and> m_questions m = [asked_question host type] \<and>
      parse_strings lib data = Inr \<lparr>fmt_rcode = NOERROR, fmt_records = rs\<rparr>" if rs: "r = Inr (Inr rs)" for rs
  proof -
    obtain x k data where x: "x \<in> set resolvers" "x k host type = Inr (Inr data)"
      "parse_strings lib data = Inr \<lparr>fmt_rcode = NOERROR, fmt_records = rs\<rparr>" using g rs by blast
    obtain m where m: "parse_message data False = Inr m" "m_rcode m = NOERROR" using parse_strings_message [OF x(3)] by auto
    have "m_qr m \<and> m_questions m = [asked_question host type]"
      by (rule program_resolver_question [of x k host type data]) (use assms(4,5) x m in auto)
    with x m show ?thesis by blast
  qed
  with r g show ?thesis by blast
qed

text \<open>C1. The records a lookup returns answer the question that was asked. For every strategy, retry limit,
  order and interleaving, with any mix of the program's UDP, TLS and HTTPS resolvers, and whatever the
  servers send: \<open>resolve\<close> returns, and records come from a packet of one of the resolvers that is a
  response with RCODE NOERROR whose only question is the host and type of the lookup.\<close>

theorem resolve_answers_the_question:
  assumes "unat max_retries < 2 ^ 32 - 1" "allowed run" "set indices \<subseteq> {..<length resolvers}"
    and "\<forall>x\<in>set resolvers. program_resolver x" "decodable host"
  shows "\<exists>r. resolve lib indices run resolvers strategy host type max_retries backoff_ms = Some r \<and>
    (\<forall>rs. r = Inr (Inr rs) \<longrightarrow> rs \<noteq> [] \<and>
      (\<exists>x\<in>set resolvers. \<exists>k data m. x k host type = Inr (Inr data) \<and> parse_message data False = Inr m \<and>
        m_qr m \<and> m_rcode m = NOERROR \<and> m_questions m = [asked_question host type] \<and>
        parse_strings lib data = Inr \<lparr>fmt_rcode = NOERROR, fmt_records = rs\<rparr>))"
  using assms by (rule resolve_answers)

text \<open>A server that answers over UDP with the sample response.\<close>

definition sample_udp :: udp_env where
  "sample_udp = \<lparr>ue_socket = True, ue_send = [Inr 512], ue_poll = [Inr (PollReady {POLLIN} {})], ue_recv = [Inr sample_response]\<rparr>"

definition sample_classic :: resolver where
  "sample_classic = classic_resolver (\<lambda>_. 0x5678) (\<lambda>_. sample_udp) (\<lambda>_. sample_tcp) False"

lemma sample_classic_answers: "sample_classic k ''a.io'' Kind_A = Inr (Inr sample_response)"
proof -
  have "(case build_query 0x5678 ''a.io'' (type_to_record_type Kind_A) of Inl _ \<Rightarrow> False | Inr packet \<Rightarrow>
      validate_response packet sample_response = Inr (Inr ()) \<and> \<not> is_truncated sample_response \<and> length packet = 33)"
    by code_simp
  then obtain packet where p: "build_query 0x5678 ''a.io'' (type_to_record_type Kind_A) = Inr packet"
    "validate_response packet sample_response = Inr (Inr ())" "\<not> is_truncated sample_response" "length packet = 33"
    by (auto split: sum.splits)
  have "length sample_response = 38" by (simp add: sample_response_def)
  with p have "query_udp sample_udp False packet = Some (Inr (Inr sample_response))"
    by (simp add: query_udp_def sample_udp_def send_loop_def wait_for_def recv_def)
  with p show ?thesis
    by (simp add: sample_classic_def classic_resolver_def classic_query_def classic_query_body_def validated_ok [THEN iffD2])
qed

theorem resolve_answers_the_question_witness:
  "\<exists>run r. resolve sample_lib [0] run [sample_classic] FALLBACK ''a.io'' Kind_A 1 50 = Some r \<and> allowed run \<and>
    (\<forall>rs. r = Inr (Inr rs) \<longrightarrow> rs \<noteq> [])"
proof -
  obtain run where run: "allowed run" using allowed_exists by blast
  have h: "unat (1 :: u32) < 2 ^ 32 - 1" "set [0] \<subseteq> {..<length [sample_classic]}" "\<forall>x\<in>set [sample_classic]. program_resolver x"
    "decodable ''a.io''"
    by (simp_all add: sample_classic_def program_resolver.classic) code_simp
  from resolve_answers_the_question [OF h(1) run h(2-4), of sample_lib FALLBACK Kind_A 50] run show ?thesis by blast
qed

text \<open>C2. An update that is skipped was not needed. When an update that found a local address ends without
  error and without calling the driver, it was not forced, and some resolver of the program returned a
  response to the question for its name and type whose first record is the printed local address.\<close>

theorem skipped_update_was_published:
  assumes "unat max_retries < 2 ^ 32 - 1" "allowed run" "set indices \<subseteq> {..<length resolvers}"
    and "\<forall>x\<in>set resolvers. program_resolver x" "decodable (task_fqdn tk)"
    and "\<And>h t. resolve (env_lib env) indices run resolvers strategy h t max_retries backoff_ms = Some (env_dispatcher env h t)"
    and "resolve_local_address (env_ip_source env) (task_config tk) = Inr (Some ip)"
    and "executions (fst (process env tk)) = []" "snd (process env tk) = Inr ()"
  shows "\<not> task_force_update tk \<and>
    (\<exists>x\<in>set resolvers. \<exists>k data m rs. x k (task_fqdn tk) (sub_type (task_config tk)) = Inr (Inr data) \<and>
      parse_message data False = Inr m \<and> m_qr m \<and>
      m_questions m = [asked_question (task_fqdn tk) (sub_type (task_config tk))] \<and>
      parse_strings (env_lib env) data =
        Inr \<lparr>fmt_rcode = NOERROR, fmt_records = inet_to_string (env_lib env) ip # rs\<rparr>)"
proof -
  let ?h = "task_fqdn tk" and ?t = "sub_type (task_config tk)"
  from assms(7-9) obtain records where u: "\<not> task_force_update tk" "dns_lookup (env_dispatcher env) ?h ?t = Inr records"
    "records \<noteq> []" "hd records = inet_to_string (env_lib env) ip"
    by (auto simp: process_def run_driver_def Let_def split: sum.splits if_splits)
  then have d: "env_dispatcher env ?h ?t = Inr (Inr records)"
    by (auto simp: dns_lookup_def map_sum_def split: sum.splits)
  obtain rs where rs: "records = inet_to_string (env_lib env) ip # rs" using u(3,4) by (cases records) auto
  from resolve_answers [OF assms(1-5), of "env_lib env" strategy ?t backoff_ms] assms(6) [of ?h ?t] d
  have "\<exists>x\<in>set resolvers. \<exists>k data m. x k ?h ?t = Inr (Inr data) \<and> parse_message data False = Inr m \<and>
      m_qr m \<and> m_rcode m = NOERROR \<and> m_questions m = [asked_question ?h ?t] \<and>
      parse_strings (env_lib env) data = Inr \<lparr>fmt_rcode = NOERROR, fmt_records = records\<rparr>" by simp
  with u(1) rs show ?thesis by blast
qed

definition sample_published :: "unit update_task" where
  "sample_published = \<lparr>task_config = \<lparr>sub_name = ''a'', sub_type = Kind_A, sub_interface = ''eth0'', sub_ip_type = IPV4,
     sub_ip_source = INTERFACE, sub_ip_source_param = [], allow_ula = False, allow_local_link = False,
     sub_update_interval = 0, driver_param = ()\<rparr>, task_domain_name = ''io'', task_driver_name = ''simple'',
     task_fqdn = ''a.io'', task_force_update = False\<rparr>"

definition sample_world :: "(string \<Rightarrow> record_kind \<Rightarrow> lookup result) \<Rightarrow> unit update_env" where
  "sample_world dispatcher = \<lparr>env_lib = sample_lib, env_dump = \<lambda>_. None,
     env_ip_source = \<lambda>_. Inr [V4 \<lparr>v4_addr = [192, 0, 2, 1]\<rparr>], env_dispatcher = dispatcher, env_driver = \<lambda>_ _. Inr True\<rparr>"

lemma sample_resolved:
  "resolve sample_lib [0] run [sample_classic] FALLBACK ''a.io'' Kind_A 1 50 = Some (Inr (Inr [''192.0.2.1'']))"
proof -
  have "try_resolve sample_lib (Inr (Inr sample_response)) = Inr (Inr [''192.0.2.1''])" by code_simp
  then have "try_resolve sample_lib (sample_classic k ''a.io'' Kind_A) = Inr (Inr [''192.0.2.1''])" for k
    by (simp only: sample_classic_answers)
  then show ?thesis
    by (simp add: resolve_def single_run_def retry_on_error_def flatten_def unflatten_def) (subst retry_loop.simps, simp)
qed

theorem skipped_update_was_published_witness:
  "\<exists>run rs. allowed run \<and>
    fst (process (sample_world (\<lambda>h t. the (resolve sample_lib [0] run [sample_classic] FALLBACK h t 1 50))) sample_published) =
      [Lookup ''a.io'' Kind_A] \<and>
    parse_strings sample_lib sample_response = Inr \<lparr>fmt_rcode = NOERROR, fmt_records = ''192.0.2.1'' # rs\<rparr>"
proof -
  obtain run where run: "allowed run" using allowed_exists by blast
  let ?env = "sample_world (\<lambda>h t. the (resolve sample_lib [0] run [sample_classic] FALLBACK h t 1 50))"
  have h: "unat (1 :: u32) < 2 ^ 32 - 1" "set [0] \<subseteq> {..<length [sample_classic]}" by simp_all
  have pr: "\<forall>x\<in>set [sample_classic]. program_resolver x" by (simp add: sample_classic_def program_resolver.classic)
  have dec: "decodable (task_fqdn sample_published)" unfolding sample_published_def by code_simp
  have dis: "resolve (env_lib ?env) [0] run [sample_classic] FALLBACK h t 1 50 = Some (env_dispatcher ?env h t)" for h t
    using resolve_genuine [OF h(1) run h(2), of sample_lib FALLBACK h t 50] by (auto simp: sample_world_def)
  have txt4: "inet4_to_string sample_lib \<lparr>v4_addr = [192, 0, 2, 1]\<rparr> = ''192.0.2.1''" by code_simp
  have loc: "resolve_local_address (env_ip_source ?env) (task_config sample_published) = Inr (Some (V4 \<lparr>v4_addr = [192, 0, 2, 1]\<rparr>))"
    by (simp add: resolve_local_address_def sample_world_def sample_published_def)
  have p: "process ?env sample_published = ([Lookup ''a.io'' Kind_A], Inr ())"
    using loc txt4 sample_resolved [of run]
    by (simp add: process_def dns_lookup_def) (simp add: sample_world_def sample_published_def)
  from skipped_update_was_published [OF h(1) run h(2) pr dec dis loc] p
  obtain k data rs where "sample_classic k ''a.io'' Kind_A = Inr (Inr data)"
    "parse_strings sample_lib data = Inr \<lparr>fmt_rcode = NOERROR, fmt_records = ''192.0.2.1'' # rs\<rparr>"
    by (auto simp: sample_published_def sample_world_def txt4)
  with sample_classic_answers [of k] run p show ?thesis by auto
qed

lemma configured_lookup:
  assumes "factory_create lib dflt cfg = Inr (insts, strategy)" "unat max_retries < 2 ^ 32 - 1" "allowed run"
    and "set indices \<subseteq> {..<length insts}" "decodable host"
  shows "\<exists>r. resolve lib indices run (instance_resolvers w insts) strategy host type max_retries backoff_ms = Some r \<and>
    strategy = res_strategy (cfg_resolver cfg) \<and> length insts = length (dns_servers dflt (cfg_resolver cfg)) \<and>
    (\<forall>rs. r = Inr (Inr rs) \<longrightarrow> rs \<noteq> [] \<and>
      (\<exists>x\<in>set (instance_resolvers w insts). \<exists>k data m. x k host type = Inr (Inr data) \<and> parse_message data False = Inr m \<and>
        m_qr m \<and> m_rcode m = NOERROR \<and> m_questions m = [asked_question host type] \<and>
        parse_strings lib data = Inr \<lparr>fmt_rcode = NOERROR, fmt_records = rs\<rparr>))"
proof -
  have "length ys = length xs" if "mapE f xs = Inr ys" for f :: "dns_server \<Rightarrow> resolver_instance result" and xs ys
    using that by (induction xs arbitrary: ys) auto
  with assms(1) have "strategy = res_strategy (cfg_resolver cfg)" "length insts = length (dns_servers dflt (cfg_resolver cfg))"
    by (auto simp: factory_create_def)
  with resolve_answers [OF assms(2,3) _ instance_resolvers_program assms(5), of indices w insts lib strategy type backoff_ms] assms(4)
  show ?thesis by simp
qed



text \<open>The command \<^verbatim>\<open>dns resolve\<close> shows the same: whatever the configuration file says, the command returns, and the
  records it prints come from a response of a configured resolver to exactly the question typed in.\<close>

theorem dns_command_prints_answers:
  assumes "load_config env path = Inr cfg" "allowed (pg_run env)" "decodable host"
    and "set (pg_indices env) \<subseteq> {..<length (dns_servers (pg_default_server env) (cfg_resolver cfg))}"
  shows "\<exists>r. execute_command env (Cmd_Dns_Resolve path host type_str) = Some r \<and>
    (\<forall>code h t rs. r = Inr (code, Lookup_Records h t rs) \<longrightarrow> h = host \<and> t = type_str \<and> rs \<noteq> [] \<and>
      (\<exists>type insts x k data m. pg_enum_cast env type_str = Some type \<and>
        factory_create (pg_lib env) (pg_default_server env) cfg = Inr (insts, res_strategy (cfg_resolver cfg)) \<and>
        x \<in> set (instance_resolvers (pg_world env) insts) \<and>
        x k host type = Inr (Inr data) \<and> parse_message data False = Inr m \<and> m_qr m \<and> m_rcode m = NOERROR \<and>
        m_questions m = [asked_question host type] \<and>
        parse_strings (pg_lib env) data = Inr \<lparr>fmt_rcode = NOERROR, fmt_records = rs\<rparr>))"
proof (cases "pg_enum_cast env type_str")
  case None
  then show ?thesis by (simp add: execute_dns_resolve_def)
next
  case (Some type)
  show ?thesis
  proof (cases "factory_create (pg_lib env) (pg_default_server env) cfg")
    case (Inl x)
    with Some assms(1) show ?thesis by (simp add: execute_dns_resolve_def)
  next
    case (Inr f)
    obtain insts strategy where f: "f = (insts, strategy)" by (cases f)
    have n: "strategy = res_strategy (cfg_resolver cfg)" "length insts = length (dns_servers (pg_default_server env) (cfg_resolver cfg))"
      using factory_create_outcome [of "pg_lib env" "pg_default_server env" cfg] Inr f by (auto dest: map_eq_imp_length_eq)
    have one: "unat (1 :: u32) < 2 ^ 32 - 1" by simp
    from configured_lookup [OF Inr [unfolded f] one assms(2) _ assms(3), of "pg_indices env" "pg_world env" type 50] assms(4) n
    obtain r where r: "resolve (pg_lib env) (pg_indices env) (pg_run env) (instance_resolvers (pg_world env) insts) strategy host type 1 50 = Some r"
      "\<forall>rs. r = Inr (Inr rs) \<longrightarrow> rs \<noteq> [] \<and> (\<exists>x\<in>set (instance_resolvers (pg_world env) insts). \<exists>k data m. x k host type = Inr (Inr data) \<and>
        parse_message data False = Inr m \<and> m_qr m \<and> m_rcode m = NOERROR \<and> m_questions m = [asked_question host type] \<and>
        parse_strings (pg_lib env) data = Inr \<lparr>fmt_rcode = NOERROR, fmt_records = rs\<rparr>)" by auto
    have "execute_command env (Cmd_Dns_Resolve path host type_str) = Some (case r of Inl x \<Rightarrow> Inl x
      | Inr (Inl err) \<Rightarrow> Inr (0, Lookup_Failed host type_str err)
      | Inr (Inr rs) \<Rightarrow> Inr (0, if rs = [] then No_Records host type_str else Lookup_Records host type_str rs))"
      using Some assms(1) Inr f r(1) by (simp add: execute_dns_resolve_def split: sum.splits)
    with r(2) Some Inr f n(1) show ?thesis by (cases r; cases "projr r") (simp_all, blast)
  qed
qed

theorem dns_command_prints_answers_witness:
  "\<forall>w. \<exists>run r. execute_command ((sample_program w)\<lparr>pg_run := run\<rparr>) (Cmd_Dns_Resolve ''c.json'' ''a.io'' ''A'') = Some r"
proof
  fix w
  obtain run where run: "allowed run" using allowed_exists by blast
  let ?env = "(sample_program w)\<lparr>pg_run := run\<rparr>"
  have h: "load_config ?env ''c.json'' = Inr sample_config" "allowed (pg_run ?env)" "pg_indices ?env = []"
    using run by (simp_all add: load_config_def sample_program_def)
  have d: "decodable ''a.io''" by code_simp
  from dns_command_prints_answers [OF h(1,2) d, of "''A''"] h(3)
  show "\<exists>run r. execute_command ((sample_program w)\<lparr>pg_run := run\<rparr>) (Cmd_Dns_Resolve ''c.json'' ''a.io'' ''A'') = Some r" by auto
qed

end
